(* ===== verification/Prelude.thy ===== *)
theory Prelude
  imports Main "HOL-Library.Word" "HOL-Library.Multiset"
begin

text \<open>
  Shared vocabulary of the development: the machine integers of the Rust sources as words, the two
  build profiles (overflow panics in the debug profile and wraps in the release profile), the
  saturating operations, big-endian splitting and joining of words, and generic facts on lists that
  the component theories use.  The bridge builds with Cargo's default profiles (\<open>src/Cargo.toml\<close>
  has no \<open>[profile]\<close> section), so both behaviours of an overflowing \<open>+\<close> or \<open>-\<close> exist.
\<close>

unbundle bit_operations_syntax

named_theorems byte_simps \<open>splitting words into bytes and joining them again\<close>
named_theorems panic_simps \<open>when checked arithmetic does not panic, and its value\<close>
named_theorems swap_simps \<open>in-place exchange of slice elements\<close>

section \<open>Machine integers\<close>

type_synonym u8 = "8 word"
type_synonym u16 = "16 word"
type_synonym u32 = "32 word"
type_synonym u64 = "64 word"

text \<open>Signed integers have the same bits; a value is read by \<open>sint\<close>.  An \<open>as\<close> cast between the
  signed and the unsigned type of one width is the identity on the bits.\<close>

type_synonym i16 = "16 word"
type_synonym i32 = "32 word"
type_synonym i64 = "64 word"

text \<open>\<open>f32\<close> and \<open>f64\<close> are kept as their IEEE bit patterns: the sources only move them through
  \<open>to_bits\<close> and \<open>from_bits\<close>.\<close>

type_synonym f32 = "32 word"
type_synonym f64 = "64 word"

datatype profile = Debug | Release

text \<open>Rust's \<open>a + b\<close> and \<open>a - b\<close> on unsigned integers: \<open>None\<close> is the overflow panic.\<close>

definition add_ck :: "profile \<Rightarrow> 'a::len word \<Rightarrow> 'a word \<Rightarrow> 'a word option" where
  "add_ck p a b = (if p = Debug \<and> 2 ^ LENGTH('a) \<le> unat a + unat b then None else Some (a + b))"

definition sub_ck :: "profile \<Rightarrow> 'a::len word \<Rightarrow> 'a word \<Rightarrow> 'a word option" where
  "sub_ck p a b = (if p = Debug \<and> unat a < unat b then None else Some (a - b))"

definition saturating_add :: "'a::len word \<Rightarrow> 'a word \<Rightarrow> 'a word" where
  "saturating_add a b = (if unat a + unat b < 2 ^ LENGTH('a) then a + b else - 1)"

definition saturating_sub :: "'a::len word \<Rightarrow> 'a word \<Rightarrow> 'a word" where
  "saturating_sub a b = (if b \<le> a then a - b else 0)"

definition saturating_mul :: "'a::len word \<Rightarrow> 'a word \<Rightarrow> 'a word" where
  "saturating_mul a b = (if unat a * unat b < 2 ^ LENGTH('a) then a * b else - 1)"

lemma unat_plus_exact:
  fixes a b :: "'a::len word"
  assumes "unat a + unat b < 2 ^ LENGTH('a)"
  shows "unat (a + b) = unat a + unat b"
  using assms by (simp add: unat_word_ariths)

lemma unat_minus_exact:
  fixes a b :: "'a::len word"
  assumes "unat b \<le> unat a"
  shows "unat (a - b) = unat a - unat b"
  using assms by (simp add: unat_sub word_le_nat_alt)

lemma add_ck_exact [panic_simps]:
  fixes a b :: "'a::len word"
  assumes "unat a + unat b < 2 ^ LENGTH('a)"
  shows "add_ck p a b = Some (a + b)"
  using assms by (simp add: add_ck_def)

lemma sub_ck_exact [panic_simps]:
  assumes "unat b \<le> unat a"
  shows "sub_ck p a b = Some (a - b)"
  using assms by (simp add: sub_ck_def)

lemma add_ck_Release [simp]: "add_ck Release a b = Some (a + b)"
  by (simp add: add_ck_def)

lemma sub_ck_Release [simp]: "sub_ck Release a b = Some (a - b)"
  by (simp add: sub_ck_def)

lemma unat_saturating_add:
  fixes a b :: "'a::len word"
  shows "unat (saturating_add a b) = min (unat a + unat b) (2 ^ LENGTH('a) - 1)"
  by (auto simp: saturating_add_def unat_plus_exact unsigned_minus_1_eq_mask mask_eq_exp_minus_1)

lemma unat_saturating_sub: "unat (saturating_sub a b) = unat a - unat b"
  by (auto simp: saturating_sub_def unat_sub word_le_nat_alt)

lemma unat_ucast_u16_u32: "unat (ucast (x :: u16) :: u32) = unat x"
proof -
  have "unat x < 2 ^ 16" using unsigned_less [of x, where 'a = nat] by simp
  then show ?thesis by (simp add: unsigned_ucast_eq take_bit_nat_eq_self_iff)
qed

lemma unat_ucast_u32_u16: "unat (x :: u32) < 2 ^ 16 \<Longrightarrow> unat (ucast x :: u16) = unat x"
  by (simp add: unsigned_ucast_eq take_bit_nat_eq_self_iff)

lemma unat_u16_less: "unat (x :: u16) < 65536"
  using unsigned_less [of x, where 'a = nat] by simp

section \<open>Big-endian bytes and words\<close>

definition word_hi :: "u16 \<Rightarrow> u8" where
  "word_hi w = ucast (drop_bit 8 w)"

definition word_lo :: "u16 \<Rightarrow> u8" where
  "word_lo w = ucast (w AND 0xFF)"

definition be16 :: "u8 \<Rightarrow> u8 \<Rightarrow> u16" where
  "be16 hi lo = push_bit 8 (ucast hi) OR ucast lo"

definition be32 :: "u16 \<Rightarrow> u16 \<Rightarrow> u32" where
  "be32 hi lo = push_bit 16 (ucast hi) OR ucast lo"

definition be64 :: "u16 \<Rightarrow> u16 \<Rightarrow> u16 \<Rightarrow> u16 \<Rightarrow> u64" where
  "be64 w0 w1 w2 w3 =
     push_bit 48 (ucast w0) OR push_bit 32 (ucast w1) OR push_bit 16 (ucast w2) OR ucast w3"

lemma and_0xFF: "(w :: 'a::len word) AND 0xFF = take_bit 8 w"
  by (simp add: take_bit_eq_mask mask_numeral)

lemma and_0xFFFF: "(w :: 'a::len word) AND 0xFFFF = take_bit 16 w"
  by (simp add: take_bit_eq_mask mask_numeral)

lemma be16_split [byte_simps]: "be16 (word_hi w) (word_lo w) = w"
  unfolding be16_def word_hi_def word_lo_def and_0xFF
  by (rule bit_word_eqI) (auto simp: bit_simps)

lemma word_hi_be16 [byte_simps]: "word_hi (be16 a b) = a"
  unfolding be16_def word_hi_def
  by (rule bit_word_eqI) (auto simp: bit_simps dest: bit_imp_le_length)

lemma word_lo_be16 [byte_simps]: "word_lo (be16 a b) = b"
  unfolding be16_def word_lo_def and_0xFF
  by (rule bit_word_eqI) (auto simp: bit_simps)

lemma be32_split [byte_simps]:
  "be32 (ucast (drop_bit 16 w AND 0xFFFF)) (ucast (w AND 0xFFFF)) = w"
  unfolding be32_def and_0xFFFF
  by (rule bit_word_eqI) (auto simp: bit_simps)

lemma be64_split [byte_simps]:
  "be64 (ucast (drop_bit 48 w AND 0xFFFF)) (ucast (drop_bit 32 w AND 0xFFFF))
        (ucast (drop_bit 16 w AND 0xFFFF)) (ucast (w AND 0xFFFF)) = w"
proof (rule bit_word_eqI)
  fix n assume "n < LENGTH(64)"
  then consider "n < 16" | "16 \<le> n" "n < 32" | "32 \<le> n" "n < 48" | "48 \<le> n" "n < 64"
    by fastforce
  then show "bit (be64 (ucast (drop_bit 48 w AND 0xFFFF)) (ucast (drop_bit 32 w AND 0xFFFF))
        (ucast (drop_bit 16 w AND 0xFFFF)) (ucast (w AND 0xFFFF))) n = bit w n"
    unfolding be64_def and_0xFFFF by cases (auto simp: bit_simps)
qed

section \<open>In-place exchange of slice elements\<close>

text \<open>\<open><[T]>::swap(i, j)\<close>.  Every call in the sources is guarded so that both indices are in
  range; out of range Rust panics.\<close>

definition slice_swap :: "'a list \<Rightarrow> nat \<Rightarrow> nat \<Rightarrow> 'a list" where
  "slice_swap xs i j = xs[i := xs ! j, j := xs ! i]"

lemma length_slice_swap [simp]: "length (slice_swap xs i j) = length xs"
  by (simp add: slice_swap_def)

lemma slice_swap_append [swap_simps]:
  assumes "i < length zs" and "j < length zs"
  shows "slice_swap (ys @ zs) (length ys + i) (length ys + j) = ys @ slice_swap zs i j"
  using assms by (simp add: slice_swap_def list_update_append nth_append)

lemma mset_slice_swap:
  assumes "i < length xs" and "j < length xs"
  shows "mset (slice_swap xs i j) = mset xs"
  using assms by (simp add: slice_swap_def mset_swap)

section \<open>Lists, options and folds\<close>

text \<open>\<open>Iterator::find\<close>: the first element that satisfies the predicate.\<close>

fun find_first :: "('a \<Rightarrow> bool) \<Rightarrow> 'a list \<Rightarrow> 'a option" where
  "find_first P [] = None"
| "find_first P (x # xs) = (if P x then Some x else find_first P xs)"

lemma find_first_Some:
  assumes "find_first P xs = Some x"
  shows "x \<in> set xs" and "P x"
  using assms by (induction xs) (auto split: if_splits)

lemma find_first_None: "find_first P xs = None \<longleftrightarrow> (\<forall>x \<in> set xs. \<not> P x)"
  by (induction xs) auto

lemma find_first_unique:
  assumes "x \<in> set xs" and "P x" and "\<And>y. y \<in> set xs \<Longrightarrow> P y \<Longrightarrow> y = x"
  shows "find_first P xs = Some x"
proof (cases "find_first P xs")
  case None
  with assms(1,2) show ?thesis by (simp add: find_first_None)
next
  case (Some y)
  from find_first_Some [OF Some] have "y = x" by (rule assms(3))
  with Some show ?thesis by simp
qed

text \<open>The first value that a check returns: a \<open>for\<close> loop that stops at the first error.\<close>

fun first_some :: "('a \<Rightarrow> 'b option) \<Rightarrow> 'a list \<Rightarrow> 'b option" where
  "first_some f [] = None"
| "first_some f (x # xs) = (case f x of None \<Rightarrow> first_some f xs | Some y \<Rightarrow> Some y)"

text \<open>A loop that threads a state through a list: an invariant of the body is one of the loop.\<close>

lemma foldl_invariant:
  assumes "\<And>s x. x \<in> set xs \<Longrightarrow> I s \<Longrightarrow> I (f s x)" and "I s"
  shows "I (foldl f s xs)"
  using assms by (induction xs arbitrary: s) auto

end
