(* ===== verification/Rust_Std.thy ===== *)
theory Rust_Std
  imports Prelude "HOL-Library.List_Lexorder" "HOL-Library.Char_ord"
begin

text \<open>
  What the sources use of Rust's standard library.  A \<open>str\<close> is the list of its UTF-8 bytes (a HOL
  \<open>char\<close> is one byte), so \<open>str::cmp\<close> is the lexicographic order of \<open>List_Lexorder\<close> over
  \<open>Char_ord\<close>.  The theory has UTF-8 validation, trimming, ASCII case folding, substring search,
  number parsing and printing, the binary search of slices, and the bounded channel of
  \<open>std::sync::mpsc\<close>.
\<close>

section \<open>Bytes and UTF-8\<close>

definition byte_of_char :: "char \<Rightarrow> u8" where
  "byte_of_char c = word_of_nat (of_char c)"

definition char_of_byte :: "u8 \<Rightarrow> char" where
  "char_of_byte b = char_of (unat b)"

definition as_bytes :: "string \<Rightarrow> u8 list" where
  "as_bytes s = map byte_of_char s"

lemma char_of_byte_of_char [simp]: "char_of_byte (byte_of_char c) = c"
  by (simp add: char_of_byte_def byte_of_char_def unsigned_of_nat take_bit_eq_mod)

lemma byte_of_char_of_byte [simp]: "byte_of_char (char_of_byte b) = b"
proof -
  have "unat b < 256" using unsigned_less [of b, where 'a = nat] by simp
  then show ?thesis by (simp add: char_of_byte_def byte_of_char_def)
qed

lemma map_char_of_as_bytes [simp]: "map char_of_byte (as_bytes s) = s"
  by (simp add: as_bytes_def comp_def)

lemma length_as_bytes [simp]: "length (as_bytes s) = length s"
  by (simp add: as_bytes_def)

text \<open>Well-formed UTF-8 byte sequences (the table of the Unicode standard that
  \<open>core::str::from_utf8\<close> implements): lead byte ranges with their second-byte ranges.\<close>

definition utf8_cont :: "u8 \<Rightarrow> bool" where
  "utf8_cont b \<longleftrightarrow> 0x80 \<le> b \<and> b \<le> 0xBF"

definition utf8_second3 :: "u8 \<Rightarrow> u8 \<Rightarrow> bool" where
  "utf8_second3 a b \<longleftrightarrow>
     (if a = 0xE0 then 0xA0 \<le> b \<and> b \<le> 0xBF
      else if a = 0xED then 0x80 \<le> b \<and> b \<le> 0x9F
      else utf8_cont b)"

definition utf8_second4 :: "u8 \<Rightarrow> u8 \<Rightarrow> bool" where
  "utf8_second4 a b \<longleftrightarrow>
     (if a = 0xF0 then 0x90 \<le> b \<and> b \<le> 0xBF
      else if a = 0xF4 then 0x80 \<le> b \<and> b \<le> 0x8F
      else utf8_cont b)"

text \<open>The number of bytes that the lead byte announces (0: not a lead byte), and whether the
  character at the front is well formed.\<close>

definition utf8_width :: "u8 \<Rightarrow> nat" where
  "utf8_width a =
     (if a < 0x80 then 1
      else if 0xC2 \<le> a \<and> a \<le> 0xDF then 2
      else if 0xE0 \<le> a \<and> a \<le> 0xEF then 3
      else if 0xF0 \<le> a \<and> a \<le> 0xF4 then 4
      else 0)"

fun utf8_char :: "u8 list \<Rightarrow> bool" where
  "utf8_char [a] = (utf8_width a = 1)"
| "utf8_char [a, b] = (utf8_width a = 2 \<and> utf8_cont b)"
| "utf8_char [a, b, c] = (utf8_width a = 3 \<and> utf8_second3 a b \<and> utf8_cont c)"
| "utf8_char [a, b, c, d] =
     (utf8_width a = 4 \<and> utf8_second4 a b \<and> utf8_cont c \<and> utf8_cont d)"
| "utf8_char _ = False"

definition utf8_head :: "u8 list \<Rightarrow> nat option" where
  "utf8_head bs =
     (case bs of [] \<Rightarrow> None
      | a # r \<Rightarrow>
         let n = utf8_width a
         in if 0 < n \<and> n \<le> length bs \<and> utf8_char (take n bs) then Some n else None)"

lemma utf8_head_bounds: "utf8_head bs = Some n \<Longrightarrow> 0 < n \<and> n \<le> length bs"
  by (cases bs) (auto simp: utf8_head_def Let_def split: if_splits)

lemma utf8_head_append: "utf8_head xs = Some n \<Longrightarrow> utf8_head (xs @ ys) = Some n"
  by (cases xs) (auto simp: utf8_head_def Let_def take_Cons' split: if_splits)

function utf8_valid :: "u8 list \<Rightarrow> bool" where
  "utf8_valid bs =
     (if bs = [] then True
      else case utf8_head bs of None \<Rightarrow> False | Some n \<Rightarrow> utf8_valid (drop n bs))"
  by pat_completeness auto
termination
  by (relation "measure length") (auto dest: utf8_head_bounds)

declare utf8_valid.simps [simp del]

lemma utf8_valid_Nil [simp]: "utf8_valid []"
  by (simp add: utf8_valid.simps)

lemma utf8_valid_NUL [simp]: "utf8_valid [0]"
  by (simp add: utf8_valid.simps utf8_head_def utf8_width_def)

definition from_utf8 :: "u8 list \<Rightarrow> string option" where
  "from_utf8 bs = (if utf8_valid bs then Some (map char_of_byte bs) else None)"

lemma utf8_valid_append: "utf8_valid xs \<Longrightarrow> utf8_valid (xs @ ys) = utf8_valid ys"
proof (induction xs rule: utf8_valid.induct)
  case (1 bs)
  show ?case
  proof (cases "bs = []")
    case False
    with "1.prems" obtain n where n: "utf8_head bs = Some n" and v: "utf8_valid (drop n bs)"
      by (auto simp: utf8_valid.simps [of bs] split: option.splits)
    from "1.IH" [OF False n v] have "utf8_valid (drop n bs @ ys) = utf8_valid ys" .
    with False utf8_head_append [OF n] utf8_head_bounds [OF n] show ?thesis
      by (simp add: utf8_valid.simps [of "bs @ ys"])
  qed simp
qed

text \<open>The strings that exist in Rust: those whose bytes are well-formed UTF-8.\<close>

definition valid_str :: "string \<Rightarrow> bool" where
  "valid_str s \<longleftrightarrow> utf8_valid (as_bytes s)"

lemma from_utf8_as_bytes: "valid_str s \<Longrightarrow> from_utf8 (as_bytes s) = Some s"
  by (simp add: from_utf8_def valid_str_def)

section \<open>String operations\<close>

text \<open>\<open>s.trim_end_matches('\0')\<close>.\<close>

definition trim_end_nul :: "string \<Rightarrow> string" where
  "trim_end_nul s = rev (dropWhile (\<lambda>c. c = CHR 0x00) (rev s))"

lemma trim_end_nul_id: "s = [] \<or> last s \<noteq> CHR 0x00 \<Longrightarrow> trim_end_nul s = s"
  by (cases s rule: rev_cases) (auto simp: trim_end_nul_def)

lemma trim_end_nul_snoc [simp]: "trim_end_nul (s @ [CHR 0x00]) = trim_end_nul s"
  by (simp add: trim_end_nul_def)

text \<open>\<open>str::trim\<close>: the UTF-8 encodings of the characters with the Unicode property
  \<open>White_Space\<close>, stripped from both ends.\<close>

definition white_space :: "string list" where
  "white_space =
     [[CHR 0x09], [CHR 0x0A], [CHR 0x0B], [CHR 0x0C], [CHR 0x0D], [CHR 0x20],
      [CHR 0xC2, CHR 0x85], [CHR 0xC2, CHR 0xA0], [CHR 0xE1, CHR 0x9A, CHR 0x80]]
     @ map (\<lambda>c. [CHR 0xE2, CHR 0x80, c])
        [CHR 0x80, CHR 0x81, CHR 0x82, CHR 0x83, CHR 0x84, CHR 0x85, CHR 0x86, CHR 0x87,
         CHR 0x88, CHR 0x89, CHR 0x8A, CHR 0xA8, CHR 0xA9, CHR 0xAF]
     @ [[CHR 0xE2, CHR 0x81, CHR 0x9F], [CHR 0xE3, CHR 0x80, CHR 0x80]]"

fun starts_with :: "string \<Rightarrow> string \<Rightarrow> bool" where
  "starts_with s [] = True"
| "starts_with [] (p # ps) = False"
| "starts_with (c # s) (p # ps) = (c = p \<and> starts_with s ps)"

lemma starts_with_length: "starts_with s p \<Longrightarrow> length p \<le> length s"
  by (induction s p rule: starts_with.induct) auto

text \<open>One step of trimming at the front: the length of the white space character found there.\<close>

definition strip_len :: "string list \<Rightarrow> string \<Rightarrow> nat" where
  "strip_len ws s = (case find_first (starts_with s) ws of None \<Rightarrow> 0 | Some w \<Rightarrow> length w)"

function trim_front :: "string list \<Rightarrow> string \<Rightarrow> string" where
  "trim_front ws s =
     (let n = strip_len ws s in if n = 0 \<or> s = [] then s else trim_front ws (drop n s))"
  by pat_completeness auto
termination
  by (relation "measure (\<lambda>(ws, s). length s)") auto

declare trim_front.simps [simp del]

definition trim :: "string \<Rightarrow> string" where
  "trim s = rev (trim_front (map rev white_space) (rev (trim_front white_space s)))"

text \<open>\<open>str::to_lowercase\<close> on ASCII letters; other bytes are kept.  The sources compare the result
  with ASCII words that contain no letter to which a non-ASCII character lowers (only \<open>k\<close> and, with
  a combining mark, \<open>i\<close> have such characters), so for those comparisons this is exact.\<close>

definition to_lower_char :: "char \<Rightarrow> char" where
  "to_lower_char c =
     (let n = of_char c :: nat in if 65 \<le> n \<and> n \<le> 90 then char_of (n + 32) else c)"

definition to_lowercase :: "string \<Rightarrow> string" where
  "to_lowercase s = map to_lower_char s"

fun str_contains :: "string \<Rightarrow> string \<Rightarrow> bool" where
  "str_contains [] p = (p = [])"
| "str_contains (c # s) p = (starts_with (c # s) p \<or> str_contains s p)"

definition is_ascii_digit :: "char \<Rightarrow> bool" where
  "is_ascii_digit c \<longleftrightarrow> (48 :: nat) \<le> of_char c \<and> of_char c \<le> (57 :: nat)"

definition digit_val :: "char \<Rightarrow> nat" where
  "digit_val c = of_char c - 48"

text \<open>\<open>str::parse::<u32>\<close>: an optional \<open>+\<close>, at least one digit, no overflow.\<close>

definition digits_val :: "string \<Rightarrow> nat" where
  "digits_val s = foldl (\<lambda>n c. 10 * n + digit_val c) 0 s"

definition parse_u32 :: "string \<Rightarrow> u32 option" where
  "parse_u32 s =
     (let t = (case s of [] \<Rightarrow> [] | c # r \<Rightarrow> if c = CHR ''+'' then r else s)
      in if t = [] \<or> \<not> list_all is_ascii_digit t then None
         else if digits_val t < 2 ^ 32 then Some (word_of_nat (digits_val t)) else None)"

text \<open>\<open>Display\<close> of an unsigned integer, and the \<open>{:02X}\<close>, \<open>{:04X}\<close> formats.\<close>

fun dec_str :: "nat \<Rightarrow> string" where
  "dec_str n = (if n < 10 then [char_of (48 + n)] else dec_str (n div 10) @ [char_of (48 + n mod 10)])"

declare dec_str.simps [simp del]

definition hex_digit :: "nat \<Rightarrow> char" where
  "hex_digit n = (if n < 10 then char_of (48 + n) else char_of (55 + n))"

definition hex2 :: "u8 \<Rightarrow> string" where
  "hex2 b = [hex_digit (unat b div 16), hex_digit (unat b mod 16)]"

definition hex4 :: "u16 \<Rightarrow> string" where
  "hex4 w = hex2 (word_hi w) @ hex2 (word_lo w)"

definition quoted :: "string \<Rightarrow> string" where
  "quoted s = [CHR 0x27] @ s @ [CHR 0x27]"

lemma digit_val_char [simp]: "(n :: nat) < 10 \<Longrightarrow> digit_val (char_of (48 + n)) = n"
  unfolding digit_val_def by (subst of_char_of) simp

lemma is_ascii_digit_char [simp]: "(n :: nat) < 10 \<Longrightarrow> is_ascii_digit (char_of (48 + n))"
  unfolding is_ascii_digit_def by (simp only: of_char_of) simp

lemma digits_val_snoc: "digits_val (s @ [c]) = 10 * digits_val s + digit_val c"
  by (simp add: digits_val_def)

lemma dec_str_digits: "list_all is_ascii_digit (dec_str n) \<and> dec_str n \<noteq> []"
proof (induction n rule: dec_str.induct)
  case (1 n)
  then show ?case by (cases "n < 10") (simp_all add: dec_str.simps [of n])
qed

lemma digits_val_dec_str: "digits_val (dec_str n) = n"
proof (induction n rule: dec_str.induct)
  case (1 n)
  then show ?case
    by (cases "n < 10") (simp_all add: dec_str.simps [of n] digits_val_snoc digits_val_def)
qed

lemma parse_u32_dec_str:
  assumes "n < 2 ^ 32"
  shows "parse_u32 (dec_str n) = Some (word_of_nat n)"
proof -
  obtain c r where s: "dec_str n = c # r" and c: "is_ascii_digit c"
    using dec_str_digits [of n] by (cases "dec_str n") auto
  have "c \<noteq> CHR ''+''" using c by (auto simp: is_ascii_digit_def)
  then show ?thesis
    using assms dec_str_digits [of n] digits_val_dec_str [of n] s
    by (simp add: parse_u32_def Let_def)
qed

section \<open>Binary search of a sorted slice\<close>

text \<open>\<open>slice::binary_search_by\<close>: \<open>Inr pos\<close> is \<open>Ok(pos)\<close>, \<open>Inl pos\<close> is \<open>Err(pos)\<close>.\<close>

function bs_loop :: "'a::linorder list \<Rightarrow> 'a \<Rightarrow> nat \<Rightarrow> nat \<Rightarrow> nat" where
  "bs_loop xs k base sz =
     (if sz \<le> 1 then base
      else let half = sz div 2; mid = base + half
           in bs_loop xs k (if xs ! mid > k then base else mid) (sz - half))"
  by pat_completeness auto
termination
  by (relation "measure (\<lambda>(xs, k, base, sz). sz)") auto

declare bs_loop.simps [simp del]

definition binary_search :: "'a::linorder list \<Rightarrow> 'a \<Rightarrow> nat + nat" where
  "binary_search xs k =
     (if xs = [] then Inl 0
      else let base = bs_loop xs k 0 (length xs)
           in if xs ! base = k then Inr base
              else Inl (if xs ! base < k then base + 1 else base))"

text \<open>\<open>Vec::insert\<close>.\<close>

definition vec_insert :: "'a list \<Rightarrow> nat \<Rightarrow> 'a \<Rightarrow> 'a list" where
  "vec_insert xs i x = take i xs @ x # drop i xs"

lemma set_vec_insert [simp]: "set (vec_insert xs i x) = insert x (set xs)"
proof -
  have "set xs = set (take i xs) \<union> set (drop i xs)"
    by (metis append_take_drop_id set_append)
  then show ?thesis by (auto simp: vec_insert_def)
qed

text \<open>The loop keeps the window \<open>[base, base + sz)\<close>: everything before it is at most the key,
  everything after it above the key.\<close>

lemma bs_loop_window:
  assumes "sorted xs" and "0 < sz" and "base + sz \<le> length xs"
    and "\<forall>i < base. xs ! i \<le> k"
    and "\<forall>i. base + sz \<le> i \<and> i < length xs \<longrightarrow> k < xs ! i"
  shows "bs_loop xs k base sz < length xs
    \<and> (\<forall>i < bs_loop xs k base sz. xs ! i \<le> k)
    \<and> (\<forall>i. bs_loop xs k base sz < i \<and> i < length xs \<longrightarrow> k < xs ! i)"
  using assms
proof (induction xs k base sz rule: bs_loop.induct)
  case (1 xs k base sz)
  let ?half = "sz div 2"
  let ?mid = "base + ?half"
  show ?case
  proof (cases "sz \<le> 1")
    case True
    with "1.prems" show ?thesis by (auto simp: bs_loop.simps [of xs k base sz])
  next
    case big: False
    then have half: "0 < ?half" "?half < sz" by auto
    have mid: "?mid < length xs" using "1.prems"(3) half by linarith
    have size: "0 < sz - ?half" using half by linarith
    note IH = "1.IH" [OF big refl refl]
    show ?thesis
    proof (cases "xs ! ?mid > k")
      case True
      have hi: "\<forall>i. base + (sz - ?half) \<le> i \<and> i < length xs \<longrightarrow> k < xs ! i"
      proof (intro allI impI)
        fix i assume i: "base + (sz - ?half) \<le> i \<and> i < length xs"
        then have "?mid \<le> i" using half by linarith
        then have "xs ! ?mid \<le> xs ! i" using "1.prems"(1) i by (intro sorted_nth_mono) auto
        with True show "k < xs ! i" by simp
      qed
      have len: "base + (sz - ?half) \<le> length xs" using "1.prems"(3) half by linarith
      have step: "bs_loop xs k base sz = bs_loop xs k base (sz - ?half)"
        using big True by (simp add: bs_loop.simps [of xs k base sz] Let_def)
      show ?thesis
        unfolding step using IH [unfolded if_P [OF True]] "1.prems"(1,4) size len hi by blast
    next
      case False
      have lo: "\<forall>i < ?mid. xs ! i \<le> k"
      proof (intro allI impI)
        fix i assume "i < ?mid"
        then have "xs ! i \<le> xs ! ?mid" using "1.prems"(1) mid by (intro sorted_nth_mono) auto
        with False show "xs ! i \<le> k" by simp
      qed
      have end_eq: "?mid + (sz - ?half) = base + sz" using half by linarith
      have step: "bs_loop xs k base sz = bs_loop xs k ?mid (sz - ?half)"
        using big False by (simp add: bs_loop.simps [of xs k base sz] Let_def)
      show ?thesis
        unfolding step
        using IH [unfolded if_not_P [OF False] end_eq] "1.prems"(1,3,5) size lo by blast
    qed
  qed
qed

lemma binary_search_insert:
  assumes "sorted xs" and "k \<notin> set xs"
  obtains pos where "binary_search xs k = Inl pos" and "pos \<le> length xs"
    and "\<forall>i < pos. xs ! i < k" and "\<forall>i. pos \<le> i \<and> i < length xs \<longrightarrow> k < xs ! i"
proof (cases "xs = []")
  case True
  then show ?thesis using that [of 0] by (simp add: binary_search_def)
next
  case False
  define b where "b = bs_loop xs k 0 (length xs)"
  have b: "b < length xs" "\<forall>i < b. xs ! i \<le> k" "\<forall>i. b < i \<and> i < length xs \<longrightarrow> k < xs ! i"
    using bs_loop_window [OF assms(1), of "length xs" 0 k, folded b_def] False by force+
  have neq: "\<And>i. i < length xs \<Longrightarrow> xs ! i \<noteq> k" using assms(2) by (auto simp: in_set_conv_nth)
  show ?thesis
  proof (cases "xs ! b < k")
    case True
    then show ?thesis using that [of "b + 1"] b neq False
      by (simp add: binary_search_def Let_def b_def [symmetric] less_Suc_eq)
        (metis Suc_le_eq less_le less_trans)
  next
    case False
    then have "k < xs ! b" using neq [OF b(1)] by simp
    then show ?thesis using that [of b] b neq \<open>xs \<noteq> []\<close>
      by (simp add: binary_search_def Let_def b_def [symmetric])
        (metis le_neq_implies_less less_le less_trans not_less_iff_gr_or_eq)
  qed
qed

lemma sorted_vec_insert:
  assumes "sorted xs" and "pos \<le> length xs" and "\<forall>i < pos. xs ! i < k"
    and "\<forall>i. pos \<le> i \<and> i < length xs \<longrightarrow> k < xs ! i"
  shows "sorted (vec_insert xs pos k)"
proof -
  have "\<forall>x \<in> set (take pos xs). x \<le> k"
    using assms(3) by (auto simp: in_set_conv_nth less_imp_le)
  moreover have "\<forall>x \<in> set (drop pos xs). k \<le> x"
    using assms(2,4) by (auto simp: in_set_conv_nth intro!: less_imp_le)
  moreover have "\<forall>x \<in> set (take pos xs). \<forall>y \<in> set (drop pos xs). x \<le> y"
    using calculation by force
  ultimately show ?thesis
    using assms(1) by (simp add: vec_insert_def sorted_append sorted_wrt_take sorted_wrt_drop)
qed

section \<open>Bounded channels of \<open>std::sync::mpsc\<close>\<close>

text \<open>\<open>sync_channel(cap)\<close>: a FIFO buffer; \<open>chan_open\<close> is false once the receiver is dropped.\<close>

record 'a sync_chan =
  chan_buf :: "'a list"
  chan_cap :: nat
  chan_open :: bool

definition sync_channel :: "nat \<Rightarrow> 'a sync_chan" where
  "sync_channel n = \<lparr>chan_buf = [], chan_cap = n, chan_open = True\<rparr>"

datatype try_send_error = Full | Disconnected

definition try_send :: "'a sync_chan \<Rightarrow> 'a \<Rightarrow> (try_send_error + unit) \<times> 'a sync_chan" where
  "try_send c x =
     (if \<not> chan_open c then (Inl Disconnected, c)
      else if length (chan_buf c) < chan_cap c then (Inr (), c\<lparr>chan_buf := chan_buf c @ [x]\<rparr>)
      else (Inl Full, c))"

definition chan_wf :: "'a sync_chan \<Rightarrow> bool" where
  "chan_wf c \<longleftrightarrow> length (chan_buf c) \<le> chan_cap c"

lemma try_send_wf: "chan_wf c \<Longrightarrow> chan_wf (snd (try_send c x))"
  by (auto simp: chan_wf_def try_send_def)

end
