(* ===== verification/Crates.thy ===== *)
theory Crates
  imports Rust_Std
begin

text \<open>
  The third-party crates whose functions the bridge calls as pure functions: \<open>byteorder\<close> and
  \<open>bytes\<close> (big-endian cursors) and \<open>chrono\<close> (instants).  Their code is not part of the repository,
  so they are a parameter: a record \<open>crates\<close> of functions, an argument of every definition that
  calls them.  What the bridge relies on is stated by \<open>byteorder_laws\<close> and \<open>chrono_laws\<close>, the
  documented behaviour of those functions; theorems that need it have it as a hypothesis.
  \<open>example_crates\<close> is one implementation, with which witnesses evaluate.

  A \<open>DateTime<Utc>\<close> is an instant, counted in nanoseconds since the UNIX epoch.
\<close>

type_synonym datetime = int

record crates =
  read_u16 :: "u8 list \<Rightarrow> (u16 \<times> u8 list) option"
  read_i16 :: "u8 list \<Rightarrow> (i16 \<times> u8 list) option"
  read_u32 :: "u8 list \<Rightarrow> (u32 \<times> u8 list) option"
  read_i32 :: "u8 list \<Rightarrow> (i32 \<times> u8 list) option"
  read_u64 :: "u8 list \<Rightarrow> (u64 \<times> u8 list) option"
  read_i64 :: "u8 list \<Rightarrow> (i64 \<times> u8 list) option"
  write_u16 :: "u16 \<Rightarrow> u8 list"
  put_u32 :: "u32 \<Rightarrow> u8 list"
  representable :: "datetime \<Rightarrow> bool"
  from_timestamp_millis :: "int \<Rightarrow> datetime option"
  timestamp_millis :: "datetime \<Rightarrow> int"
  datetime_from_system_time :: "int \<Rightarrow> datetime option"
  parse_from_rfc3339 :: "string \<Rightarrow> datetime option"
  timestamp_nanos_opt :: "datetime \<Rightarrow> int option"
  from_timestamp_nanos :: "int \<Rightarrow> datetime"

text \<open>\<open>serde_json::Value\<close>, as far as the bridge builds and reads it.\<close>

datatype json = JNull | JString string | JObject "(string \<times> json) list"

text \<open>A cursor is the list of the bytes not yet read.  A read that finds too few bytes is an
  error.\<close>

definition byteorder_laws :: "crates \<Rightarrow> bool" where
  "byteorder_laws cr \<longleftrightarrow>
     (\<forall>a b r. read_u16 cr (a # b # r) = Some (be16 a b, r)) \<and>
     (\<forall>bs. length bs < 2 \<longrightarrow> read_u16 cr bs = None) \<and>
     (\<forall>a b r. read_i16 cr (a # b # r) = Some (be16 a b, r)) \<and>
     (\<forall>a b c d r. read_u32 cr (a # b # c # d # r) = Some (be32 (be16 a b) (be16 c d), r)) \<and>
     (\<forall>a b c d r. read_i32 cr (a # b # c # d # r) = Some (be32 (be16 a b) (be16 c d), r)) \<and>
     (\<forall>a b c d e f g h r. read_u64 cr (a # b # c # d # e # f # g # h # r) =
        Some (be64 (be16 a b) (be16 c d) (be16 e f) (be16 g h), r)) \<and>
     (\<forall>a b c d e f g h r. read_i64 cr (a # b # c # d # e # f # g # h # r) =
        Some (be64 (be16 a b) (be16 c d) (be16 e f) (be16 g h), r)) \<and>
     (\<forall>w. write_u16 cr w = [word_hi w, word_lo w]) \<and>
     (\<forall>w. put_u32 cr w =
        [ucast (drop_bit 24 w), ucast (drop_bit 16 w), ucast (drop_bit 8 w), ucast w])"

text \<open>\<open>timestamp_millis\<close> drops the part below a millisecond; the way back gives the instant at
  that millisecond.  The instants that \<open>chrono\<close> can represent are a range whose millisecond counts
  fit an \<open>i64\<close>.\<close>

definition chrono_laws :: "crates \<Rightarrow> bool" where
  "chrono_laws cr \<longleftrightarrow>
     (\<forall>dt. representable cr dt \<longrightarrow>
        timestamp_millis cr dt = dt div 1000000 \<and>
        - (2 ^ 63) \<le> timestamp_millis cr dt \<and> timestamp_millis cr dt < 2 ^ 63 \<and>
        from_timestamp_millis cr (timestamp_millis cr dt) = Some (dt div 1000000 * 1000000))"

text \<open>\<open>DateTime::<Utc>::from(UNIX_EPOCH + Duration::from_millis(ms))\<close> for an unsigned count \<open>ms\<close>: the
  instant that \<open>from_timestamp_millis\<close> gives, and a panic where \<open>chrono\<close> cannot represent it; its range
  ends before \<open>2^63\<close> milliseconds.\<close>

definition system_time_laws :: "crates \<Rightarrow> bool" where
  "system_time_laws cr \<longleftrightarrow>
     (\<forall>ms. 0 \<le> ms \<and> ms < 2 ^ 63 \<longrightarrow> datetime_from_system_time cr ms = from_timestamp_millis cr ms)
     \<and> (\<forall>ms. 2 ^ 63 \<le> ms \<longrightarrow> datetime_from_system_time cr ms = None)"

text \<open>The count of nanoseconds of an instant is given when it fits an \<open>i64\<close>, and every \<open>i64\<close> count is the
  count of an instant.\<close>

definition nanos_laws :: "crates \<Rightarrow> bool" where
  "nanos_laws cr \<longleftrightarrow>
     (\<forall>dt. timestamp_nanos_opt cr dt = (if - (2 ^ 63) \<le> dt \<and> dt < 2 ^ 63 then Some dt else None))
     \<and> (\<forall>n. - (2 ^ 63) \<le> n \<and> n < 2 ^ 63 \<longrightarrow> from_timestamp_nanos cr n = n)"

lemma byteorder_laws_simps [byte_simps]:
  assumes "byteorder_laws cr"
  shows "read_u16 cr (a # b # r) = Some (be16 a b, r)"
    and "read_u16 cr [] = None" and "read_u16 cr [a] = None"
    and "read_i16 cr (a # b # r) = Some (be16 a b, r)"
    and "read_u32 cr (a # b # c # d # r) = Some (be32 (be16 a b) (be16 c d), r)"
    and "read_i32 cr (a # b # c # d # r) = Some (be32 (be16 a b) (be16 c d), r)"
    and "read_u64 cr (a # b # c # d # e # f # g # h # r) =
      Some (be64 (be16 a b) (be16 c d) (be16 e f) (be16 g h), r)"
    and "read_i64 cr (a # b # c # d # e # f # g # h # r) =
      Some (be64 (be16 a b) (be16 c d) (be16 e f) (be16 g h), r)"
    and "write_u16 cr w = [word_hi w, word_lo w]"
    and "put_u32 cr v =
      [ucast (drop_bit 24 v), ucast (drop_bit 16 v), ucast (drop_bit 8 v), ucast v]"
  using assms by (simp_all add: byteorder_laws_def)

text \<open>\<open>read_u16::<BigEndian>().unwrap_or(0)\<close>: the value and the cursor after it.  A failed read
  leaves the cursor at its end.\<close>

definition read_u16_or0 :: "crates \<Rightarrow> u8 list \<Rightarrow> u16 \<times> u8 list" where
  "read_u16_or0 cr bs = (case read_u16 cr bs of None \<Rightarrow> (0, []) | Some r \<Rightarrow> r)"

text \<open>\<open>while let Ok(w) = cur.read_u16::<BigEndian>() { words.push(w) }\<close>.\<close>

fun read_words_fuel :: "crates \<Rightarrow> nat \<Rightarrow> u8 list \<Rightarrow> u16 list" where
  "read_words_fuel cr 0 bs = []"
| "read_words_fuel cr (Suc n) bs =
     (case read_u16 cr bs of None \<Rightarrow> [] | Some (w, r) \<Rightarrow> w # read_words_fuel cr n r)"

text \<open>A successful read consumes two bytes, so the length of the buffer bounds the loop.\<close>

definition read_words :: "crates \<Rightarrow> u8 list \<Rightarrow> u16 list" where
  "read_words cr bs = read_words_fuel cr (length bs) bs"

fun words_of_bytes :: "u8 list \<Rightarrow> u16 list" where
  "words_of_bytes (a # b # r) = be16 a b # words_of_bytes r"
| "words_of_bytes _ = []"

lemma read_words_fuel_short:
  assumes "byteorder_laws cr"
  shows "read_words_fuel cr n [] = []" and "read_words_fuel cr n [b] = []"
  by (cases n; simp add: byteorder_laws_simps [OF assms])+

lemma read_words_fuel_enough:
  assumes "byteorder_laws cr" and "length bs \<le> n"
  shows "read_words_fuel cr n bs = words_of_bytes bs"
  using assms(2)
proof (induction bs arbitrary: n rule: words_of_bytes.induct)
  case (1 a b r)
  then obtain m where "n = Suc m" and "length r \<le> m" by (cases n) auto
  with "1.IH" show ?case by (simp add: byteorder_laws_simps [OF assms(1)])
qed (simp_all add: read_words_fuel_short [OF assms(1)])

lemma read_words_eq: "byteorder_laws cr \<Longrightarrow> read_words cr bs = words_of_bytes bs"
  by (simp add: read_words_def read_words_fuel_enough)

section \<open>One implementation, for evaluation\<close>

definition example_crates :: crates where
  "example_crates =
     (let r16 = (\<lambda>bs. case bs of a # b # r \<Rightarrow> Some (be16 a b, r) | _ \<Rightarrow> None);
          r32 = (\<lambda>bs. case bs of a # b # c # d # r \<Rightarrow> Some (be32 (be16 a b) (be16 c d), r)
                       | _ \<Rightarrow> None);
          r64 = (\<lambda>bs. case bs of a # b # c # d # e # f # g # h # r \<Rightarrow>
                         Some (be64 (be16 a b) (be16 c d) (be16 e f) (be16 g h), r)
                       | _ \<Rightarrow> None)
      in \<lparr>read_u16 = r16, read_i16 = r16, read_u32 = r32, read_i32 = r32, read_u64 = r64,
          read_i64 = r64,
          write_u16 = (\<lambda>w. [word_hi w, word_lo w]),
          put_u32 = (\<lambda>w.
            [ucast (drop_bit 24 w), ucast (drop_bit 16 w), ucast (drop_bit 8 w), ucast w]),
          representable = (\<lambda>dt. - 8334601228800000 * 1000000 \<le> dt \<and> dt \<le> 8210266876799999 * 1000000),
          from_timestamp_millis = (\<lambda>ms.
            if - 8334601228800000 \<le> ms \<and> ms \<le> 8210266876799999 then Some (ms * 1000000) else None),
          timestamp_millis = (\<lambda>dt. dt div 1000000),
          datetime_from_system_time = (\<lambda>ms.
            if - 8334601228800000 \<le> ms \<and> ms \<le> 8210266876799999 then Some (ms * 1000000) else None),
          parse_from_rfc3339 = (\<lambda>_. None),
          timestamp_nanos_opt = (\<lambda>dt. if - (2 ^ 63) \<le> dt \<and> dt < 2 ^ 63 then Some dt else None),
          from_timestamp_nanos = (\<lambda>n. n)\<rparr>)"

lemma example_byteorder_laws: "byteorder_laws example_crates"
  by (auto simp: byteorder_laws_def example_crates_def Let_def split: list.splits)

lemma example_system_time_laws: "system_time_laws example_crates"
  by (simp add: system_time_laws_def example_crates_def Let_def)

lemma example_nanos_laws: "nanos_laws example_crates"
  by (simp add: nanos_laws_def example_crates_def Let_def)

lemma millis_range:
  fixes dt lo hi :: int
  assumes "lo * 1000000 \<le> dt" and "dt \<le> hi * 1000000"
  shows "lo \<le> dt div 1000000" and "dt div 1000000 \<le> hi"
  using assms zdiv_mono1 [of "lo * 1000000" dt 1000000] zdiv_mono1 [of dt "hi * 1000000" 1000000]
  by simp_all

lemma example_chrono_laws: "chrono_laws example_crates"
  unfolding chrono_laws_def
proof (intro allI impI)
  fix dt assume "representable example_crates dt"
  then have "- 8334601228800000 \<le> dt div 1000000" and "dt div 1000000 \<le> 8210266876799999"
    using millis_range [of "- 8334601228800000" dt 8210266876799999]
    by (simp_all add: example_crates_def Let_def)
  then show "timestamp_millis example_crates dt = dt div 1000000 \<and>
      - (2 ^ 63) \<le> timestamp_millis example_crates dt \<and>
      timestamp_millis example_crates dt < 2 ^ 63 \<and>
      from_timestamp_millis example_crates (timestamp_millis example_crates dt) =
        Some (dt div 1000000 * 1000000)"
    by (simp add: example_crates_def Let_def)
qed

end
