(* ===== verification/Tag_Value.thy ===== *)
theory Tag_Value
  imports Crates
begin

text \<open>
  \<open>src/core-model/src/tag_value.rs\<close> and \<open>src/driver/common/src/lib.rs\<close>: runtime values and their
  configuration types, the byte orders of multi-register values with the three in-place reordering
  loops, and the quality states.  The reordering loops are proved equal to structural reference
  functions, and each byte order to be an involution that permutes the buffer; this is what makes a
  value written through a byte order come back when it is read through the same one.
\<close>

section \<open>Values and types\<close>

datatype TagValue =
    VBool bool
  | VInt16 i16
  | VUInt16 u16
  | VInt32 i32
  | VUInt32 u32
  | VInt64 i64
  | VUInt64 u64
  | VFloat f32
  | VDouble f64
  | VString string
  | VDateTime datetime
  | VByteString "u8 list"

datatype TagDataType =
    TBool | TInt16 | TUInt16 | TInt32 | TUInt32 | TInt64 | TUInt64 | TFloat | TDouble
  | TString | TDateTime | TByteString

fun data_type :: "TagValue \<Rightarrow> TagDataType" where
  "data_type (VBool _) = TBool"
| "data_type (VInt16 _) = TInt16"
| "data_type (VUInt16 _) = TUInt16"
| "data_type (VInt32 _) = TInt32"
| "data_type (VUInt32 _) = TUInt32"
| "data_type (VInt64 _) = TInt64"
| "data_type (VUInt64 _) = TUInt64"
| "data_type (VFloat _) = TFloat"
| "data_type (VDouble _) = TDouble"
| "data_type (VString _) = TString"
| "data_type (VDateTime _) = TDateTime"
| "data_type (VByteString _) = TByteString"

definition matches :: "TagValue \<Rightarrow> TagDataType \<Rightarrow> bool" where
  "matches v expected \<longleftrightarrow> data_type v = expected"

datatype TagQuality =
    Good | Initializing | Stale | CommLost | ConfigError | TypeMismatch | Substitute
  | QError string

text \<open>\<open>#[derive(Default)]\<close> with \<open>#[default]\<close> on \<open>Initializing\<close>.\<close>

definition TagQuality_default :: TagQuality where
  "TagQuality_default = Initializing"

section \<open>Byte orders\<close>

datatype WordOrder = ABCD | BADC | CDAB | DCBA

definition WordOrder_default :: WordOrder where
  "WordOrder_default = ABCD"

text \<open>The \<open>while\<close> loops, with the counter \<open>i\<close> as an argument.\<close>

function swap_bytes_loop :: "nat \<Rightarrow> u8 list \<Rightarrow> u8 list" where
  "swap_bytes_loop i bytes =
     (if i + 1 < length bytes then swap_bytes_loop (i + 2) (slice_swap bytes i (i + 1))
      else bytes)"
  by pat_completeness auto
termination
  by (relation "measure (\<lambda>(i, bytes). length bytes - i)") auto

definition swap_bytes_in_words :: "u8 list \<Rightarrow> u8 list" where
  "swap_bytes_in_words bytes = swap_bytes_loop 0 bytes"

function swap_word_pairs_loop :: "nat \<Rightarrow> u8 list \<Rightarrow> u8 list" where
  "swap_word_pairs_loop i bytes =
     (if i + 3 < length bytes
      then swap_word_pairs_loop (i + 4) (slice_swap (slice_swap bytes i (i + 2)) (i + 1) (i + 3))
      else bytes)"
  by pat_completeness auto
termination
  by (relation "measure (\<lambda>(i, bytes). length bytes - i)") auto

definition swap_word_pairs_in_4byte_chunks :: "u8 list \<Rightarrow> u8 list" where
  "swap_word_pairs_in_4byte_chunks bytes = swap_word_pairs_loop 0 bytes"

function reverse_bytes_loop :: "nat \<Rightarrow> u8 list \<Rightarrow> u8 list" where
  "reverse_bytes_loop i bytes =
     (if i + 3 < length bytes
      then reverse_bytes_loop (i + 4) (slice_swap (slice_swap bytes i (i + 3)) (i + 1) (i + 2))
      else bytes)"
  by pat_completeness auto
termination
  by (relation "measure (\<lambda>(i, bytes). length bytes - i)") auto

definition reverse_bytes_in_4byte_chunks :: "u8 list \<Rightarrow> u8 list" where
  "reverse_bytes_in_4byte_chunks bytes =
     (let len = length bytes;
          bytes' = reverse_bytes_loop 0 bytes
      in if len mod 4 \<ge> 2 then
           let rem_start = len - len mod 4
           in if rem_start + 1 < len then slice_swap bytes' rem_start (rem_start + 1) else bytes'
         else bytes')"

declare swap_bytes_loop.simps [simp del] swap_word_pairs_loop.simps [simp del]
  reverse_bytes_loop.simps [simp del]

definition apply_to_bytes :: "WordOrder \<Rightarrow> u8 list \<Rightarrow> u8 list" where
  "apply_to_bytes ord bytes =
     (case ord of
        ABCD \<Rightarrow> bytes
      | BADC \<Rightarrow> swap_bytes_in_words bytes
      | CDAB \<Rightarrow> swap_word_pairs_in_4byte_chunks bytes
      | DCBA \<Rightarrow> reverse_bytes_in_4byte_chunks bytes)"

definition apply_byte_order :: "u8 list \<Rightarrow> WordOrder \<Rightarrow> u8 list" where
  "apply_byte_order bytes order = apply_to_bytes order bytes"

section \<open>Reference reorderings\<close>

text \<open>What the documentation of \<open>WordOrder\<close> says, chunk by chunk.\<close>

fun ref_badc :: "'a list \<Rightarrow> 'a list" where
  "ref_badc (a # b # r) = b # a # ref_badc r"
| "ref_badc r = r"

fun ref_cdab :: "'a list \<Rightarrow> 'a list" where
  "ref_cdab (a # b # c # d # r) = c # d # a # b # ref_cdab r"
| "ref_cdab r = r"

fun ref_dcba :: "'a list \<Rightarrow> 'a list" where
  "ref_dcba (a # b # c # d # r) = d # c # b # a # ref_dcba r"
| "ref_dcba (a # b # r) = b # a # r"
| "ref_dcba r = r"

definition ref_order :: "WordOrder \<Rightarrow> 'a list \<Rightarrow> 'a list" where
  "ref_order ord xs =
     (case ord of ABCD \<Rightarrow> xs | BADC \<Rightarrow> ref_badc xs | CDAB \<Rightarrow> ref_cdab xs | DCBA \<Rightarrow> ref_dcba xs)"

text \<open>One round of each loop, at a counter that stands after the prefix \<open>ys\<close>.\<close>

lemma slice_swap_here:
  "slice_swap (ys @ a # b # r) (length ys) (Suc (length ys)) = ys @ b # a # r"
  using slice_swap_append [of 0 "a # b # r" 1 ys] by (simp add: slice_swap_def)

lemma swap_bytes_loop_eq: "swap_bytes_loop (length ys) (ys @ zs) = ys @ ref_badc zs"
proof (induction zs arbitrary: ys rule: ref_badc.induct)
  case (1 a b r)
  have "swap_bytes_loop (length ys) (ys @ a # b # r) = swap_bytes_loop (length (ys @ [b, a])) ((ys @ [b, a]) @ r)"
    by (simp add: swap_bytes_loop.simps [of "length ys"] slice_swap_here)
  also have "\<dots> = ys @ ref_badc (a # b # r)"
    unfolding "1.IH" by simp
  finally show ?case .
qed (simp_all add: swap_bytes_loop.simps)

lemma slice_swap_pairs:
  "slice_swap (slice_swap (ys @ a # b # c # d # r) (length ys) (length ys + 2))
     (length ys + 1) (length ys + 3) = ys @ c # d # a # b # r"
  using slice_swap_append [of 0 "a # b # c # d # r" 2 ys]
    slice_swap_append [of 1 "c # b # a # d # r" 3 ys]
  by (simp add: slice_swap_def numeral_2_eq_2 numeral_3_eq_3)

lemma swap_word_pairs_loop_eq: "swap_word_pairs_loop (length ys) (ys @ zs) = ys @ ref_cdab zs"
proof (induction zs arbitrary: ys rule: ref_cdab.induct)
  case (1 a b c d r)
  have "swap_word_pairs_loop (length ys) (ys @ a # b # c # d # r)
      = swap_word_pairs_loop (length (ys @ [c, d, a, b])) ((ys @ [c, d, a, b]) @ r)"
    using slice_swap_pairs [of ys a b c d r]
    by (simp add: swap_word_pairs_loop.simps [of "length ys"] eval_nat_numeral)
  also have "\<dots> = ys @ ref_cdab (a # b # c # d # r)"
    unfolding "1.IH" by simp
  finally show ?case .
qed (simp_all add: swap_word_pairs_loop.simps)

lemma slice_swap_reverse:
  "slice_swap (slice_swap (ys @ a # b # c # d # r) (length ys) (length ys + 3))
     (length ys + 1) (length ys + 2) = ys @ d # c # b # a # r"
  using slice_swap_append [of 0 "a # b # c # d # r" 3 ys]
    slice_swap_append [of 1 "d # b # c # a # r" 2 ys]
  by (simp add: slice_swap_def numeral_2_eq_2 numeral_3_eq_3)

text \<open>The loop alone reverses the full chunks; the code after it swaps a two- or three-byte rest.\<close>

definition reverse_tail :: "u8 list \<Rightarrow> u8 list" where
  "reverse_tail bytes =
     (if length bytes mod 4 \<ge> 2
      then slice_swap bytes (length bytes - length bytes mod 4) (length bytes - length bytes mod 4 + 1)
      else bytes)"

lemma reverse_tail_append:
  assumes "length ys mod 4 = 0"
  shows "reverse_tail (ys @ zs) = ys @ reverse_tail zs"
proof -
  define m where "m = length zs mod 4"
  have le: "m \<le> length zs" by (simp add: m_def)
  have eq: "(length ys + length zs) mod 4 = m"
    using assms by (simp add: m_def mod_add_eq [symmetric])
  show ?thesis
  proof (cases "2 \<le> m")
    case True
    have "slice_swap (ys @ zs) (length ys + (length zs - m)) (length ys + (length zs - m + 1))
        = ys @ slice_swap zs (length zs - m) (length zs - m + 1)"
      by (rule slice_swap_append) (use True le in linarith)+
    moreover have "length ys + length zs - m = length ys + (length zs - m)" using le by linarith
    ultimately show ?thesis
      using True by (simp add: reverse_tail_def eq m_def [symmetric])
  qed (simp add: reverse_tail_def eq m_def [symmetric])
qed

lemma reverse_bytes_eq:
  assumes "length ys mod 4 = 0"
  shows "reverse_tail (reverse_bytes_loop (length ys) (ys @ zs)) = ys @ ref_dcba zs"
  using assms
proof (induction zs arbitrary: ys rule: ref_dcba.induct)
  case (1 a b c d r)
  have "reverse_bytes_loop (length ys) (ys @ a # b # c # d # r)
      = reverse_bytes_loop (length (ys @ [d, c, b, a])) ((ys @ [d, c, b, a]) @ r)"
    using slice_swap_reverse [of ys a b c d r]
    by (simp add: reverse_bytes_loop.simps [of "length ys"] eval_nat_numeral)
  moreover have "length (ys @ [d, c, b, a]) mod 4 = 0" using "1.prems" by simp
  ultimately show ?case using "1.IH" [of "ys @ [d, c, b, a]"] by simp
qed (simp_all add: reverse_bytes_loop.simps reverse_tail_append, simp_all add: reverse_tail_def slice_swap_def)

lemma length_reverse_bytes_loop [simp]: "length (reverse_bytes_loop i bs) = length bs"
proof (induction i bs rule: reverse_bytes_loop.induct)
  case (1 i bs)
  then show ?case by (simp add: reverse_bytes_loop.simps [of i bs])
qed

theorem apply_to_bytes_eq_ref: "apply_to_bytes ord bytes = ref_order ord bytes"
proof (cases ord)
  case DCBA
  have "length bytes - length bytes mod 4 + 1 < length bytes" if "2 \<le> length bytes mod 4"
    using that mod_less_eq_dividend [of "length bytes" 4] by linarith
  then have "reverse_bytes_in_4byte_chunks bytes = reverse_tail (reverse_bytes_loop 0 bytes)"
    by (auto simp: reverse_bytes_in_4byte_chunks_def reverse_tail_def Let_def)
  then show ?thesis
    using reverse_bytes_eq [of "[]" bytes] DCBA by (simp add: apply_to_bytes_def ref_order_def)
qed (use swap_bytes_loop_eq [of "[]" bytes] swap_word_pairs_loop_eq [of "[]" bytes] in
    \<open>simp_all add: apply_to_bytes_def ref_order_def swap_bytes_in_words_def
      swap_word_pairs_in_4byte_chunks_def\<close>)

section \<open>Laws of the byte orders\<close>

lemma length_ref_order [simp]: "length (ref_order ord xs) = length xs"
proof -
  have "length (ref_badc xs) = length xs" by (induction xs rule: ref_badc.induct) auto
  moreover have "length (ref_cdab xs) = length xs" by (induction xs rule: ref_cdab.induct) auto
  moreover have "length (ref_dcba xs) = length xs" by (induction xs rule: ref_dcba.induct) auto
  ultimately show ?thesis by (simp add: ref_order_def split: WordOrder.split)
qed

lemma ref_order_involution: "ref_order ord (ref_order ord xs) = xs"
proof -
  have "ref_badc (ref_badc xs) = xs" by (induction xs rule: ref_badc.induct) auto
  moreover have "ref_cdab (ref_cdab xs) = xs" by (induction xs rule: ref_cdab.induct) auto
  moreover have "ref_dcba (ref_dcba xs) = xs" by (induction xs rule: ref_dcba.induct) auto
  ultimately show ?thesis by (simp add: ref_order_def split: WordOrder.split)
qed

lemma mset_ref_order: "mset (ref_order ord xs) = mset xs"
proof -
  have "mset (ref_badc xs) = mset xs" by (induction xs rule: ref_badc.induct) auto
  moreover have "mset (ref_cdab xs) = mset xs" by (induction xs rule: ref_cdab.induct) auto
  moreover have "mset (ref_dcba xs) = mset xs" by (induction xs rule: ref_dcba.induct) auto
  ultimately show ?thesis by (simp add: ref_order_def split: WordOrder.split)
qed

lemma length_apply_byte_order [simp]: "length (apply_byte_order bytes ord) = length bytes"
  by (simp add: apply_byte_order_def apply_to_bytes_eq_ref)

lemma apply_byte_order_twice [simp]:
  "apply_byte_order (apply_byte_order bytes ord) ord = bytes"
  by (simp add: apply_byte_order_def apply_to_bytes_eq_ref ref_order_involution)

section \<open>Properties\<close>

text \<open>C28: The in-place loops behind \<open>apply_byte_order\<close> compute, for every byte order and every buffer
  length, the chunk-wise rearrangement the documentation of \<open>WordOrder\<close> describes.\<close>

theorem apply_byte_order_reference: "apply_byte_order bytes ord = ref_order ord bytes"
  by (simp add: apply_byte_order_def apply_to_bytes_eq_ref)

text \<open>Applying a byte order twice restores the buffer, and one application permutes its bytes:
  reading and writing through one mapping use the same reordering, and no byte is lost.\<close>

lemma apply_byte_order_involutive_permutation:
  "apply_byte_order (apply_byte_order bytes ord) ord = bytes
   \<and> mset (apply_byte_order bytes ord) = mset bytes"
  by (simp add: apply_byte_order_def apply_to_bytes_eq_ref ref_order_involution mset_ref_order)

end
