(* ===== verification/Tag_Definition.thy ===== *)
theory Tag_Definition
  imports Tag_Value "HOL-Library.AList"
begin

text \<open>
  \<open>src/core-model/src/error.rs\<close>, \<open>tag_definition.rs\<close> and \<open>tag_definition_store.rs\<close>: the static
  description of a tag, its validation, and the read-only store that is built from a list of
  definitions.  The store is characterised completely: it is built exactly when every definition
  validates and the ids are distinct, and then it maps each id to its definition.

  A \<open>HashMap\<close> is an association list with distinct keys; the order of the list stands for the
  unspecified iteration order, on which no result here depends.
\<close>

datatype CoreError =
    TagNotFound string
  | DefinitionNotFound string
  | CoreTypeMismatch string
  | InvalidConfig string
  | Internal string

fun CoreError_display :: "CoreError \<Rightarrow> string" where
  "CoreError_display (TagNotFound s) = ''Tag not found: '' @ s"
| "CoreError_display (DefinitionNotFound s) = ''Definition not found: '' @ s"
| "CoreError_display (CoreTypeMismatch s) = ''Type mismatch for tag '' @ s"
| "CoreError_display (InvalidConfig s) = ''Invalid configuration: '' @ s"
| "CoreError_display (Internal s) = ''Internal error: '' @ s"

record TagDefinition =
  td_id :: string
  td_name :: string
  td_address :: string
  td_data_type :: TagDataType
  td_writable :: bool
  td_byte_order :: WordOrder
  td_stale_after_ms :: "u64 option"
  td_metadata :: "json option"
  td_plc_name :: string

definition validate_definition :: "TagDefinition \<Rightarrow> CoreError + unit" where
  "validate_definition d =
     (if trim (td_id d) = [] then Inl (InvalidConfig ''TagDefinition.id is empty'')
      else if trim (td_name d) = [] then
        Inl (InvalidConfig (''TagDefinition.name is empty for id '' @ quoted (td_id d)))
      else if trim (td_address d) = [] then
        Inl (InvalidConfig (''TagDefinition.address is empty for id '' @ quoted (td_id d)))
      else Inr ())"

definition TagDefinition_new ::
  "string \<Rightarrow> string \<Rightarrow> string \<Rightarrow> TagDataType \<Rightarrow> string \<Rightarrow> TagDefinition" where
  "TagDefinition_new tid name address dt plc_name =
     \<lparr>td_id = tid, td_name = name, td_address = address, td_data_type = dt, td_writable = False,
      td_byte_order = WordOrder_default, td_stale_after_ms = None, td_metadata = None,
      td_plc_name = plc_name\<rparr>"

section \<open>The definition store\<close>

type_synonym TagDefinitionStore = "(string \<times> TagDefinition) list"

fun from_definitions_loop ::
  "TagDefinitionStore \<Rightarrow> TagDefinition list \<Rightarrow> CoreError + TagDefinitionStore" where
  "from_definitions_loop m [] = Inr m"
| "from_definitions_loop m (d # ds) =
     (case validate_definition d of
        Inl e \<Rightarrow> Inl e
      | Inr _ \<Rightarrow>
          if map_of m (td_id d) \<noteq> None
          then Inl (InvalidConfig (''Duplicate TagDefinition id: '' @ td_id d))
          else from_definitions_loop (AList.update (td_id d) d m) ds)"

definition defstore_from_definitions :: "TagDefinition list \<Rightarrow> CoreError + TagDefinitionStore" where
  "defstore_from_definitions defs = from_definitions_loop [] defs"

definition defstore_len :: "TagDefinitionStore \<Rightarrow> nat" where
  "defstore_len m = length m"

definition defstore_is_empty :: "TagDefinitionStore \<Rightarrow> bool" where
  "defstore_is_empty m \<longleftrightarrow> m = []"

definition defstore_get :: "TagDefinitionStore \<Rightarrow> string \<Rightarrow> CoreError + TagDefinition" where
  "defstore_get m tid =
     (case map_of m tid of None \<Rightarrow> Inl (DefinitionNotFound tid) | Some d \<Rightarrow> Inr d)"

definition defstore_contains :: "TagDefinitionStore \<Rightarrow> string \<Rightarrow> bool" where
  "defstore_contains m tid \<longleftrightarrow> map_of m tid \<noteq> None"

definition all_definitions_sorted :: "TagDefinitionStore \<Rightarrow> TagDefinition list" where
  "all_definitions_sorted m = sort_key td_id (map snd m)"

section \<open>Characterisation\<close>

definition valid_definition :: "TagDefinition \<Rightarrow> bool" where
  "valid_definition d \<longleftrightarrow> trim (td_id d) \<noteq> [] \<and> trim (td_name d) \<noteq> [] \<and> trim (td_address d) \<noteq> []"

lemma validate_definition_iff: "validate_definition d = Inr () \<longleftrightarrow> valid_definition d"
  by (auto simp: validate_definition_def valid_definition_def)

text \<open>The representation of a store: distinct keys, each the id of its definition.\<close>

definition defstore_wf :: "TagDefinitionStore \<Rightarrow> bool" where
  "defstore_wf m \<longleftrightarrow> distinct (map fst m) \<and> (\<forall>(k, d) \<in> set m. k = td_id d)"

lemma update_new_key: "map_of m k = None \<Longrightarrow> AList.update k v m = m @ [(k, v)]"
  by (induction m) (auto split: if_splits)

lemma from_definitions_loop_Inr:
  assumes "from_definitions_loop m ds = Inr m'"
  shows "m' = m @ map (\<lambda>d. (td_id d, d)) ds \<and> (\<forall>d \<in> set ds. valid_definition d)
    \<and> distinct (map td_id ds) \<and> td_id ` set ds \<inter> fst ` set m = {}"
  using assms
proof (induction ds arbitrary: m)
  case (Cons d ds)
  then have v: "valid_definition d" and n: "map_of m (td_id d) = None"
    and r: "from_definitions_loop (m @ [(td_id d, d)]) ds = Inr m'"
    by (auto simp: validate_definition_iff update_new_key split: sum.splits if_splits)
  from Cons.IH [OF r] v n show ?case by (auto simp: map_of_eq_None_iff)
qed simp

lemma from_definitions_loop_ok:
  assumes "\<forall>d \<in> set ds. valid_definition d" and "distinct (map td_id ds)"
    and "td_id ` set ds \<inter> fst ` set m = {}"
  shows "from_definitions_loop m ds = Inr (m @ map (\<lambda>d. (td_id d, d)) ds)"
  using assms
proof (induction ds arbitrary: m)
  case (Cons d ds)
  then have n: "map_of m (td_id d) = None" and v: "validate_definition d = Inr ()"
    by (auto simp: validate_definition_iff map_of_eq_None_iff)
  have "from_definitions_loop (m @ [(td_id d, d)]) ds
      = Inr ((m @ [(td_id d, d)]) @ map (\<lambda>d. (td_id d, d)) ds)"
    by (rule Cons.IH) (use Cons.prems in auto)
  then show ?case
    using v n by (simp add: update_new_key)
qed simp

lemma from_definitions_loop_Inl:
  "from_definitions_loop m ds = Inl e \<Longrightarrow> \<exists>msg. e = InvalidConfig msg"
  by (induction m ds rule: from_definitions_loop.induct)
    (auto simp: validate_definition_def split: sum.splits if_splits)

lemma defstore_from_definitions_Inr:
  "defstore_from_definitions defs = Inr m \<longleftrightarrow>
     (\<forall>d \<in> set defs. valid_definition d) \<and> distinct (map td_id defs)
     \<and> m = map (\<lambda>d. (td_id d, d)) defs"
  unfolding defstore_from_definitions_def
  by (auto dest: from_definitions_loop_Inr simp: from_definitions_loop_ok)

lemma defstore_wf_from_definitions: "defstore_from_definitions defs = Inr m \<Longrightarrow> defstore_wf m"
  by (auto simp: defstore_from_definitions_Inr defstore_wf_def comp_def)

lemma defstore_wf_id: "defstore_wf m \<Longrightarrow> map_of m k = Some d \<Longrightarrow> td_id d = k"
  by (auto simp: defstore_wf_def dest: map_of_SomeD)

lemma set_all_definitions_sorted: "set (all_definitions_sorted m) = snd ` set m"
  by (simp add: all_definitions_sorted_def)

lemma all_definitions_sorted_ids:
  assumes "defstore_wf m"
  shows "sorted (map td_id (all_definitions_sorted m))"
    and "distinct (map td_id (all_definitions_sorted m))"
proof -
  show "sorted (map td_id (all_definitions_sorted m))"
    by (simp add: all_definitions_sorted_def)
  have "map td_id (map snd m) = map fst m"
    using assms by (auto simp: defstore_wf_def)
  then have "distinct (map td_id (map snd m))"
    using assms by (simp add: defstore_wf_def del: map_map)
  moreover have "mset (map td_id (all_definitions_sorted m)) = mset (map td_id (map snd m))"
    by (simp add: all_definitions_sorted_def del: map_map)
  ultimately show "distinct (map td_id (all_definitions_sorted m))"
    by (metis mset_eq_imp_distinct_iff)
qed

lemma map_of_eqI_mset:
  assumes "mset xs = mset ys" and "distinct (map fst xs)" and "distinct (map fst ys)"
  shows "map_of xs = map_of ys"
proof
  fix k
  have "set xs = set ys" using assms(1) by (rule mset_eq_setD)
  then show "map_of xs k = map_of ys k"
    using assms(2,3) by (metis map_of_eq_None_iff map_of_SomeD map_of_is_SomeI option.exhaust)
qed

lemma map_of_all_definitions_sorted:
  assumes "defstore_wf m"
  shows "map_of (map (\<lambda>d. (td_id d, d)) (all_definitions_sorted m)) = map_of m"
proof -
  have "map (\<lambda>d. (td_id d, d)) (map snd m) = m"
    unfolding map_map by (rule map_idI) (use assms in \<open>auto simp: defstore_wf_def\<close>)
  moreover have "mset (map (\<lambda>d. (td_id d, d)) (all_definitions_sorted m))
      = mset (map (\<lambda>d. (td_id d, d)) (map snd m))"
    by (simp add: all_definitions_sorted_def del: map_map)
  moreover have "distinct (map fst (map (\<lambda>d. (td_id d, d)) (all_definitions_sorted m)))"
    using all_definitions_sorted_ids(2) [OF assms] by (simp add: comp_def)
  ultimately show ?thesis
    using assms by (metis defstore_wf_def map_of_eqI_mset)
qed

section \<open>Properties\<close>

text \<open>A definition store is built exactly when every definition has a non-blank id, name and
  address and no id occurs twice; every definition is then found under its id, any other id is
  reported as not found, and the sorted listing is the set of definitions in the order of their
  ids.\<close>

lemma defstore_from_definitions_spec:
  "if list_all valid_definition defs \<and> distinct (map td_id defs)
   then \<exists>m. defstore_from_definitions defs = Inr m
     \<and> (\<forall>tid. defstore_get m tid =
          (case find_first (\<lambda>d. td_id d = tid) defs of
             None \<Rightarrow> Inl (DefinitionNotFound tid) | Some d \<Rightarrow> Inr d))
     \<and> set (all_definitions_sorted m) = set defs
     \<and> sorted_wrt (<) (map td_id (all_definitions_sorted m))
   else \<exists>msg. defstore_from_definitions defs = Inl (InvalidConfig msg)"
proof (cases "list_all valid_definition defs \<and> distinct (map td_id defs)")
  case True
  define m where "m = map (\<lambda>d. (td_id d, d)) defs"
  have m: "defstore_from_definitions defs = Inr m"
    using True by (simp add: defstore_from_definitions_Inr m_def list_all_iff)
  have "map_of m tid = find_first (\<lambda>d. td_id d = tid) defs" for tid
    unfolding m_def by (induction defs) auto
  moreover have "set (all_definitions_sorted m) = set defs"
    by (simp add: set_all_definitions_sorted m_def image_image)
  ultimately show ?thesis
    using True m all_definitions_sorted_ids [OF defstore_wf_from_definitions [OF m]]
    by (auto simp: defstore_get_def strict_sorted_iff)
next
  case False
  then have "\<nexists>m. defstore_from_definitions defs = Inr m"
    by (auto simp: defstore_from_definitions_Inr list_all_iff)
  then obtain e where e: "from_definitions_loop [] defs = Inl e"
    by (cases "from_definitions_loop [] defs") (auto simp: defstore_from_definitions_def)
  show ?thesis
    using False from_definitions_loop_Inl [OF e] e by (simp add: defstore_from_definitions_def)
qed

end
