(* ===== verification/Tag_Store.thy ===== *)
theory Tag_Store
  imports Tag_Definition
begin

text \<open>
  \<open>src/core-model/src/tag.rs\<close> and \<open>tag_store.rs\<close>: runtime tags and the store of their holders.

  The store keeps a vector of holders, an index from ids to vector positions, a sorted cache of the
  ids and the subscribers' channels.  \<open>store_wf\<close> is its representation invariant; it implies that
  every position the index gives is inside the vector, so the slice accesses \<open>inner.tags[idx]\<close> never
  panic.  \<open>store_map\<close> is the abstract map of ids to tags, and the locale \<open>tag_container\<close> is the
  contract clients rely on; it is interpreted on the store's operations.  \<open>Utc::now()\<close> is the
  argument \<open>now\<close>.

  \<open>insert\<close> takes the write lock only when the id was missing under the read lock; what it does then
  is \<open>insert_slow\<close>, which runs on whatever state it finds, also one where another thread has
  inserted the id in between.
\<close>

section \<open>Runtime tags\<close>

record Tag =
  tag_value :: TagValue
  tag_quality :: TagQuality
  source_timestamp :: datetime
  server_timestamp :: datetime

definition Tag_new :: "datetime \<Rightarrow> TagValue \<Rightarrow> Tag" where
  "Tag_new now v =
     \<lparr>tag_value = v, tag_quality = Initializing, source_timestamp = now, server_timestamp = now\<rparr>"

definition apply_read :: "datetime \<Rightarrow> Tag \<Rightarrow> TagValue \<Rightarrow> TagQuality \<Rightarrow> datetime \<Rightarrow> Tag" where
  "apply_read now t v q source_ts =
     t\<lparr>tag_value := v, tag_quality := q, source_timestamp := source_ts, server_timestamp := now\<rparr>"

definition tag_set_quality :: "datetime \<Rightarrow> Tag \<Rightarrow> TagQuality \<Rightarrow> Tag" where
  "tag_set_quality now t q = t\<lparr>tag_quality := q, server_timestamp := now\<rparr>"

definition touch :: "datetime \<Rightarrow> Tag \<Rightarrow> Tag" where
  "touch now t = t\<lparr>server_timestamp := now\<rparr>"

text \<open>\<open>timeout\<close> is a duration in nanoseconds.\<close>

definition is_stale :: "datetime \<Rightarrow> Tag \<Rightarrow> int \<Rightarrow> bool" where
  "is_stale now t timeout =
     (let d = now - source_timestamp t in if d < 0 then True else d > timeout)"

section \<open>The store\<close>

record TagChange =
  tc_tag_id :: string
  tc_tag :: Tag

record TagStore =
  st_tags :: "Tag list"
  st_index :: "(string \<times> nat) list"
  st_sorted_ids :: "string list"
  st_subscribers :: "TagChange sync_chan list"

definition TagStore_new :: TagStore where
  "TagStore_new = \<lparr>st_tags = [], st_index = [], st_sorted_ids = [], st_subscribers = []\<rparr>"

definition broadcast_change :: "TagStore \<Rightarrow> string \<Rightarrow> Tag \<Rightarrow> TagStore" where
  "broadcast_change s tid t =
     s\<lparr>st_subscribers :=
        map (\<lambda>tx. snd (try_send tx \<lparr>tc_tag_id = tid, tc_tag = t\<rparr>)) (st_subscribers s)\<rparr>"

definition insert_slow :: "TagStore \<Rightarrow> string \<Rightarrow> Tag \<Rightarrow> TagStore" where
  "insert_slow s tid t =
     (case map_of (st_index s) tid of
        Some idx \<Rightarrow> s\<lparr>st_tags := (st_tags s)[idx := t]\<rparr>
      | None \<Rightarrow>
          let idx = length (st_tags s);
              tags' = st_tags s @ [t];
              index' = AList.update tid idx (st_index s);
              insert_pos = (case binary_search (st_sorted_ids s) tid of Inr pos \<Rightarrow> pos | Inl pos \<Rightarrow> pos);
              s' = s\<lparr>st_tags := tags', st_index := index',
                     st_sorted_ids := vec_insert (st_sorted_ids s) insert_pos tid\<rparr>
          in broadcast_change s' tid (tags' ! idx))"

definition store_insert :: "TagStore \<Rightarrow> string \<Rightarrow> Tag \<Rightarrow> TagStore" where
  "store_insert s tid t =
     (case map_of (st_index s) tid of
        Some idx \<Rightarrow> broadcast_change (s\<lparr>st_tags := (st_tags s)[idx := t]\<rparr>) tid t
      | None \<Rightarrow> insert_slow s tid t)"

definition store_get :: "TagStore \<Rightarrow> string \<Rightarrow> CoreError + Tag" where
  "store_get s tid =
     (case map_of (st_index s) tid of
        Some idx \<Rightarrow> Inr (st_tags s ! idx)
      | None \<Rightarrow> Inl (TagNotFound tid))"

text \<open>The receiver is the position of its channel.\<close>

definition subscribe :: "TagStore \<Rightarrow> nat \<times> TagStore" where
  "subscribe s =
     (length (st_subscribers s),
      s\<lparr>st_subscribers := st_subscribers s @ [sync_channel 128]\<rparr>)"

definition update_value_with_expected ::
  "datetime \<Rightarrow> TagStore \<Rightarrow> string \<Rightarrow> TagValue \<Rightarrow> TagQuality \<Rightarrow> datetime \<Rightarrow> TagDataType
   \<Rightarrow> (CoreError + Tag) \<times> TagStore" where
  "update_value_with_expected now s tid v q source_ts expected =
     (if \<not> matches v expected then (Inl (CoreTypeMismatch tid), s)
      else case map_of (st_index s) tid of
        None \<Rightarrow> (Inl (TagNotFound tid), s)
      | Some idx \<Rightarrow>
          let new_tag = apply_read now (st_tags s ! idx) v q source_ts
          in (Inr new_tag, broadcast_change (s\<lparr>st_tags := (st_tags s)[idx := new_tag]\<rparr>) tid new_tag))"

definition store_set_quality ::
  "datetime \<Rightarrow> TagStore \<Rightarrow> string \<Rightarrow> TagQuality \<Rightarrow> (CoreError + unit) \<times> TagStore" where
  "store_set_quality now s tid q =
     (case map_of (st_index s) tid of
        None \<Rightarrow> (Inl (TagNotFound tid), s)
      | Some idx \<Rightarrow>
          let new_tag = tag_set_quality now (st_tags s ! idx) q
          in (Inr (), broadcast_change (s\<lparr>st_tags := (st_tags s)[idx := new_tag]\<rparr>) tid new_tag))"

definition store_list_ids_sorted :: "TagStore \<Rightarrow> string list" where
  "store_list_ids_sorted s = st_sorted_ids s"

text \<open>The closure gets the tag and returns its result and the tag as it left it.\<close>

definition try_update_with ::
  "datetime \<Rightarrow> TagStore \<Rightarrow> string \<Rightarrow> (Tag \<Rightarrow> (CoreError + 'r) \<times> Tag) \<Rightarrow> (CoreError + 'r) \<times> TagStore"
  where
  "try_update_with now s tid f =
     (case map_of (st_index s) tid of
        None \<Rightarrow> (Inl (TagNotFound tid), s)
      | Some idx \<Rightarrow>
          (case f (st_tags s ! idx) of
             (Inl e, _) \<Rightarrow> (Inl e, s)
           | (Inr res, t) \<Rightarrow>
               let t' = touch now t
               in (Inr res, broadcast_change (s\<lparr>st_tags := (st_tags s)[idx := t']\<rparr>) tid t')))"

definition store_len :: "TagStore \<Rightarrow> nat" where
  "store_len s = length (st_tags s)"

definition store_is_empty :: "TagStore \<Rightarrow> bool" where
  "store_is_empty s \<longleftrightarrow> store_len s = 0"

section \<open>Invariant and abstraction\<close>

definition store_wf :: "TagStore \<Rightarrow> bool" where
  "store_wf s \<longleftrightarrow>
     distinct (map fst (st_index s)) \<and> map snd (st_index s) = [0..<length (st_tags s)] \<and>
     sorted (st_sorted_ids s) \<and> distinct (st_sorted_ids s) \<and>
     set (st_sorted_ids s) = fst ` set (st_index s) \<and>
     list_all chan_wf (st_subscribers s)"

definition store_map :: "TagStore \<Rightarrow> string \<Rightarrow> Tag option" where
  "store_map s tid = map_option (\<lambda>idx. st_tags s ! idx) (map_of (st_index s) tid)"

lemma broadcast_change_sel [simp]:
  "st_tags (broadcast_change s tid t) = st_tags s"
  "st_index (broadcast_change s tid t) = st_index s"
  "st_sorted_ids (broadcast_change s tid t) = st_sorted_ids s"
  by (simp_all add: broadcast_change_def)

lemma store_map_broadcast [simp]: "store_map (broadcast_change s tid t) = store_map s"
  by (simp add: store_map_def fun_eq_iff)

lemma store_wf_broadcast: "store_wf s \<Longrightarrow> store_wf (broadcast_change s tid t)"
  by (auto simp: store_wf_def broadcast_change_def list_all_iff try_send_wf)

lemma store_wf_index:
  assumes "store_wf s" and "map_of (st_index s) tid = Some idx"
  shows "idx < length (st_tags s)"
proof -
  have "idx \<in> snd ` set (st_index s)" using map_of_SomeD [OF assms(2)] by force
  then show ?thesis using assms(1) unfolding store_wf_def
    by (metis atLeastLessThan_iff list.set_map set_upt)
qed

lemma store_wf_index_inj:
  assumes "store_wf s" and "map_of (st_index s) a = Some i" and "map_of (st_index s) b = Some i"
  shows "a = b"
proof -
  have "distinct (map snd (st_index s))" using assms(1) by (simp add: store_wf_def)
  then show ?thesis using map_of_SomeD [OF assms(2)] map_of_SomeD [OF assms(3)]
    by (metis Pair_inject distinct_map inj_onD snd_conv)
qed

text \<open>Replacing the holder's content at an indexed position changes exactly one id.\<close>

lemma store_map_update:
  assumes "store_wf s" and "map_of (st_index s) tid = Some idx"
  shows "store_map (s\<lparr>st_tags := (st_tags s)[idx := t]\<rparr>) = (store_map s)(tid \<mapsto> t)"
proof
  fix k
  show "store_map (s\<lparr>st_tags := (st_tags s)[idx := t]\<rparr>) k = ((store_map s)(tid \<mapsto> t)) k"
    using store_wf_index [OF assms] store_wf_index_inj [OF assms(1,2), of k] assms(2)
    by (cases "map_of (st_index s) k") (auto simp: store_map_def nth_list_update)
qed

lemma store_wf_update: "store_wf s \<Longrightarrow> store_wf (s\<lparr>st_tags := (st_tags s)[idx := t]\<rparr>)"
  by (simp add: store_wf_def)

lemma store_wf_new: "store_wf TagStore_new"
  by (simp add: store_wf_def TagStore_new_def)

lemma store_map_new: "store_map TagStore_new = Map.empty"
  by (simp add: store_map_def TagStore_new_def fun_eq_iff)

text \<open>The state a new id leads to, before its subscribers are told.\<close>

lemma insert_new_slot:
  assumes "store_wf s" and "map_of (st_index s) tid = None"
  obtains pos where
    "insert_slow s tid t = broadcast_change (s\<lparr>st_tags := st_tags s @ [t],
       st_index := st_index s @ [(tid, length (st_tags s))],
       st_sorted_ids := vec_insert (st_sorted_ids s) pos tid\<rparr>) tid t"
    and "sorted (vec_insert (st_sorted_ids s) pos tid)"
    and "distinct (vec_insert (st_sorted_ids s) pos tid)"
proof -
  have new: "tid \<notin> set (st_sorted_ids s)" and srt: "sorted (st_sorted_ids s)"
    and dst: "distinct (st_sorted_ids s)"
    using assms by (auto simp: store_wf_def map_of_eq_None_iff)
  obtain pos where pos: "binary_search (st_sorted_ids s) tid = Inl pos"
    "pos \<le> length (st_sorted_ids s)" "\<forall>i < pos. st_sorted_ids s ! i < tid"
    "\<forall>i. pos \<le> i \<and> i < length (st_sorted_ids s) \<longrightarrow> tid < st_sorted_ids s ! i"
    using binary_search_insert [OF srt new] by metis
  show ?thesis
  proof
    show "sorted (vec_insert (st_sorted_ids s) pos tid)"
      using sorted_vec_insert [OF srt pos(2-4)] .
    have "distinct (take pos (st_sorted_ids s) @ drop pos (st_sorted_ids s))" using dst by simp
    then show "distinct (vec_insert (st_sorted_ids s) pos tid)"
      using new by (auto simp: vec_insert_def dest: in_set_takeD in_set_dropD
          simp del: append_take_drop_id)
  qed (use assms(2) pos(1) in \<open>simp add: insert_slow_def Let_def update_new_key\<close>)
qed

lemma insert_slow_refines:
  assumes "store_wf s"
  shows "store_wf (insert_slow s tid t)"
    and "store_map (insert_slow s tid t) = (store_map s)(tid \<mapsto> t)"
proof -
  show "store_wf (insert_slow s tid t)"
  proof (cases "map_of (st_index s) tid")
    case None
    obtain pos where eq: "insert_slow s tid t = broadcast_change (s\<lparr>st_tags := st_tags s @ [t],
        st_index := st_index s @ [(tid, length (st_tags s))],
        st_sorted_ids := vec_insert (st_sorted_ids s) pos tid\<rparr>) tid t"
      and "sorted (vec_insert (st_sorted_ids s) pos tid)"
      and "distinct (vec_insert (st_sorted_ids s) pos tid)"
      using insert_new_slot [OF assms None] by metis
    then show ?thesis
      using assms None unfolding eq
      by (intro store_wf_broadcast) (auto simp: store_wf_def map_of_eq_None_iff)
  qed (use assms in \<open>simp add: insert_slow_def store_wf_update\<close>)
  show "store_map (insert_slow s tid t) = (store_map s)(tid \<mapsto> t)"
  proof (cases "map_of (st_index s) tid")
    case None
    obtain pos where eq: "insert_slow s tid t = broadcast_change (s\<lparr>st_tags := st_tags s @ [t],
        st_index := st_index s @ [(tid, length (st_tags s))],
        st_sorted_ids := vec_insert (st_sorted_ids s) pos tid\<rparr>) tid t"
      using insert_new_slot [OF assms None] by metis
    have "store_map (insert_slow s tid t) k = ((store_map s)(tid \<mapsto> t)) k" for k
      unfolding eq using None store_wf_index [OF assms, of k]
      by (cases "map_of (st_index s) k")
        (auto simp: store_map_def map_add_def nth_append split: option.splits)
    then show ?thesis by blast
  qed (use assms in \<open>simp add: insert_slow_def store_map_update\<close>)
qed

lemma store_insert_refines:
  assumes "store_wf s"
  shows "store_wf (store_insert s tid t)"
    and "store_map (store_insert s tid t) = (store_map s)(tid \<mapsto> t)"
  using assms
  by (simp_all add: store_insert_def insert_slow_refines store_map_update store_wf_update
      store_wf_broadcast split: option.split)

lemma store_get_map:
  "store_get s tid = (case store_map s tid of None \<Rightarrow> Inl (TagNotFound tid) | Some t \<Rightarrow> Inr t)"
  by (simp add: store_get_def store_map_def split: option.split)

lemma store_ids:
  assumes "store_wf s"
  shows "sorted (store_list_ids_sorted s)" and "distinct (store_list_ids_sorted s)"
    and "set (store_list_ids_sorted s) = dom (store_map s)"
  using assms
  by (auto simp: store_wf_def store_list_ids_sorted_def store_map_def dom_map_of_conv_image_fst
      simp flip: dom_map_of_conv_image_fst)

text \<open>The two read-modify-write operations, over the abstract map.\<close>

lemma update_value_refines:
  assumes "store_wf s"
  shows "store_wf (snd (update_value_with_expected now s tid v q ts dt))"
    and "fst (update_value_with_expected now s tid v q ts dt) =
      (if data_type v \<noteq> dt then Inl (CoreTypeMismatch tid)
       else case store_map s tid of
          None \<Rightarrow> Inl (TagNotFound tid)
        | Some t \<Rightarrow> Inr (apply_read now t v q ts))"
    and "store_map (snd (update_value_with_expected now s tid v q ts dt)) =
      (if data_type v \<noteq> dt then store_map s
       else case store_map s tid of
          None \<Rightarrow> store_map s
        | Some t \<Rightarrow> (store_map s)(tid \<mapsto> apply_read now t v q ts))"
  using assms
  by (auto simp: update_value_with_expected_def matches_def Let_def store_wf_broadcast
      store_wf_update store_map_update store_map_def [of s tid] split: option.split)

lemma set_quality_refines:
  assumes "store_wf s"
  shows "store_wf (snd (store_set_quality now s tid q))"
    and "fst (store_set_quality now s tid q) =
      (case store_map s tid of None \<Rightarrow> Inl (TagNotFound tid) | Some _ \<Rightarrow> Inr ())"
    and "store_map (snd (store_set_quality now s tid q)) =
      (case store_map s tid of
          None \<Rightarrow> store_map s
        | Some t \<Rightarrow> (store_map s)(tid \<mapsto> tag_set_quality now t q))"
  using assms
  by (auto simp: store_set_quality_def Let_def store_wf_broadcast
      store_wf_update store_map_update store_map_def [of s tid] split: option.split)

lemma try_update_refines:
  assumes "store_wf s"
  shows "store_wf (snd (try_update_with now s tid f))"
    and "store_map (snd (try_update_with now s tid f)) =
      (case store_map s tid of
          None \<Rightarrow> store_map s
        | Some t \<Rightarrow> (case f t of (Inl _, _) \<Rightarrow> store_map s
            | (Inr _, t') \<Rightarrow> (store_map s)(tid \<mapsto> touch now t')))"
  using assms
  by (auto simp: try_update_with_def Let_def store_wf_broadcast store_wf_update store_map_update
      store_map_def [of s tid] split: option.split sum.split prod.split)

section \<open>The contract clients rely on\<close>

locale tag_container =
  fixes empty :: 's
    and insert :: "'s \<Rightarrow> string \<Rightarrow> Tag \<Rightarrow> 's"
    and lookup :: "'s \<Rightarrow> string \<Rightarrow> Tag option"
    and ids :: "'s \<Rightarrow> string list"
    and invar :: "'s \<Rightarrow> bool"
  assumes invar_empty: "invar empty"
    and lookup_empty: "lookup empty = Map.empty"
    and invar_insert: "invar s \<Longrightarrow> invar (insert s k t)"
    and lookup_insert: "invar s \<Longrightarrow> lookup (insert s k t) = (lookup s)(k \<mapsto> t)"
    and sorted_ids: "invar s \<Longrightarrow> sorted (ids s)"
    and distinct_ids: "invar s \<Longrightarrow> distinct (ids s)"
    and set_ids: "invar s \<Longrightarrow> set (ids s) = dom (lookup s)"
begin

lemma invar_fold: "invar s \<Longrightarrow> invar (foldl (\<lambda>s (k, t). insert s k t) s kts)"
  by (rule foldl_invariant) (auto simp: invar_insert)

lemma lookup_fold:
  "invar s \<Longrightarrow> lookup (foldl (\<lambda>s (k, t). insert s k t) s kts) = lookup s ++ map_of (rev kts)"
proof (induction kts arbitrary: s)
  case (Cons kt kts)
  then show ?case
    by (cases kt) (auto simp: invar_insert lookup_insert map_add_def fun_eq_iff split: option.splits)
qed simp

text \<open>The id list is determined by the domain: no trace of the insertion order is left in it.\<close>

lemma ids_eq_sorted_list: "invar s \<Longrightarrow> ids s = sorted_list_of_set (dom (lookup s))"
  by (metis distinct_ids set_ids sorted_ids sorted_list_of_set.idem_if_sorted_distinct)

lemma ids_depend_on_domain:
  "invar s \<Longrightarrow> invar s' \<Longrightarrow> dom (lookup s) = dom (lookup s') \<Longrightarrow> ids s = ids s'"
  by (simp add: ids_eq_sorted_list)

end

interpretation store: tag_container TagStore_new store_insert store_map store_list_ids_sorted store_wf
  by unfold_locales
    (simp_all add: store_wf_new store_map_new store_insert_refines store_ids)

section \<open>What a subscriber sees\<close>

text \<open>The channel after a change was published to it.\<close>

definition delivered :: "TagChange \<Rightarrow> TagChange sync_chan \<Rightarrow> TagChange sync_chan" where
  "delivered c tx =
     (if chan_open tx \<and> length (chan_buf tx) < chan_cap tx
      then tx\<lparr>chan_buf := chan_buf tx @ [c]\<rparr> else tx)"

lemma subscribers_broadcast:
  "st_subscribers (broadcast_change s tid t) =
     map (delivered \<lparr>tc_tag_id = tid, tc_tag = t\<rparr>) (st_subscribers s)"
  by (simp add: broadcast_change_def delivered_def try_send_def)

section \<open>Properties\<close>

text \<open>C18: After any sequence of insertions into an empty store, the store satisfies its representation
  invariant, an id maps to the tag inserted for it last, and the cached id list, maintained by binary
  search, is the ascending list of the inserted ids without repetition.\<close>

theorem store_after_insertions:
  "let s = foldl (\<lambda>s (tid, t). store_insert s tid t) TagStore_new kts
   in store_wf s \<and> store_map s = map_of (rev kts)
      \<and> store_list_ids_sorted s = sorted_list_of_set (fst ` set kts)"
proof -
  let ?s = "foldl (\<lambda>s (tid, t). store_insert s tid t) TagStore_new kts"
  have wf: "store_wf ?s" by (rule store.invar_fold [OF store.invar_empty])
  have m: "store_map ?s = map_of (rev kts)"
    using store.lookup_fold [OF store.invar_empty, of kts] by (simp add: store_map_new)
  have "store_list_ids_sorted ?s = sorted_list_of_set (fst ` set kts)"
    using store.ids_eq_sorted_list [OF wf] by (simp add: m dom_map_of_conv_image_fst)
  with wf m show ?thesis by simp
qed

text \<open>C29: \<open>update_value_with_expected\<close> on every branch: a value of the wrong type and an unknown id are
  reported and change nothing, not even a channel; otherwise the tag gets the value, the quality and
  both timestamps, every other tag is unchanged, each open subscriber channel with room receives
  exactly this change at its end, and the invariant is kept.\<close>

theorem update_value_with_expected_spec:
  assumes "store_wf s" and "update_value_with_expected now s tid v q ts dt = (res, s')"
  shows "store_wf s' \<and>
    (case store_map s tid of
       Some t \<Rightarrow>
         if data_type v = dt then
           res = Inr (apply_read now t v q ts)
           \<and> store_map s' = (store_map s)(tid \<mapsto> apply_read now t v q ts)
           \<and> st_subscribers s' = map (delivered \<lparr>tc_tag_id = tid, tc_tag = apply_read now t v q ts\<rparr>)
               (st_subscribers s)
         else res = Inl (CoreTypeMismatch tid) \<and> s' = s
     | None \<Rightarrow>
         res = Inl (if data_type v = dt then TagNotFound tid else CoreTypeMismatch tid) \<and> s' = s)"
proof (cases "map_of (st_index s) tid")
  case None
  then show ?thesis
    using assms by (auto simp: update_value_with_expected_def matches_def store_map_def)
next
  case (Some idx)
  then have t: "store_map s tid = Some (st_tags s ! idx)" by (simp add: store_map_def)
  have "store_wf s'" using update_value_refines(1) [OF assms(1), of now tid v q ts dt] assms(2) by simp
  with t Some assms show ?thesis
    by (auto simp: update_value_with_expected_def matches_def Let_def store_map_update
        subscribers_broadcast)
qed

definition example_tag :: Tag where
  "example_tag = Tag_new 5 (VUInt16 7)"

theorem update_value_with_expected_spec_witness:
  "let s = store_insert TagStore_new ''a'' example_tag;
       out = update_value_with_expected 9 s ''a'' (VUInt16 8) Good 8 TUInt16
   in store_wf s \<and> store_map (snd out) = (store_map s)(''a'' \<mapsto>
        \<lparr>tag_value = VUInt16 8, tag_quality = Good, source_timestamp = 8, server_timestamp = 9\<rparr>)"
proof -
  let ?s = "store_insert TagStore_new ''a'' example_tag"
  have wf: "store_wf ?s" by (simp add: store_insert_refines store_wf_new)
  have "store_map ?s ''a'' = Some example_tag"
    by (simp add: store_insert_refines store_wf_new)
  then show ?thesis
    using wf update_value_with_expected_spec [OF wf surjective_pairing, of 9 "''a''" "VUInt16 8" Good 8 TUInt16]
    by (simp add: Let_def apply_read_def example_tag_def Tag_new_def)
qed

end
