(* ===== verification/Registry.thy ===== *)
theory Registry
  imports Tag_Store
begin

text \<open>
  \<open>src/core-model/src/registry.rs\<close>: the registry pairs the read-only definitions with the runtime
  store.  Its invariant \<open>reg_wf\<close> says that the runtime tags are exactly the defined ones and that
  every runtime value has the configured type; construction establishes it and every operation keeps
  it.  \<open>reg_map\<close> is the abstract state, and each operation is described as an update of it.

  \<open>Utc::now()\<close> is the argument \<open>now\<close>; construction reads the clock more than once, so there it is a
  sequence of readings.
\<close>

record TagRegistry =
  reg_definitions :: TagDefinitionStore
  reg_tags :: TagStore

fun initial_value :: "datetime \<Rightarrow> TagDataType \<Rightarrow> TagValue" where
  "initial_value now TBool = VBool False"
| "initial_value now TInt16 = VInt16 0"
| "initial_value now TUInt16 = VUInt16 0"
| "initial_value now TInt32 = VInt32 0"
| "initial_value now TUInt32 = VUInt32 0"
| "initial_value now TInt64 = VInt64 0"
| "initial_value now TUInt64 = VUInt64 0"
| "initial_value now TFloat = VFloat 0"
| "initial_value now TDouble = VDouble 0"
| "initial_value now TDateTime = VDateTime now"
| "initial_value now TByteString = VByteString []"
| "initial_value now TString = VString []"

fun populate_tags :: "(nat \<Rightarrow> datetime) \<Rightarrow> nat \<Rightarrow> TagStore \<Rightarrow> TagDefinition list \<Rightarrow> TagStore" where
  "populate_tags clk k s [] = s"
| "populate_tags clk k s (d # ds) =
     populate_tags clk (k + 2)
       (store_insert s (td_id d) (Tag_new (clk (k + 1)) (initial_value (clk k) (td_data_type d)))) ds"

definition from_definitions :: "(nat \<Rightarrow> datetime) \<Rightarrow> TagDefinition list \<Rightarrow> CoreError + TagRegistry" where
  "from_definitions clk defs =
     (case defstore_from_definitions defs of
        Inl e \<Rightarrow> Inl e
      | Inr def_store \<Rightarrow>
          Inr \<lparr>reg_definitions = def_store,
               reg_tags = populate_tags clk 0 TagStore_new (all_definitions_sorted def_store)\<rparr>)"

definition get_tag :: "TagRegistry \<Rightarrow> string \<Rightarrow> CoreError + Tag" where
  "get_tag r tid = store_get (reg_tags r) tid"

definition get_definition :: "TagRegistry \<Rightarrow> string \<Rightarrow> CoreError + TagDefinition" where
  "get_definition r tid = defstore_get (reg_definitions r) tid"

definition update_tag_value ::
  "datetime \<Rightarrow> TagRegistry \<Rightarrow> string \<Rightarrow> TagValue \<Rightarrow> TagQuality \<Rightarrow> datetime
   \<Rightarrow> (CoreError + Tag) \<times> TagRegistry" where
  "update_tag_value now r tid v q source_ts =
     (case defstore_get (reg_definitions r) tid of
        Inl e \<Rightarrow> (Inl e, r)
      | Inr d \<Rightarrow>
          (case update_value_with_expected now (reg_tags r) tid v q source_ts (td_data_type d) of
             (res, s) \<Rightarrow> (res, r\<lparr>reg_tags := s\<rparr>)))"

definition set_tag_quality ::
  "datetime \<Rightarrow> TagRegistry \<Rightarrow> string \<Rightarrow> TagQuality \<Rightarrow> (CoreError + unit) \<times> TagRegistry" where
  "set_tag_quality now r tid q =
     (case store_set_quality now (reg_tags r) tid q of (res, s) \<Rightarrow> (res, r\<lparr>reg_tags := s\<rparr>))"

definition list_ids_sorted :: "TagRegistry \<Rightarrow> string list" where
  "list_ids_sorted r = store_list_ids_sorted (reg_tags r)"

definition reg_all_definitions_sorted :: "TagRegistry \<Rightarrow> TagDefinition list" where
  "reg_all_definitions_sorted r = all_definitions_sorted (reg_definitions r)"

text \<open>\<open>let _ = registry.update_tag_value(...)\<close> and \<open>let _ = registry.set_tag_quality(...)\<close>: the
  callers that ignore the result.\<close>

abbreviation upd_val where
  "upd_val now r tid v q ts \<equiv> snd (update_tag_value now r tid v q ts)"

abbreviation upd_qual where
  "upd_qual now r tid q \<equiv> snd (set_tag_quality now r tid q)"

section \<open>Invariant\<close>

definition reg_map :: "TagRegistry \<Rightarrow> string \<Rightarrow> Tag option" where
  "reg_map r = store_map (reg_tags r)"

definition reg_def :: "TagRegistry \<Rightarrow> string \<Rightarrow> TagDefinition option" where
  "reg_def r = map_of (reg_definitions r)"

definition reg_typed :: "TagRegistry \<Rightarrow> bool" where
  "reg_typed r \<longleftrightarrow>
     (\<forall>tid t d. reg_map r tid = Some t \<longrightarrow> reg_def r tid = Some d \<longrightarrow>
        data_type (tag_value t) = td_data_type d)"

definition reg_wf :: "TagRegistry \<Rightarrow> bool" where
  "reg_wf r \<longleftrightarrow>
     defstore_wf (reg_definitions r) \<and> store_wf (reg_tags r) \<and>
     dom (reg_map r) = dom (reg_def r) \<and> reg_typed r"

lemma data_type_initial_value [simp]: "data_type (initial_value now dt) = dt"
  by (cases dt) auto

lemma populate_tags_wf: "store_wf s \<Longrightarrow> store_wf (populate_tags clk k s ds)"
  by (induction ds arbitrary: k s) (auto simp: store_insert_refines)

text \<open>Every id gets a fresh tag; with distinct ids none is overwritten.\<close>

lemma populate_tags_other:
  assumes "store_wf s" and "tid \<notin> td_id ` set ds"
  shows "store_map (populate_tags clk k s ds) tid = store_map s tid"
  using assms
proof (induction ds arbitrary: k s)
  case (Cons d ds)
  then show ?case by (simp add: store_insert_refines)
qed simp

lemma populate_tags_initial:
  assumes "store_wf s" and "distinct (map td_id ds)" and "d \<in> set ds"
  shows "\<exists>n m. store_map (populate_tags clk k s ds) (td_id d) =
    Some (Tag_new n (initial_value m (td_data_type d)))"
  using assms
proof (induction ds arbitrary: k s)
  case (Cons e ds)
  let ?s = "store_insert s (td_id e) (Tag_new (clk (k + 1)) (initial_value (clk k) (td_data_type e)))"
  have wf: "store_wf ?s" using Cons.prems(1) by (rule store_insert_refines)
  show ?case
  proof (cases "d \<in> set ds")
    case True
    then show ?thesis using Cons.IH [OF wf, of "k + 2"] Cons.prems(2) by simp
  next
    case False
    then have "d = e" and "td_id d \<notin> td_id ` set ds" using Cons.prems(2,3) by auto
    then have "store_map (populate_tags clk (k + 2) ?s ds) (td_id d) = store_map ?s (td_id d)"
      using populate_tags_other [OF wf] by simp
    then show ?thesis
      using \<open>d = e\<close> store_insert_refines(2) [OF Cons.prems(1)] by auto
  qed
qed simp

lemma populate_tags_dom:
  assumes "store_wf s" and "distinct (map td_id ds)"
  shows "dom (store_map (populate_tags clk k s ds)) = dom (store_map s) \<union> td_id ` set ds"
  using assms
proof (induction ds arbitrary: k s)
  case (Cons d ds)
  then show ?case by (auto simp: store_insert_refines)
qed simp

text \<open>What construction gives: an id is known exactly when it is defined, with the quality
  \<open>Initializing\<close> and the zero value of its type.\<close>

lemma from_definitions_tag:
  assumes "from_definitions clk defs = Inr r" and "d \<in> set defs"
  shows "reg_def r (td_id d) = Some d"
    and "\<exists>n m. reg_map r (td_id d) = Some (Tag_new n (initial_value m (td_data_type d)))"
proof -
  obtain m where m: "defstore_from_definitions defs = Inr m"
    and r: "r = \<lparr>reg_definitions = m,
      reg_tags = populate_tags clk 0 TagStore_new (all_definitions_sorted m)\<rparr>"
    using assms(1) by (auto simp: from_definitions_def split: sum.splits)
  have wf: "defstore_wf m" using m by (rule defstore_wf_from_definitions)
  have mem: "(td_id d, d) \<in> set m" using m assms(2) by (auto simp: defstore_from_definitions_Inr)
  then show "reg_def r (td_id d) = Some d" using wf by (simp add: r reg_def_def defstore_wf_def)
  have "d \<in> set (all_definitions_sorted m)" using mem by (force simp: set_all_definitions_sorted)
  with all_definitions_sorted_ids(2) [OF wf]
  show "\<exists>n m. reg_map r (td_id d) = Some (Tag_new n (initial_value m (td_data_type d)))"
    by (simp add: r reg_map_def populate_tags_initial store_wf_new)
qed

lemma from_definitions_dom:
  assumes "from_definitions clk defs = Inr r"
  shows "dom (reg_map r) = td_id ` set defs" and "dom (reg_def r) = td_id ` set defs"
proof -
  obtain m where m: "defstore_from_definitions defs = Inr m"
    and r: "r = \<lparr>reg_definitions = m,
      reg_tags = populate_tags clk 0 TagStore_new (all_definitions_sorted m)\<rparr>"
    using assms(1) by (auto simp: from_definitions_def split: sum.splits)
  have wf: "defstore_wf m" using m by (rule defstore_wf_from_definitions)
  have eq: "td_id ` set (all_definitions_sorted m) = td_id ` set defs"
    using m by (auto simp: set_all_definitions_sorted defstore_from_definitions_Inr image_image)
  show "dom (reg_map r) = td_id ` set defs"
    using populate_tags_dom [OF store_wf_new all_definitions_sorted_ids(2) [OF wf]] eq
    by (simp add: r reg_map_def store_map_new)
  show "dom (reg_def r) = td_id ` set defs"
    using m by (auto simp: r reg_def_def defstore_from_definitions_Inr dom_map_of_conv_image_fst
        image_image)
qed

lemma from_definitions_wf:
  assumes "from_definitions clk defs = Inr r"
  shows "reg_wf r"
proof -
  obtain m where m: "defstore_from_definitions defs = Inr m"
    and r: "r = \<lparr>reg_definitions = m,
      reg_tags = populate_tags clk 0 TagStore_new (all_definitions_sorted m)\<rparr>"
    using assms(1) by (auto simp: from_definitions_def split: sum.splits)
  have "reg_typed r"
    unfolding reg_typed_def
  proof (intro allI impI)
    fix tid t d assume t: "reg_map r tid = Some t" and d: "reg_def r tid = Some d"
    have "tid \<in> td_id ` set defs" using d from_definitions_dom(2) [OF assms] by blast
    then obtain e where e: "e \<in> set defs" "tid = td_id e" by auto
    with from_definitions_tag [OF assms e(1)] t d
    show "data_type (tag_value t) = td_data_type d" by (auto simp: Tag_new_def)
  qed
  moreover have "store_wf (reg_tags r)" by (simp add: r populate_tags_wf store_wf_new)
  moreover have "defstore_wf (reg_definitions r)"
    using m by (simp add: r defstore_wf_from_definitions)
  ultimately show ?thesis
    using from_definitions_dom [OF assms] by (simp add: reg_wf_def)
qed

section \<open>Operations as updates of the abstract state\<close>

lemma reg_definitions_upd [simp]:
  "reg_definitions (upd_val now r tid v q ts) = reg_definitions r"
  "reg_definitions (upd_qual now r tid q') = reg_definitions r"
  by (simp_all add: update_tag_value_def set_tag_quality_def split: sum.split prod.split)

lemma reg_def_upd [simp]:
  "reg_def (upd_val now r tid v q ts) = reg_def r"
  "reg_def (upd_qual now r tid q') = reg_def r"
  by (simp_all add: reg_def_def)

lemma reg_tags_upd:
  "reg_tags (upd_val now r tid v q ts) =
     (case reg_def r tid of
        None \<Rightarrow> reg_tags r
      | Some d \<Rightarrow> snd (update_value_with_expected now (reg_tags r) tid v q ts (td_data_type d)))"
  "reg_tags (upd_qual now r tid q') = snd (store_set_quality now (reg_tags r) tid q')"
  by (simp_all add: update_tag_value_def set_tag_quality_def defstore_get_def reg_def_def
      case_prod_beta split: option.split)

lemma from_definitions_ok:
  assumes "list_all valid_definition defs" and "distinct (map td_id defs)"
  shows "\<exists>r. from_definitions clk defs = Inr r \<and> reg_wf r"
proof -
  have "defstore_from_definitions defs = Inr (map (\<lambda>d. (td_id d, d)) defs)"
    using assms by (simp add: defstore_from_definitions_Inr list_all_iff)
  then obtain r where "from_definitions clk defs = Inr r" by (simp add: from_definitions_def)
  then show ?thesis using from_definitions_wf by blast
qed

lemma get_definition_def_map:
  "get_definition r tid = (case reg_def r tid of None \<Rightarrow> Inl (DefinitionNotFound tid) | Some d \<Rightarrow> Inr d)"
  by (simp add: get_definition_def defstore_get_def reg_def_def)

lemma get_tag_map:
  "get_tag r tid = (case reg_map r tid of None \<Rightarrow> Inl (TagNotFound tid) | Some t \<Rightarrow> Inr t)"
  by (simp add: get_tag_def store_get_map reg_map_def)

lemma reg_map_upd_val:
  assumes "store_wf (reg_tags r)"
  shows "reg_map (upd_val now r tid v q ts) =
    (case (reg_def r tid, reg_map r tid) of
       (Some d, Some t) \<Rightarrow>
         if data_type v = td_data_type d then (reg_map r)(tid \<mapsto> apply_read now t v q ts)
         else reg_map r
     | _ \<Rightarrow> reg_map r)"
  using assms
  by (simp add: reg_map_def reg_tags_upd update_value_refines(3) split: option.split)

lemma reg_map_upd_qual:
  assumes "store_wf (reg_tags r)"
  shows "reg_map (upd_qual now r tid q) =
    (case reg_map r tid of None \<Rightarrow> reg_map r
     | Some t \<Rightarrow> (reg_map r)(tid \<mapsto> tag_set_quality now t q))"
  using assms by (simp add: reg_map_def reg_tags_upd set_quality_refines(3) split: option.split)

lemma store_wf_upd [simp]:
  assumes "store_wf (reg_tags r)"
  shows "store_wf (reg_tags (upd_val now r tid v q ts))"
    and "store_wf (reg_tags (upd_qual now r tid q'))"
  using assms
  by (simp_all add: reg_tags_upd update_value_refines(1) set_quality_refines(1) split: option.split)

text \<open>The result of \<open>update_tag_value\<close> on every branch.\<close>

lemma update_tag_value_result:
  assumes "store_wf (reg_tags r)"
  shows "fst (update_tag_value now r tid v q ts) =
    (case reg_def r tid of
       None \<Rightarrow> Inl (DefinitionNotFound tid)
     | Some d \<Rightarrow>
         if data_type v \<noteq> td_data_type d then Inl (CoreTypeMismatch tid)
         else (case reg_map r tid of None \<Rightarrow> Inl (TagNotFound tid)
               | Some t \<Rightarrow> Inr (apply_read now t v q ts)))"
  using assms
  by (simp add: update_tag_value_def defstore_get_def reg_def_def reg_map_def case_prod_beta
      update_value_refines(2) split: option.split)

lemma upd_val_wf:
  assumes "reg_wf r"
  shows "reg_wf (upd_val now r tid v q ts)"
proof -
  have s: "store_wf (reg_tags r)" using assms by (simp add: reg_wf_def)
  have "reg_typed (upd_val now r tid v q ts)"
    using assms
    by (auto simp: reg_typed_def reg_wf_def reg_map_upd_val [OF s] apply_read_def
        split: option.splits if_splits)
  moreover have "dom (reg_map (upd_val now r tid v q ts)) = dom (reg_map r)"
    by (auto simp: reg_map_upd_val [OF s] split: option.splits if_splits)
  ultimately show ?thesis
    using assms s by (simp add: reg_wf_def)
qed

lemma upd_qual_wf:
  assumes "reg_wf r"
  shows "reg_wf (upd_qual now r tid q)"
proof -
  have s: "store_wf (reg_tags r)" using assms by (simp add: reg_wf_def)
  have "reg_typed (upd_qual now r tid q)"
    using assms
    by (auto simp: reg_typed_def reg_wf_def reg_map_upd_qual [OF s] tag_set_quality_def
        split: option.splits if_splits)
  moreover have "dom (reg_map (upd_qual now r tid q)) = dom (reg_map r)"
    by (auto simp: reg_map_upd_qual [OF s] split: option.splits if_splits)
  ultimately show ?thesis
    using assms s by (simp add: reg_wf_def)
qed

lemmas reg_upd_wf = upd_val_wf upd_qual_wf

section \<open>Sequences of operations\<close>

text \<open>The operations by which drivers, the stale check and the write path change a registry that is
  shared for the life of the program, each with the clock reading it makes.\<close>

inductive reg_step :: "TagRegistry \<Rightarrow> TagRegistry \<Rightarrow> bool" where
  update_value: "reg_step r (upd_val now r tid v q ts)"
| set_quality: "reg_step r (upd_qual now r tid q)"

inductive_cases reg_stepE: "reg_step r r'"

lemma reg_step_wf: "reg_step r r' \<Longrightarrow> reg_wf r \<Longrightarrow> reg_wf r'"
  by (auto elim!: reg_stepE intro: reg_upd_wf)

lemma reg_step_definitions: "reg_step r r' \<Longrightarrow> reg_definitions r' = reg_definitions r"
  by (auto elim!: reg_stepE)

lemma reg_steps_wf:
  assumes "reg_step\<^sup>*\<^sup>* r r'" and "reg_wf r"
  shows "reg_wf r' \<and> reg_definitions r' = reg_definitions r"
  using assms by (induction rule: rtranclp_induct) (auto simp: reg_step_wf reg_step_definitions)

section \<open>Properties\<close>

text \<open>C30: A registry is built exactly when the definitions are valid with distinct ids; then every defined
  tag, and no other, has a runtime tag, of quality \<open>Initializing\<close>, holding the zero value of its type,
  with equal source and server timestamps.\<close>

theorem from_definitions_spec:
  "if list_all valid_definition defs \<and> distinct (map td_id defs)
   then \<exists>r. from_definitions clk defs = Inr r \<and> reg_wf r
     \<and> list_ids_sorted r = sorted_list_of_set (td_id ` set defs)
     \<and> list_all (\<lambda>d. get_definition r (td_id d) = Inr d
         \<and> (\<exists>n m. get_tag r (td_id d) = Inr (Tag_new n (initial_value m (td_data_type d))))) defs
   else \<exists>msg. from_definitions clk defs = Inl (InvalidConfig msg)"
proof (cases "list_all valid_definition defs \<and> distinct (map td_id defs)")
  case True
  then obtain r where r: "from_definitions clk defs = Inr r" and wf: "reg_wf r"
    using from_definitions_ok by blast
  then have "list_ids_sorted r = sorted_list_of_set (dom (reg_map r))"
    using store.ids_eq_sorted_list by (simp add: list_ids_sorted_def reg_wf_def reg_map_def)
  then have "list_ids_sorted r = sorted_list_of_set (td_id ` set defs)"
    using from_definitions_dom(1) [OF r] by simp
  moreover have "list_all (\<lambda>d. get_definition r (td_id d) = Inr d
      \<and> (\<exists>n m. get_tag r (td_id d) = Inr (Tag_new n (initial_value m (td_data_type d))))) defs"
    using from_definitions_tag [OF r]
    by (fastforce simp: list_all_iff get_definition_def_map get_tag_map)
  ultimately show ?thesis using True r wf by auto
next
  case False
  then have "\<nexists>m. defstore_from_definitions defs = Inr m"
    by (auto simp: defstore_from_definitions_Inr list_all_iff)
  then obtain e where e: "from_definitions_loop [] defs = Inl e"
    by (cases "from_definitions_loop [] defs") (auto simp: defstore_from_definitions_def)
  show ?thesis
    using False from_definitions_loop_Inl [OF e] e
    by (auto simp: from_definitions_def defstore_from_definitions_def)
qed

text \<open>C17: Whatever sequence of value and quality updates runs on a registry built from definitions, with
  whatever ids, values and types, every tag keeps a value of its configured type, no tag appears or
  disappears, and the definitions stay as they were.\<close>

theorem registry_types_preserved:
  assumes "from_definitions clk defs = Inr r0" and "reg_step\<^sup>*\<^sup>* r0 r" and "d \<in> set defs"
  shows "get_definition r (td_id d) = Inr d
    \<and> (\<exists>t. get_tag r (td_id d) = Inr t \<and> data_type (tag_value t) = td_data_type d)
    \<and> list_ids_sorted r = list_ids_sorted r0"
proof -
  have wf0: "reg_wf r0" using assms(1) by (rule from_definitions_wf)
  with assms(2) have wf: "reg_wf r" and defs: "reg_definitions r = reg_definitions r0"
    using reg_steps_wf by blast+
  have d: "reg_def r (td_id d) = Some d"
    using from_definitions_tag(1) [OF assms(1,3)] by (simp add: reg_def_def defs)
  then obtain t where t: "reg_map r (td_id d) = Some t"
    using wf unfolding reg_wf_def by blast
  have "data_type (tag_value t) = td_data_type d"
    using wf t d unfolding reg_wf_def reg_typed_def by blast
  moreover have "dom (reg_map r) = dom (reg_map r0)"
    using wf wf0 defs by (simp add: reg_wf_def reg_def_def)
  then have "list_ids_sorted r = list_ids_sorted r0"
    using wf wf0 by (simp add: list_ids_sorted_def store.ids_eq_sorted_list reg_wf_def reg_map_def)
  ultimately show ?thesis
    using d t by (simp add: get_definition_def_map get_tag_map)
qed

definition example_definition :: TagDefinition where
  "example_definition = TagDefinition_new ''a'' ''Level'' ''40001'' TUInt16 ''plc''"

lemma example_definition_sel:
  "td_id example_definition = ''a''" "td_data_type example_definition = TUInt16"
  by (simp_all add: example_definition_def TagDefinition_new_def)

lemma example_from_definitions:
  "from_definitions (\<lambda>_. 1) [example_definition] = Inr
     \<lparr>reg_definitions = [(''a'', example_definition)],
      reg_tags = \<lparr>st_tags = [Tag_new 1 (VUInt16 0)], st_index = [(''a'', 0)],
                  st_sorted_ids = [''a''], st_subscribers = []\<rparr>\<rparr>"
  by code_simp

theorem registry_types_preserved_witness:
  "\<exists>r0 r t. from_definitions (\<lambda>_. 1) [example_definition] = Inr r0
     \<and> r = upd_val 3 r0 ''a'' (VUInt16 42) Good 2
     \<and> get_tag r ''a'' = Inr t \<and> data_type (tag_value t) = TUInt16"
proof -
  obtain r0 where r0: "from_definitions (\<lambda>_. 1) [example_definition] = Inr r0"
    using example_from_definitions by blast
  have "reg_step\<^sup>*\<^sup>* r0 (upd_val 3 r0 ''a'' (VUInt16 42) Good 2)"
    by (blast intro: reg_step.update_value)
  from registry_types_preserved [OF r0 this, of example_definition] r0 show ?thesis
    by (auto simp: example_definition_def TagDefinition_new_def)
qed

text \<open>\<open>update_tag_value\<close> on every branch: an undefined id and a value of another type than the
  configured one are errors that leave the registry unchanged; otherwise the tag gets exactly the
  value, quality and timestamps given, and no other tag changes.\<close>

lemma update_tag_value_spec:
  assumes "reg_wf r" and "update_tag_value now r tid v q ts = (res, r')"
  shows "(case get_definition r tid of
       Inl _ \<Rightarrow> res = Inl (DefinitionNotFound tid) \<and> reg_map r' = reg_map r
     | Inr d \<Rightarrow>
         if data_type v \<noteq> td_data_type d then res = Inl (CoreTypeMismatch tid) \<and> reg_map r' = reg_map r
         else \<exists>t. reg_map r tid = Some t \<and> res = Inr (apply_read now t v q ts)
           \<and> reg_map r' = (reg_map r)(tid \<mapsto> apply_read now t v q ts))"
proof -
  have s: "store_wf (reg_tags r)" using assms(1) by (simp add: reg_wf_def)
  have m: "reg_map r' = reg_map (upd_val now r tid v q ts)"
    and f: "res = fst (update_tag_value now r tid v q ts)" using assms(2) by simp_all
  have "\<exists>t. reg_map r tid = Some t" if "reg_def r tid = Some d" for d
    using assms(1) that unfolding reg_wf_def by blast
  then show ?thesis
    by (auto simp: m f reg_map_upd_val [OF s] update_tag_value_result [OF s] get_definition_def_map
        split: option.splits)
qed

lemma update_tag_value_spec_witness:
  "\<exists>r0. from_definitions (\<lambda>_. 1) [example_definition] = Inr r0 \<and> reg_wf r0
     \<and> fst (update_tag_value 3 r0 ''a'' (VBool True) Good 2) = Inl (CoreTypeMismatch ''a'')"
proof -
  obtain r0 where r0: "from_definitions (\<lambda>_. 1) [example_definition] = Inr r0"
    using example_from_definitions by blast
  have wf: "reg_wf r0" using r0 by (rule from_definitions_wf)
  have "get_definition r0 ''a'' = Inr example_definition"
    using r0 by (auto simp: example_from_definitions get_definition_def defstore_get_def)
  with update_tag_value_spec [OF wf surjective_pairing, of 3 "''a''" "VBool True" Good 2] r0 wf
  show ?thesis by (simp add: example_definition_def TagDefinition_new_def)
qed

text \<open>A registry with one tag, for evaluation.\<close>

definition example_registry :: TagRegistry where
  "example_registry =
     \<lparr>reg_definitions = [(''a'', example_definition)],
      reg_tags = \<lparr>st_tags = [Tag_new 1 (VUInt16 0)], st_index = [(''a'', 0)],
                  st_sorted_ids = [''a''], st_subscribers = []\<rparr>\<rparr>"

lemma example_registry_eq: "from_definitions (\<lambda>_. 1) [example_definition] = Inr example_registry"
  by (simp add: example_from_definitions example_registry_def)

lemma example_registry_wf: "reg_wf example_registry"
  using example_registry_eq by (rule from_definitions_wf)

end
