(* ===== verification/Control.thy ===== *)
theory Control
  imports Prelude
begin

text \<open>
  Control flow of the drivers' cycle functions.  A statement threads a state and either falls through
  (\<open>Next\<close>), leaves the enclosing loop (\<open>Break\<close>), returns an error from the function (\<open>Return\<close>),
  panics, or does not come back (the reconnect loop of an unreachable device).  A panic keeps the
  state it happened in, since the registry is shared with the rest of the program.
\<close>

datatype ('s, 'e) ctl = Next 's | Break 's | Return 's 'e | Panicked 's | Diverges

text \<open>Sequencing, and a \<open>for\<close> loop over a list.\<close>

fun ctl_bind :: "('s, 'e) ctl \<Rightarrow> ('s \<Rightarrow> ('s, 'e) ctl) \<Rightarrow> ('s, 'e) ctl" where
  "ctl_bind (Next s) f = f s"
| "ctl_bind c f = c"

fun for_each :: "('s \<Rightarrow> 'a \<Rightarrow> ('s, 'e) ctl) \<Rightarrow> 's \<Rightarrow> 'a list \<Rightarrow> ('s, 'e) ctl" where
  "for_each body s [] = Next s"
| "for_each body s (x # xs) =
     (case body s x of
        Next s' \<Rightarrow> for_each body s' xs
      | Break s' \<Rightarrow> Next s'
      | c \<Rightarrow> c)"

text \<open>\<open>ctl_all I\<close>: \<open>I\<close> holds of the state in whatever way the statement ends.\<close>

fun ctl_all :: "('s \<Rightarrow> bool) \<Rightarrow> ('s, 'e) ctl \<Rightarrow> bool" where
  "ctl_all I (Next s) = I s"
| "ctl_all I (Break s) = I s"
| "ctl_all I (Return s e) = I s"
| "ctl_all I (Panicked s) = I s"
| "ctl_all I Diverges = True"

fun ctl_state :: "('s, 'e) ctl \<Rightarrow> 's option" where
  "ctl_state (Next s) = Some s"
| "ctl_state (Break s) = Some s"
| "ctl_state (Return s e) = Some s"
| "ctl_state (Panicked s) = Some s"
| "ctl_state Diverges = None"

lemma ctl_all_state: "ctl_all I c \<longleftrightarrow> (\<forall>s. ctl_state c = Some s \<longrightarrow> I s)"
  by (cases c) auto

lemma ctl_all_bind [intro]:
  assumes "ctl_all I c" and "\<And>s. c = Next s \<Longrightarrow> I s \<Longrightarrow> ctl_all I (f s)"
  shows "ctl_all I (ctl_bind c f)"
  using assms by (cases c) auto

lemma ctl_all_for_each:
  assumes "\<And>s x. x \<in> set xs \<Longrightarrow> I s \<Longrightarrow> ctl_all I (body s x)" and "I s"
  shows "ctl_all I (for_each body s xs)"
  using assms
proof (induction xs arbitrary: s)
  case (Cons x xs)
  from Cons.prems have "ctl_all I (body s x)" by simp
  with Cons show ?case by (cases "body s x") auto
qed simp

text \<open>A loop whose body always falls through is a fold.\<close>

lemma for_each_Next:
  assumes "\<And>s x. x \<in> set xs \<Longrightarrow> body s x = Next (f s x)"
  shows "for_each body s xs = Next (foldl f s xs)"
  using assms by (induction xs arbitrary: s) auto

lemma ctl_all_mono: "ctl_all I c \<Longrightarrow> (\<And>s. I s \<Longrightarrow> J s) \<Longrightarrow> ctl_all J c"
  by (cases c) auto

text \<open>\<open>ctl_ret R\<close>: \<open>R\<close> holds of the state and the error when the statement returns early.\<close>

fun ctl_ret :: "('s \<Rightarrow> 'e \<Rightarrow> bool) \<Rightarrow> ('s, 'e) ctl \<Rightarrow> bool" where
  "ctl_ret R (Return s e) = R s e"
| "ctl_ret R c = True"

lemma ctl_ret_bind: "ctl_ret R c \<Longrightarrow> (\<And>s. c = Next s \<Longrightarrow> ctl_ret R (f s)) \<Longrightarrow> ctl_ret R (ctl_bind c f)"
  by (cases c) auto

lemma ctl_ret_for_each:
  assumes "\<And>s x. x \<in> set xs \<Longrightarrow> ctl_ret R (body s x)"
  shows "ctl_ret R (for_each body s xs)"
  using assms
proof (induction xs arbitrary: s)
  case (Cons x xs)
  then have "ctl_ret R (body s x)" by simp
  with Cons show ?case by (cases "body s x") auto
qed simp

text \<open>A loop whose every round falls through and adds to what is known of the state.\<close>

lemma for_each_collect:
  assumes "\<And>s x M. x \<in> set xs \<Longrightarrow> P s M \<Longrightarrow> \<exists>s'. body s x = Next s' \<and> P s' (M \<union> F x)" and "P s M"
  shows "\<exists>s'. for_each body s xs = Next s' \<and> P s' (M \<union> \<Union> (F ` set xs))"
  using assms
proof (induction xs arbitrary: s M)
  case (Cons x xs)
  from Cons.prems obtain s' where s': "body s x = Next s'" "P s' (M \<union> F x)" by fastforce
  with Cons.IH [OF Cons.prems(1) s'(2)] show ?case by (auto simp: Un_assoc)
qed simp

section \<open>Computations that may panic or not return\<close>

datatype 'a outcome = Value 'a | Panics | Loops

fun outcome_bind :: "'a outcome \<Rightarrow> ('a \<Rightarrow> 'b outcome) \<Rightarrow> 'b outcome" where
  "outcome_bind (Value x) f = f x"
| "outcome_bind Panics f = Panics"
| "outcome_bind Loops f = Loops"

lemma outcome_bind_Value: "outcome_bind c f = Value y \<longleftrightarrow> (\<exists>x. c = Value x \<and> f x = Value y)"
  by (cases c) auto

end
