(* ===== verification/Driver_State.thy ===== *)
theory Driver_State
  imports Registry Control
begin

text \<open>
  What the two drivers share: write requests with their reply channels (\<open>write_request.rs\<close> of each), the
  state of a driver (its registry, whether the connection slot is filled, a log of what it sent to its
  callers), and the effects of their cycles: setting a quality, publishing a value, answering a request,
  emitting a health event, reconnecting with backoff.  The shared facts are how an effect changes the
  registry (only by its typed operations) and what it appends to the replies.

  The clock and the network are parameters over an environment \<open>'e\<close>.  What \<open>try_recv\<close> returns, call
  by call, is an input, because other threads fill the queue while it is drained; an exhausted input is
  an empty queue.
\<close>

section \<open>Requests and state\<close>

text \<open>The reply channel of a request is named by a number.\<close>

record WriteRequest =
  wr_tag_id :: string
  wr_value :: TagValue
  wr_reply :: "nat option"

definition WriteRequest_new :: "string \<Rightarrow> TagValue \<Rightarrow> WriteRequest" where
  "WriteRequest_new tid v = \<lparr>wr_tag_id = tid, wr_value = v, wr_reply = None\<rparr>"

definition with_reply :: "WriteRequest \<Rightarrow> nat \<Rightarrow> WriteRequest" where
  "with_reply r tx = r\<lparr>wr_reply := Some tx\<rparr>"

definition take_reply :: "WriteRequest \<Rightarrow> nat option \<times> WriteRequest" where
  "take_reply r = (wr_reply r, r\<lparr>wr_reply := None\<rparr>)"

datatype drv_event = Reply nat "string + unit" | HealthSent json | Slept u64

record 'e drv_state =
  ds_registry :: TagRegistry
  ds_conn :: bool
  ds_health :: bool
  ds_env :: 'e
  ds_out :: "drv_event list"

datatype try_recv = Received WriteRequest | RecvEmpty | RecvDisconnected

section \<open>Effects\<close>

definition drv_emit :: "('e, 'z) drv_state_scheme \<Rightarrow> drv_event \<Rightarrow> ('e, 'z) drv_state_scheme" where
  "drv_emit s ev = s\<lparr>ds_out := ds_out s @ [ev]\<rparr>"

text \<open>\<open>let _ = self.registry.set_tag_quality(...)\<close>, which reads the clock.\<close>

definition drv_quality :: "('e \<Rightarrow> datetime \<times> 'e) \<Rightarrow> ('e, 'z) drv_state_scheme \<Rightarrow> string \<Rightarrow> TagQuality \<Rightarrow> ('e, 'z) drv_state_scheme" where
  "drv_quality clock s tid q =
     (case clock (ds_env s) of (now, e) \<Rightarrow>
        s\<lparr>ds_registry := upd_qual now (ds_registry s) tid q, ds_env := e\<rparr>)"

text \<open>\<open>let source_ts = Utc::now(); let _ = self.registry.update_tag_value(...)\<close>, which reads it again.\<close>

definition drv_value ::
  "('e \<Rightarrow> datetime \<times> 'e) \<Rightarrow> ('e, 'z) drv_state_scheme \<Rightarrow> string \<Rightarrow> TagValue \<Rightarrow> TagQuality \<Rightarrow> ('e, 'z) drv_state_scheme" where
  "drv_value clock s tid v q =
     (case clock (ds_env s) of (source_ts, e) \<Rightarrow>
      case clock e of (now, e') \<Rightarrow>
        s\<lparr>ds_registry := upd_val now (ds_registry s) tid v q source_ts, ds_env := e'\<rparr>)"

text \<open>\<open>if let Some(reply) = req.reply { let _ = reply.send(res); }\<close>.\<close>

definition drv_reply :: "('e, 'z) drv_state_scheme \<Rightarrow> WriteRequest \<Rightarrow> string + unit \<Rightarrow> ('e, 'z) drv_state_scheme" where
  "drv_reply s req res = (case wr_reply req of None \<Rightarrow> s | Some tx \<Rightarrow> drv_emit s (Reply tx res))"

definition health_json :: "string \<Rightarrow> string \<Rightarrow> string option \<Rightarrow> json" where
  "health_json plc status detail =
     (let message = (case detail of Some d \<Rightarrow> d | None \<Rightarrow> status)
      in JObject [(''plc'', JString plc), (''status'', JString status),
                  (''detail'', JObject [(''message'', JString message), (''data'', JNull)])])"

definition send_health_event ::
  "string \<Rightarrow> ('e, 'z) drv_state_scheme \<Rightarrow> string \<Rightarrow> string option \<Rightarrow> ('e, 'z) drv_state_scheme" where
  "send_health_event plc s status detail =
     (if ds_health s then drv_emit s (HealthSent (health_json plc status detail)) else s)"

text \<open>\<open>connect_with_backoff\<close>: \<open>None\<close> means that the loop does not end.\<close>

partial_function (option) connect_loop ::
  "('e \<Rightarrow> bool \<times> 'e) \<Rightarrow> u64 \<Rightarrow> u64 \<Rightarrow> ('e, 'z) drv_state_scheme \<Rightarrow> ('e, 'z) drv_state_scheme option" where
  "connect_loop connect max_backoff backoff s =
     (case connect (ds_env s) of (ok, e) \<Rightarrow>
        if ok then Some (s\<lparr>ds_env := e\<rparr>)
        else connect_loop connect max_backoff (min max_backoff (saturating_mul backoff 2))
               (drv_emit (s\<lparr>ds_env := e\<rparr>) (Slept backoff)))"

lemma connect_loop_frame:
  assumes "connect_loop connect mx b s = Some s'"
  shows "ds_registry s' = ds_registry s \<and> ds_conn s' = ds_conn s \<and> ds_health s' = ds_health s
    \<and> (\<exists>ts. ds_out s' = ds_out s @ map Slept ts)"
proof (rule connect_loop.raw_induct [where P = "\<lambda>connect mx b s s'.
      ds_registry s' = ds_registry s \<and> ds_conn s' = ds_conn s \<and> ds_health s' = ds_health s
      \<and> (\<exists>ts. ds_out s' = ds_out s @ map Slept ts)", OF _ assms])
  fix rec :: "('e \<Rightarrow> bool \<times> 'e) \<Rightarrow> u64 \<Rightarrow> u64 \<Rightarrow> ('e, 'z) drv_state_scheme \<Rightarrow> ('e, 'z) drv_state_scheme option" and connect mx b s s'
  assume IH: "\<And>connect mx b s s'. rec connect mx b s = Some s' \<Longrightarrow>
      ds_registry s' = ds_registry s \<and> ds_conn s' = ds_conn s \<and> ds_health s' = ds_health s
      \<and> (\<exists>ts. ds_out s' = ds_out s @ map Slept ts)"
    and step: "(case connect (ds_env s) of (ok, e) \<Rightarrow>
        if ok then Some (s\<lparr>ds_env := e\<rparr>)
        else rec connect mx (min mx (saturating_mul b 2)) (drv_emit (s\<lparr>ds_env := e\<rparr>) (Slept b))) = Some s'"
  show "ds_registry s' = ds_registry s \<and> ds_conn s' = ds_conn s \<and> ds_health s' = ds_health s
      \<and> (\<exists>ts. ds_out s' = ds_out s @ map Slept ts)"
  proof (cases "fst (connect (ds_env s))")
    case True
    then show ?thesis using step by (auto simp: case_prod_beta intro: exI [of _ "[]"])
  next
    case False
    then have "rec connect mx (min mx (saturating_mul b 2))
        (drv_emit (s\<lparr>ds_env := snd (connect (ds_env s))\<rparr>) (Slept b)) = Some s'"
      using step by (simp add: case_prod_beta)
    from IH [OF this] show ?thesis
      by (auto simp: drv_emit_def intro: exI [of _ "b # ts" for ts])
  qed
qed

section \<open>The registry changes only through its own operations\<close>

text \<open>Every statement of the cycle changes the registry by a sequence of value and quality updates;
  whatever these preserve, the cycle preserves, however it ends.\<close>

definition reg_evolves :: "TagRegistry \<Rightarrow> ('e, 'z) drv_state_scheme \<Rightarrow> bool" where
  "reg_evolves r s \<longleftrightarrow> reg_step\<^sup>*\<^sup>* r (ds_registry s)"

named_theorems evolves \<open>statements that change the registry by its own operations only\<close>

lemma reg_evolves_frame [evolves]:
  "reg_evolves r s \<Longrightarrow> reg_evolves r (s\<lparr>ds_conn := c\<rparr>)"
  "reg_evolves r s \<Longrightarrow> reg_evolves r (s\<lparr>ds_env := e\<rparr>)"
  "reg_evolves r s \<Longrightarrow> reg_evolves r (drv_emit s ev)"
  "reg_evolves r s \<Longrightarrow> reg_evolves r (drv_reply s req res)"
  "reg_evolves r s \<Longrightarrow> reg_evolves r (send_health_event plc s st d)"
  by (simp_all add: reg_evolves_def drv_emit_def drv_reply_def send_health_event_def split: option.split)

lemma reg_evolves_quality [evolves]: "reg_evolves r s \<Longrightarrow> reg_evolves r (drv_quality clock s tid q)"
  unfolding reg_evolves_def drv_quality_def
  by (auto split: prod.split intro: rtranclp.rtrancl_into_rtrancl reg_step.set_quality)

lemma reg_evolves_value [evolves]: "reg_evolves r s \<Longrightarrow> reg_evolves r (drv_value clock s tid v q)"
  unfolding reg_evolves_def drv_value_def
  by (auto split: prod.split intro: rtranclp.rtrancl_into_rtrancl reg_step.update_value)

section \<open>Selectors of the effects\<close>

lemma drv_reply_sel [simp]:
  "ds_registry (drv_reply s req res) = ds_registry s" "ds_conn (drv_reply s req res) = ds_conn s"
  "ds_env (drv_reply s req res) = ds_env s"
  by (simp_all add: drv_reply_def drv_emit_def split: option.split)

lemma drv_quality_sel [simp]:
  "ds_registry (drv_quality clock s tid q) = upd_qual (fst (clock (ds_env s))) (ds_registry s) tid q"
  "ds_conn (drv_quality clock s tid q) = ds_conn s"
  by (simp_all add: drv_quality_def case_prod_beta)

lemma drv_value_sel [simp]:
  "ds_registry (drv_value clock s tid v q) =
     upd_val (fst (clock (snd (clock (ds_env s))))) (ds_registry s) tid v q (fst (clock (ds_env s)))"
  "ds_conn (drv_value clock s tid v q) = ds_conn s"
  by (simp_all add: drv_value_def case_prod_beta)

section \<open>Replies\<close>

definition replies :: "('e, 'z) drv_state_scheme \<Rightarrow> (nat \<times> (string + unit)) list" where
  "replies s = List.map_filter (\<lambda>ev. case ev of Reply tx res \<Rightarrow> Some (tx, res) | _ \<Rightarrow> None) (ds_out s)"

definition reply_to :: "WriteRequest \<Rightarrow> string + unit \<Rightarrow> (nat \<times> (string + unit)) list" where
  "reply_to req res = (case wr_reply req of None \<Rightarrow> [] | Some tx \<Rightarrow> [(tx, res)])"

named_theorems reply_simps \<open>what a statement appends to the replies\<close>

lemma map_filter_append: "List.map_filter f (xs @ ys) = List.map_filter f xs @ List.map_filter f ys"
  by (simp add: List.map_filter_def)

lemma replies_frame [reply_simps]:
  "replies (s\<lparr>ds_conn := c\<rparr>) = replies s" "replies (s\<lparr>ds_env := e\<rparr>) = replies s"
  "replies (drv_quality clock s tid q) = replies s" "replies (drv_value clock s tid v q) = replies s"
  "replies (send_health_event plc s st d) = replies s"
  "replies (drv_reply s req res) = replies s @ reply_to req res"
  by (simp_all add: replies_def drv_quality_def drv_value_def send_health_event_def drv_emit_def
      drv_reply_def reply_to_def map_filter_append List.map_filter_simps case_prod_beta split: option.split)

text \<open>Whatever happens to a request, it gets at most one answer, and exactly one when it has a channel.\<close>

definition answered :: "('e, 'z) drv_state_scheme \<Rightarrow> WriteRequest \<Rightarrow> ('e, 'z) drv_state_scheme \<Rightarrow> bool" where
  "answered s req s' \<longleftrightarrow> (\<exists>res. replies s' = replies s @ reply_to req res)"

fun drained :: "try_recv list \<Rightarrow> WriteRequest list" where
  "drained (Received req # rs) = req # drained rs"
| "drained _ = []"

text \<open>The reply channels of a list of requests.\<close>

definition reply_ids :: "WriteRequest list \<Rightarrow> nat list" where
  "reply_ids reqs = concat (map (\<lambda>req. case wr_reply req of None \<Rightarrow> [] | Some tx \<Rightarrow> [tx]) reqs)"

lemma reply_ids_Nil [simp]: "reply_ids [] = []"
  by (simp add: reply_ids_def)

lemma reply_ids_Cons: "reply_ids (req # reqs) = map fst (reply_to req res) @ reply_ids reqs"
  by (simp add: reply_ids_def reply_to_def split: option.split)

section \<open>Draining the write queue\<close>

text \<open>\<open>for _ in 0..64 { match rx.try_recv() { ... } }\<close>, with the driver's treatment of one request.\<close>

definition drain :: "('s \<Rightarrow> WriteRequest \<Rightarrow> ('s, 'err) ctl) \<Rightarrow> 's \<Rightarrow> try_recv list \<Rightarrow> ('s, 'err) ctl" where
  "drain handle s recvs =
     for_each (\<lambda>s r. case r of
         Received req \<Rightarrow> handle s req
       | RecvEmpty \<Rightarrow> Break s
       | RecvDisconnected \<Rightarrow> Break s) s (take 64 recvs)"

lemma drain_evolves:
  assumes "\<And>s req. reg_evolves r s \<Longrightarrow> ctl_all (reg_evolves r) (handle s req)" and "reg_evolves r s"
  shows "ctl_all (reg_evolves r) (drain handle s recvs)"
  unfolding drain_def using assms by (intro ctl_all_for_each) (auto split: try_recv.split)

lemma drain_ret:
  assumes "\<And>s req. ctl_ret R (handle s req)"
  shows "ctl_ret R (drain handle s recvs)"
  unfolding drain_def using assms by (intro ctl_ret_for_each) (auto split: try_recv.split)

text \<open>The requests \<open>reqs\<close> are answered once each, in order: all of them when the loop falls through, and
  those up to the failing one when it returns early.\<close>

definition answers_prefix ::
  "('e, 'z) drv_state_scheme \<Rightarrow> WriteRequest list \<Rightarrow> (('e, 'z) drv_state_scheme, 'err) ctl \<Rightarrow> bool" where
  "answers_prefix s reqs c =
     (case c of
        Next s' \<Rightarrow> map fst (replies s') = map fst (replies s) @ reply_ids reqs
      | Return s' _ \<Rightarrow> \<exists>k < length reqs.
          map fst (replies s') = map fst (replies s) @ reply_ids (take (Suc k) reqs)
      | Diverges \<Rightarrow> True
      | _ \<Rightarrow> False)"

text \<open>The contract of a driver's treatment of one request: it answers it once, and does not leave the
  loop or panic.\<close>

locale write_handler =
  fixes handle :: "('e, 'z) drv_state_scheme \<Rightarrow> WriteRequest \<Rightarrow> (('e, 'z) drv_state_scheme, 'err) ctl"
  assumes answers: "ctl_all (answered s req) (handle s req)"
    and no_break: "handle s req \<noteq> Break s'" and no_panic: "handle s req \<noteq> Panicked s'"
begin

lemma loop_answers:
  "answers_prefix s (drained rs)
     (for_each (\<lambda>s r. case r of Received req \<Rightarrow> handle s req
        | RecvEmpty \<Rightarrow> Break s | RecvDisconnected \<Rightarrow> Break s) s rs)"
proof (induction rs arbitrary: s)
  case (Cons r rs)
  show ?case
  proof (cases r)
    case (Received req)
    show ?thesis
    proof (cases "handle s req")
      case (Next s')
      then obtain res where "replies s' = replies s @ reply_to req res"
        using answers [of s req] by (auto simp: answered_def)
      then show ?thesis
        using Cons.IH [of s'] Next Received reply_ids_Cons [of req _ res] unfolding answers_prefix_def
        by (auto split: ctl.splits intro: exI [of _ "Suc k" for k])
    next
      case (Return s' e)
      then obtain res where "replies s' = replies s @ reply_to req res"
        using answers [of s req] by (auto simp: answered_def)
      then show ?thesis using Return Received
        reply_ids_Cons [of req _ res] by (auto simp: answers_prefix_def intro!: exI [of _ 0])
    qed (use Received no_break no_panic in \<open>auto simp: answers_prefix_def\<close>)
  qed (simp_all add: answers_prefix_def)
qed (simp add: answers_prefix_def)

lemma drain_answers: "answers_prefix s (drained (take 64 recvs)) (drain handle s recvs)"
  unfolding drain_def by (rule loop_answers)

end

section \<open>Reconnecting\<close>

lemma reg_evolves_connect_loop:
  "connect_loop connect mx b s = Some s' \<Longrightarrow> reg_evolves r s \<Longrightarrow> reg_evolves r s'"
  using connect_loop_frame by (fastforce simp: reg_evolves_def)

lemma replies_connect_loop:
  assumes "connect_loop connect mx b s = Some s'"
  shows "replies s' = replies s"
proof -
  obtain ts where "ds_out s' = ds_out s @ map Slept ts"
    using connect_loop_frame [OF assms] by blast
  moreover have "List.map_filter (\<lambda>ev. case ev of Reply tx res \<Rightarrow> Some (tx, res) | _ \<Rightarrow> None)
      (map Slept ts) = []"
    by (induction ts) (simp_all add: List.map_filter_simps)
  ultimately show ?thesis by (simp add: replies_def map_filter_append)
qed

text \<open>The delays before \<open>n\<close> retries, and the environment after \<open>n\<close> failed attempts.\<close>

fun backoffs :: "u64 \<Rightarrow> u64 \<Rightarrow> nat \<Rightarrow> u64 list" where
  "backoffs mx b 0 = []"
| "backoffs mx b (Suc n) = b # backoffs mx (min mx (saturating_mul b 2)) n"

fun attempts :: "('e \<Rightarrow> bool \<times> 'e) \<Rightarrow> nat \<Rightarrow> 'e \<Rightarrow> 'e" where
  "attempts connect 0 e = e"
| "attempts connect (Suc n) e = attempts connect n (snd (connect e))"

lemma connect_loop_returns:
  assumes "\<forall>k < n. \<not> fst (connect (attempts connect k (ds_env s)))"
    and "fst (connect (attempts connect n (ds_env s)))"
  shows "connect_loop connect mx b s = Some (s\<lparr>ds_env := attempts connect (Suc n) (ds_env s),
    ds_out := ds_out s @ map Slept (backoffs mx b n)\<rparr>)"
  using assms
proof (induction n arbitrary: b s)
  case 0
  then show ?case by (simp add: connect_loop.simps [of connect mx b s] case_prod_beta)
next
  case (Suc n)
  let ?s = "drv_emit (s\<lparr>ds_env := snd (connect (ds_env s))\<rparr>) (Slept b)"
  have env: "ds_env ?s = snd (connect (ds_env s))" by (simp add: drv_emit_def)
  have "\<forall>k < n. \<not> fst (connect (attempts connect k (ds_env ?s)))"
    using Suc.prems(1) unfolding env by (metis Suc_mono attempts.simps(2))
  moreover have "fst (connect (attempts connect n (ds_env ?s)))" using Suc.prems(2) by (simp add: env)
  ultimately have "connect_loop connect mx (min mx (saturating_mul b 2)) ?s = Some (?s\<lparr>ds_env := attempts connect (Suc n) (ds_env ?s),
      ds_out := ds_out ?s @ map Slept (backoffs mx (min mx (saturating_mul b 2)) n)\<rparr>)"
    by (rule Suc.IH)
  moreover have "\<not> fst (connect (ds_env s))" using Suc.prems(1) [rule_format, of 0] by simp
  ultimately show ?case
    by (subst connect_loop.simps) (simp add: case_prod_beta drv_emit_def)
qed

text \<open>The delays double from one second and stay at the maximum once they reach it.\<close>

lemma unat_saturating_mul_2: "unat (saturating_mul (b :: u64) 2) = min (2 * unat b) (2 ^ 64 - 1)"
proof (cases "unat b * 2 < 2 ^ 64")
  case True
  then have "unat (b * 2) = unat b * 2" by (simp add: unat_word_ariths)
  then show ?thesis using True by (simp add: saturating_mul_def)
next
  case False
  then show ?thesis by (simp add: saturating_mul_def unsigned_minus_1_eq_mask mask_eq_exp_minus_1)
qed

lemma capped_double:
  fixes c b m :: nat
  assumes "1 \<le> c"
  shows "min (min (2 * b) m * c) m = min (b * (2 * c)) m"
proof (cases "2 * b \<le> m")
  case False
  have "m \<le> m * c" using assms by simp
  moreover have "b * 2 * 1 \<le> b * 2 * c" using assms by (intro mult_le_mono) auto
  then have "m \<le> b * (2 * c)" using False by (simp only: mult.assoc)
  moreover have "min (2 * b) m = m" using False by simp
  ultimately show ?thesis by (simp only: min_absorb2)
qed (simp add: ac_simps)

lemma backoffs_nth:
  assumes "k < n" and "b \<le> mx"
  shows "unat (backoffs mx b n ! k) = min (unat b * 2 ^ k) (unat mx)"
  using assms
proof (induction n arbitrary: b k)
  case (Suc n)
  show ?case
  proof (cases k)
    case 0
    then show ?thesis using Suc.prems(2) by (simp add: word_le_nat_alt)
  next
    case (Suc j)
    have "unat mx \<le> 2 ^ 64 - 1" using unsigned_less [of mx, where 'a = nat] by simp
    then have d: "unat (min mx (saturating_mul b 2)) = min (2 * unat b) (unat mx)"
      by (auto simp: min_def word_le_nat_alt unat_saturating_mul_2)
    have "unat (backoffs mx (min mx (saturating_mul b 2)) n ! j)
        = min (min (2 * unat b) (unat mx) * 2 ^ j) (unat mx)"
      using Suc.IH [of j "min mx (saturating_mul b 2)"] Suc Suc.prems by (simp add: d)
    also have "\<dots> = min (unat b * 2 ^ k) (unat mx)"
      using capped_double [of "2 ^ j" "unat b" "unat mx"] by (simp add: Suc ac_simps)
    finally show ?thesis by (simp add: Suc)
  qed
qed simp

lemma length_backoffs [simp]: "length (backoffs mx b n) = n"
  by (induction n arbitrary: b) auto

section \<open>Published values\<close>

text \<open>A well-formed registry over fixed definitions, and a tag that shows a value as \<open>Good\<close>.\<close>

definition over :: "TagDefinitionStore \<Rightarrow> ('e, 'z) drv_state_scheme \<Rightarrow> bool" where
  "over D s \<longleftrightarrow> reg_wf (ds_registry s) \<and> reg_definitions (ds_registry s) = D"

definition shows_tag :: "('e, 'z) drv_state_scheme \<Rightarrow> string \<Rightarrow> TagValue \<Rightarrow> bool" where
  "shows_tag s tid v \<longleftrightarrow>
     (\<exists>t. reg_map (ds_registry s) tid = Some t \<and> tag_value t = v \<and> tag_quality t = Good)"

lemma over_value: "over D s \<Longrightarrow> over D (drv_value clock s tid v q)"
  by (simp add: over_def upd_val_wf)

lemma shows_tag_set:
  assumes "over D s" and "reg_def (ds_registry s) tid = Some d" and "td_data_type d = data_type v"
  shows "shows_tag (drv_value clock s tid v Good) tid v"
proof -
  have st: "store_wf (reg_tags (ds_registry s))" using assms(1) by (simp add: over_def reg_wf_def)
  obtain t where "reg_map (ds_registry s) tid = Some t"
    using assms(1,2) unfolding over_def reg_wf_def by blast
  with assms(2,3) show ?thesis
    by (simp add: shows_tag_def reg_map_upd_val [OF st] apply_read_def)
qed

lemma shows_tag_other:
  assumes "over D s" and "tid' \<noteq> tid" and "shows_tag s tid' w"
  shows "shows_tag (drv_value clock s tid v q) tid' w"
proof -
  have st: "store_wf (reg_tags (ds_registry s))" using assms(1) by (simp add: over_def reg_wf_def)
  show ?thesis using assms(2,3)
    by (auto simp: shows_tag_def reg_map_upd_val [OF st] split: option.split)
qed

text \<open>The mappings of \<open>M\<close> show the values that \<open>val\<close> gives them.\<close>

definition publishes ::
  "TagDefinitionStore \<Rightarrow> ('m \<Rightarrow> string) \<Rightarrow> ('m \<Rightarrow> TagValue option) \<Rightarrow> 'm set \<Rightarrow> ('e, 'z) drv_state_scheme \<Rightarrow> 'm set \<Rightarrow> bool" where
  "publishes D tid_of val U s M \<longleftrightarrow>
     over D s \<and> M \<subseteq> U \<and> (\<forall>m \<in> M. \<forall>v. val m = Some v \<longrightarrow> shows_tag s (tid_of m) v)"

lemma publishes_frame [simp]:
  "publishes D tid_of val U (s\<lparr>ds_env := e\<rparr>) M = publishes D tid_of val U s M"
  "publishes D tid_of val U (s\<lparr>ds_conn := c\<rparr>) M = publishes D tid_of val U s M"
  by (simp_all add: publishes_def over_def shows_tag_def)

lemma publishes_value:
  assumes "publishes D tid_of val U s M" and "inj_on tid_of U" and "m \<in> U" and "val m = Some v"
    and "reg_def (ds_registry s) (tid_of m) = Some d" and "td_data_type d = data_type v"
  shows "publishes D tid_of val U (drv_value clock s (tid_of m) v Good) (M \<union> {m})"
proof -
  have over: "over D s" and sub: "M \<subseteq> U" using assms(1) by (simp_all add: publishes_def)
  have "shows_tag (drv_value clock s (tid_of m) v Good) (tid_of m') v'"
    if "m' \<in> M \<union> {m}" "val m' = Some v'" for m' v'
  proof (cases "m' = m")
    case True
    then show ?thesis using that(2) assms(4) shows_tag_set [OF over assms(5,6)] by simp
  next
    case False
    then have "tid_of m' \<noteq> tid_of m" using assms(2,3) sub that(1) by (auto simp: inj_on_def)
    then show ?thesis
      using that False assms(1) by (auto simp: publishes_def intro: shows_tag_other [OF over])
  qed
  then show ?thesis using sub assms(3) over_value [OF over] by (simp add: publishes_def)
qed

end
