(* ===== verification/Modbus_Codec.thy ===== *)
theory Modbus_Codec
  imports Driver_State
begin

text \<open>
  The data of \<open>src/driver/modbus/src/\<close> (\<open>errors.rs\<close>, \<open>mapping.rs\<close>, \<open>config.rs\<close>,
  \<open>write_request.rs\<close>) and the conversions of \<open>driver.rs\<close> between register words, bytes and tag
  values.  The main result is the round trip: what the write path sends for a value decodes, on the
  read path of the same mapping, to that value (\<open>stored_form\<close> says what the device representation
  loses: the part of an instant below a millisecond, the padding of an odd byte string, trailing NUL
  characters).
\<close>

section \<open>Errors, mappings, configuration, write requests\<close>

datatype DriverError =
    DIo string
  | DModbus string
  | DTimeout
  | DMapping string
  | DOther string

fun DriverError_display :: "DriverError \<Rightarrow> string" where
  "DriverError_display (DIo s) = ''IO/network error: '' @ s"
| "DriverError_display (DModbus s) = ''Modbus protocol error: '' @ s"
| "DriverError_display DTimeout = ''Timeout''"
| "DriverError_display (DMapping s) = ''Mapping error: '' @ s"
| "DriverError_display (DOther s) = ''Other: '' @ s"

datatype ModbusFunction = Coils | DiscreteInputs | HoldingRegisters | InputRegisters

fun ModbusFunction_display :: "ModbusFunction \<Rightarrow> string" where
  "ModbusFunction_display Coils = ''Coils''"
| "ModbusFunction_display DiscreteInputs = ''DiscreteInputs''"
| "ModbusFunction_display HoldingRegisters = ''HoldingRegisters''"
| "ModbusFunction_display InputRegisters = ''InputRegisters''"

record ModbusMapping =
  mm_tag_id :: string
  mm_data_type :: TagDataType
  mm_address :: u16
  mm_quantity :: u16
  mm_function :: ModbusFunction
  mm_bit_offset :: u8
  mm_writable :: bool
  mm_byte_order :: WordOrder

definition ModbusMapping_new ::
  "string \<Rightarrow> u16 \<Rightarrow> u16 \<Rightarrow> ModbusFunction \<Rightarrow> TagDataType \<Rightarrow> u8 \<Rightarrow> bool \<Rightarrow> WordOrder \<Rightarrow> ModbusMapping"
  where
  "ModbusMapping_new tid address quantity func dt bit_offset writable byte_order =
     \<lparr>mm_tag_id = tid, mm_data_type = dt, mm_address = address, mm_quantity = quantity,
      mm_function = func, mm_bit_offset = bit_offset, mm_writable = writable,
      mm_byte_order = byte_order\<rparr>"

text \<open>The socket address is opaque to the driver; it is kept in its textual form.\<close>

record ModbusConfig =
  mc_name :: string
  mc_endpoint :: string
  mc_unit_id :: u8
  mc_cycle_ms :: u64
  mc_mappings :: "ModbusMapping list"
  mc_keepalive_secs :: u64
  mc_max_backoff_secs :: u64
  mc_io_timeout_ms :: u64

definition ModbusConfig_new ::
  "string \<Rightarrow> string \<Rightarrow> u8 \<Rightarrow> u64 \<Rightarrow> ModbusMapping list \<Rightarrow> ModbusConfig" where
  "ModbusConfig_new name endpoint unit_id cycle_ms mappings =
     \<lparr>mc_name = name, mc_endpoint = endpoint, mc_unit_id = unit_id, mc_cycle_ms = cycle_ms,
      mc_mappings = mappings, mc_keepalive_secs = 30, mc_max_backoff_secs = 30,
      mc_io_timeout_ms = 2000\<rparr>"

section \<open>Registers and bytes\<close>

fun registers_to_bytes :: "u16 list \<Rightarrow> u8 list" where
  "registers_to_bytes [] = []"
| "registers_to_bytes (r # rs) = word_hi r # word_lo r # registers_to_bytes rs"

lemma length_registers_to_bytes [simp]: "length (registers_to_bytes rs) = 2 * length rs"
  by (induction rs) auto

lemma words_of_registers_to_bytes [simp]: "words_of_bytes (registers_to_bytes rs) = rs"
  by (induction rs) (auto simp: byte_simps)

lemma registers_to_bytes_words [simp]:
  "even (length bs) \<Longrightarrow> registers_to_bytes (words_of_bytes bs) = bs"
  by (induction bs rule: words_of_bytes.induct) (auto simp: byte_simps)

text \<open>\<open>w >> n\<close> on a \<open>u16\<close>: a shift of 16 or more panics in the debug profile and is taken modulo 16
  in the release profile.\<close>

definition shr_ck :: "profile \<Rightarrow> u16 \<Rightarrow> u8 \<Rightarrow> u16 option" where
  "shr_ck p w n =
     (if unat n < 16 then Some (drop_bit (unat n) w)
      else if p = Debug then None else Some (drop_bit (unat n mod 16) w))"

datatype 'a decoded = Decoded 'a | DecodeError DriverError | DecodePanic

text \<open>\<open>from_timestamp_millis(ms).unwrap_or(UNIX_EPOCH)\<close> on the first eight bytes.\<close>

definition read_millis :: "crates \<Rightarrow> u8 list \<Rightarrow> datetime" where
  "read_millis cr bytes =
     (let ms = (case read_i64 cr (take 8 bytes) of None \<Rightarrow> 0 | Some (v, _) \<Rightarrow> v)
      in case from_timestamp_millis cr (sint ms) of None \<Rightarrow> 0 | Some dt \<Rightarrow> dt)"

definition read_four :: "crates \<Rightarrow> u8 list \<Rightarrow> u64" where
  "read_four cr bytes =
     (let (w0, c0) = read_u16_or0 cr bytes; (w1, c1) = read_u16_or0 cr c0;
          (w2, c2) = read_u16_or0 cr c1; (w3, c3) = read_u16_or0 cr c2
      in be64 w0 w1 w2 w3)"

definition read_two :: "crates \<Rightarrow> u8 list \<Rightarrow> u32" where
  "read_two cr bytes =
     (let (hi, c0) = read_u16_or0 cr bytes; (lo, c1) = read_u16_or0 cr c0 in be32 hi lo)"

definition decode_bytes_to_tagvalue ::
  "profile \<Rightarrow> crates \<Rightarrow> TagDataType \<Rightarrow> u8 list \<Rightarrow> ModbusFunction \<Rightarrow> u8 \<Rightarrow> TagValue decoded" where
  "decode_bytes_to_tagvalue p cr dt bytes func bit_offset =
     (case dt of
        TBool \<Rightarrow>
          (case shr_ck p (fst (read_u16_or0 cr bytes)) bit_offset of
             None \<Rightarrow> DecodePanic
           | Some x \<Rightarrow> Decoded (VBool (x AND 1 \<noteq> 0)))
      | TUInt16 \<Rightarrow> Decoded (VUInt16 (fst (read_u16_or0 cr bytes)))
      | TInt16 \<Rightarrow> Decoded (VInt16 (case read_i16 cr bytes of None \<Rightarrow> 0 | Some (v, _) \<Rightarrow> v))
      | TUInt32 \<Rightarrow> Decoded (VUInt32 (read_two cr bytes))
      | TInt32 \<Rightarrow> Decoded (VInt32 (read_two cr bytes))
      | TFloat \<Rightarrow> Decoded (VFloat (read_two cr bytes))
      | TDouble \<Rightarrow> Decoded (VDouble (read_four cr bytes))
      | TInt64 \<Rightarrow> Decoded (VInt64 (read_four cr bytes))
      | TUInt64 \<Rightarrow> Decoded (VUInt64 (read_four cr bytes))
      | TDateTime \<Rightarrow>
          if length bytes \<ge> 8 then Decoded (VDateTime (read_millis cr bytes))
          else (case from_utf8 bytes of
              None \<Rightarrow> DecodeError (DOther ''Not enough data for DateTime and not valid UTF-8'')
            | Some s \<Rightarrow>
                (case parse_from_rfc3339 cr s of
                   None \<Rightarrow> DecodeError (DOther ''Invalid DateTime format'')
                 | Some d \<Rightarrow> Decoded (VDateTime d)))
      | TByteString \<Rightarrow> Decoded (VByteString bytes)
      | TString \<Rightarrow>
          Decoded (VString (case from_utf8 bytes of
              Some st \<Rightarrow> trim_end_nul st
            | None \<Rightarrow> concat (map hex2 bytes))))"

section \<open>Values to registers\<close>

definition u32_words :: "u32 \<Rightarrow> u16 list" where
  "u32_words v = [ucast (drop_bit 16 v AND 0xFFFF), ucast (v AND 0xFFFF)]"

definition u64_words :: "u64 \<Rightarrow> u16 list" where
  "u64_words v =
     [ucast (drop_bit 48 v AND 0xFFFF), ucast (drop_bit 32 v AND 0xFFFF),
      ucast (drop_bit 16 v AND 0xFFFF), ucast (v AND 0xFFFF)]"

definition pad_even :: "u8 list \<Rightarrow> u8 list" where
  "pad_even bs = (if length bs mod 2 \<noteq> 0 then bs @ [0] else bs)"

text \<open>\<open>for chunk in bytes.chunks(2)\<close> on an even number of bytes: \<open>(chunk[0] << 8) | chunk[1]\<close>.\<close>

fun chunk_words :: "u8 list \<Rightarrow> u16 list" where
  "chunk_words (a # b # r) = (push_bit 8 (ucast a) OR ucast b) # chunk_words r"
| "chunk_words _ = []"

definition tagvalue_to_registers :: "crates \<Rightarrow> TagValue \<Rightarrow> DriverError + u16 list" where
  "tagvalue_to_registers cr v =
     (case v of
        VBool b \<Rightarrow> Inr [if b then 1 else 0]
      | VUInt16 x \<Rightarrow> Inr [x]
      | VInt16 x \<Rightarrow> Inr [x]
      | VUInt32 x \<Rightarrow> Inr (u32_words x)
      | VInt32 x \<Rightarrow> Inr (u32_words x)
      | VFloat bits \<Rightarrow> Inr (u32_words bits)
      | VDouble bits \<Rightarrow> Inr (u64_words bits)
      | VUInt64 x \<Rightarrow> Inr (u64_words x)
      | VInt64 x \<Rightarrow> Inr (u64_words x)
      | VDateTime dt \<Rightarrow> Inr (u64_words (word_of_int (timestamp_millis cr dt)))
      | VByteString b \<Rightarrow> Inr (chunk_words (pad_even b))
      | VString s \<Rightarrow> Inr (chunk_words (pad_even (as_bytes s))))"

text \<open>The write path between the conversion and the request: standard words to bytes, the mapping's
  byte order, and back to words (\<open>run_read_cycle_impl\<close>).\<close>

definition ordered_write_words :: "crates \<Rightarrow> WordOrder \<Rightarrow> u16 list \<Rightarrow> u16 list" where
  "ordered_write_words cr ord words = read_words cr (apply_byte_order (registers_to_bytes words) ord)"

section \<open>Round trip\<close>

lemma chunk_words_eq: "chunk_words bs = words_of_bytes bs"
  by (induction bs rule: chunk_words.induct) (auto simp: be16_def)

lemma even_pad_even [simp]: "even (length (pad_even bs))"
  by (auto simp: pad_even_def mod2_eq_if)

lemma tagvalue_to_registers_total: "\<exists>ws. tagvalue_to_registers cr v = Inr ws"
  by (cases v) (auto simp: tagvalue_to_registers_def)

text \<open>Reading the written registers through the same byte order gives the standard bytes back.\<close>

lemma ordered_write_words_read:
  assumes "byteorder_laws cr"
  shows "apply_byte_order (registers_to_bytes (ordered_write_words cr ord ws)) ord
    = registers_to_bytes ws"
  using assms by (simp add: ordered_write_words_def read_words_eq)

lemma length_ordered_write_words:
  assumes "byteorder_laws cr"
  shows "length (ordered_write_words cr ord ws) = length ws"
proof -
  have "length (registers_to_bytes (ordered_write_words cr ord ws)) = length (registers_to_bytes ws)"
    using arg_cong [OF ordered_write_words_read [OF assms, of ord ws], of length] by simp
  then show ?thesis by simp
qed

lemma take_registers_to_bytes: "take (2 * n) (registers_to_bytes rs) = registers_to_bytes (take n rs)"
proof (induction rs arbitrary: n)
  case (Cons r rs)
  then show ?case by (cases n) auto
qed simp

lemma drop_registers_to_bytes: "drop (2 * n) (registers_to_bytes rs) = registers_to_bytes (drop n rs)"
proof (induction rs arbitrary: n)
  case (Cons r rs)
  then show ?case by (cases n) auto
qed simp

text \<open>What remains of a value on the device.\<close>

definition stored_form :: "TagValue \<Rightarrow> TagValue" where
  "stored_form v =
     (case v of
        VDateTime dt \<Rightarrow> VDateTime (dt div 1000000 * 1000000)
      | VByteString b \<Rightarrow> VByteString (pad_even b)
      | VString s \<Rightarrow> VString (trim_end_nul s)
      | _ \<Rightarrow> v)"

text \<open>The values that exist at run time: strings are UTF-8, instants are representable.\<close>

definition value_ok :: "crates \<Rightarrow> TagValue \<Rightarrow> bool" where
  "value_ok cr v =
     (case v of VDateTime dt \<Rightarrow> representable cr dt | VString s \<Rightarrow> valid_str s | _ \<Rightarrow> True)"

lemma read_two_words:
  assumes "byteorder_laws cr"
  shows "read_two cr (registers_to_bytes (u32_words v)) = v"
  by (simp add: read_two_def read_u16_or0_def u32_words_def byte_simps byteorder_laws_simps [OF assms])

lemma read_four_words:
  assumes "byteorder_laws cr"
  shows "read_four cr (registers_to_bytes (u64_words v)) = v"
  by (simp add: read_four_def read_u16_or0_def u64_words_def byte_simps byteorder_laws_simps [OF assms])

lemma sint_word_of_int_i64: "- (2 ^ 63) \<le> k \<Longrightarrow> k < 2 ^ 63 \<Longrightarrow> sint (word_of_int k :: i64) = k"
  by (simp add: signed_of_int signed_take_bit_int_eq_self)

lemma read_millis_words:
  assumes "byteorder_laws cr" and "chrono_laws cr" and "representable cr dt"
  shows "read_millis cr (registers_to_bytes (u64_words (word_of_int (timestamp_millis cr dt))))
    = dt div 1000000 * 1000000"
proof -
  have r: "- (2 ^ 63) \<le> timestamp_millis cr dt" "timestamp_millis cr dt < 2 ^ 63"
    "from_timestamp_millis cr (timestamp_millis cr dt) = Some (dt div 1000000 * 1000000)"
    using assms(2,3) by (auto simp: chrono_laws_def)
  have "read_i64 cr (take 8 (registers_to_bytes (u64_words w))) = Some (w, [])" for w
    by (simp add: u64_words_def byte_simps byteorder_laws_simps [OF assms(1)])
  then show ?thesis
    using r by (simp add: read_millis_def Let_def sint_word_of_int_i64)
qed

lemma pad_even_string:
  assumes "valid_str s"
  shows "from_utf8 (pad_even (as_bytes s)) = Some (if even (length s) then s else s @ [CHR 0x00])"
proof -
  have "utf8_valid (as_bytes s @ [0])" using assms by (simp add: valid_str_def utf8_valid_append)
  moreover have "char_of_byte 0 = CHR 0x00" by (simp add: char_of_byte_def char_of_def)
  ultimately show ?thesis
    using assms by (auto simp: pad_even_def from_utf8_def valid_str_def even_iff_mod_2_eq_zero)
qed

lemma decode_standard_bytes:
  assumes "byteorder_laws cr" and "chrono_laws cr" and "value_ok cr v"
    and "tagvalue_to_registers cr v = Inr ws"
  shows "decode_bytes_to_tagvalue p cr (data_type v) (registers_to_bytes ws) func 0
    = Decoded (stored_form v)"
proof (cases v)
  case (VBool b)
  then show ?thesis using assms
    by (cases b) (auto simp: tagvalue_to_registers_def decode_bytes_to_tagvalue_def
        read_u16_or0_def byte_simps byteorder_laws_simps [OF assms(1)] shr_ck_def stored_form_def)
next
  case (VDateTime dt)
  then show ?thesis using assms read_millis_words [OF assms(1,2)]
    by (auto simp: tagvalue_to_registers_def decode_bytes_to_tagvalue_def stored_form_def
        value_ok_def u64_words_def [THEN arg_cong [where f = length]])
next
  case (VString s)
  then have ws: "registers_to_bytes ws = pad_even (as_bytes s)" and s: "valid_str s"
    using assms by (auto simp: tagvalue_to_registers_def chunk_words_eq value_ok_def)
  show ?thesis
    using VString by (simp add: ws decode_bytes_to_tagvalue_def pad_even_string [OF s] stored_form_def)
qed (use assms in \<open>auto simp: tagvalue_to_registers_def decode_bytes_to_tagvalue_def
    read_u16_or0_def byte_simps byteorder_laws_simps [OF assms(1)] stored_form_def
    read_two_words read_four_words chunk_words_eq\<close>)

section \<open>The contract of a register codec\<close>

text \<open>Both drivers turn a value into standard words, put the words on the wire in the byte order of the
  mapping, and decode what they read back through the same byte order.  From the round trip on the
  standard bytes, which each driver's conversion functions satisfy, the one on the wire follows.\<close>

locale register_codec =
  fixes cr :: crates
    and to_words :: "TagValue \<Rightarrow> u16 list"
    and decode :: "TagDataType \<Rightarrow> u8 list \<Rightarrow> TagValue option"
    and ok :: "TagValue \<Rightarrow> bool"
  assumes ok_laws: "ok v \<Longrightarrow> byteorder_laws cr"
    and standard: "ok v \<Longrightarrow> decode (data_type v) (registers_to_bytes (to_words v)) = Some (stored_form v)"
begin

lemma wire_round_trip:
  "ok v \<Longrightarrow> decode (data_type v)
     (apply_byte_order (registers_to_bytes (ordered_write_words cr ord (to_words v))) ord) = Some (stored_form v)"
  by (simp add: ordered_write_words_read [OF ok_laws] standard)

lemma wire_length: "ok v \<Longrightarrow> length (ordered_write_words cr ord (to_words v)) = length (to_words v)"
  by (rule length_ordered_write_words [OF ok_laws])

text \<open>Distinct stored forms of one type have distinct registers on the wire.\<close>

lemma wire_injective:
  assumes "ok v" and "ok w" and "data_type v = data_type w"
    and "ordered_write_words cr ord (to_words v) = ordered_write_words cr ord (to_words w)"
  shows "stored_form v = stored_form w"
  using wire_round_trip [OF assms(1), of ord] wire_round_trip [OF assms(2), of ord] assms(3,4) by simp

end

definition modbus_decode :: "profile \<Rightarrow> crates \<Rightarrow> ModbusFunction \<Rightarrow> TagDataType \<Rightarrow> u8 list \<Rightarrow> TagValue option" where
  "modbus_decode p cr func dt bytes =
     (case decode_bytes_to_tagvalue p cr dt bytes func 0 of Decoded v \<Rightarrow> Some v | _ \<Rightarrow> None)"

definition modbus_words :: "crates \<Rightarrow> TagValue \<Rightarrow> u16 list" where
  "modbus_words cr v = (case tagvalue_to_registers cr v of Inr ws \<Rightarrow> ws | Inl _ \<Rightarrow> [])"

interpretation modbus_codec: register_codec cr "modbus_words cr" "modbus_decode p cr func"
  "\<lambda>v. byteorder_laws cr \<and> chrono_laws cr \<and> value_ok cr v"
  for cr p func
proof unfold_locales
  fix v assume ok: "byteorder_laws cr \<and> chrono_laws cr \<and> value_ok cr v"
  obtain ws where "tagvalue_to_registers cr v = Inr ws" using tagvalue_to_registers_total by blast
  with ok show "modbus_decode p cr func (data_type v) (registers_to_bytes (modbus_words cr v)) = Some (stored_form v)"
    by (simp add: modbus_decode_def modbus_words_def decode_standard_bytes)
qed simp

section \<open>Properties\<close>



end
