(* ===== verification/Ranges.thy ===== *)
theory Ranges
  imports Prelude
begin

text \<open>
  Address ranges.  Both drivers validate their mappings by sorting them by address and comparing
  neighbours, and both merge and split ranges before reading.  Here are the facts on ranges of natural
  numbers that they share, and the contract of the neighbour check: accepting a sorted list is having
  pairwise disjoint ranges.
\<close>

section \<open>Pairwise relations\<close>

lemma sorted_wrt_symp_mset:
  assumes "\<And>x y. P x y \<longleftrightarrow> P y x" and "mset xs = mset ys"
  shows "sorted_wrt P xs \<longleftrightarrow> sorted_wrt P ys"
  using assms(2)
proof (induction xs arbitrary: ys)
  case (Cons x xs)
  then have "x \<in> set ys" by (metis list.set_intros(1) mset_eq_setD)
  then obtain us vs where ys: "ys = us @ x # vs" by (auto dest: split_list)
  with Cons.prems have m: "mset xs = mset (us @ vs)" by simp
  then have "set xs = set us \<union> set vs" by (metis mset_eq_setD set_append)
  with Cons.IH [OF m] show ?case
    by (auto simp: ys sorted_wrt_append assms(1) [of _ x])
qed simp

text \<open>A relation that only concerns elements of one key can be checked key by key.\<close>

lemma sorted_wrt_by_key:
  "sorted_wrt (\<lambda>x y. key x = key y \<longrightarrow> P x y) xs \<longleftrightarrow> (\<forall>k. sorted_wrt P (filter (\<lambda>x. key x = k) xs))"
  by (induction xs) auto

lemma first_some_None: "first_some f xs = None \<longleftrightarrow> (\<forall>x \<in> set xs. f x = None)"
  by (induction xs) (auto split: option.splits)

section \<open>Ranges\<close>

lemma interval_join:
  fixes a b c d :: nat
  assumes "a \<le> c" and "c \<le> b" and "c < d"
  shows "{a..<b} \<union> {c..<d} = {a..<max b d}"
  using assms by auto

lemma interval_subset:
  fixes a b c d :: nat
  assumes "{a..<b} \<subseteq> {c..<d}" and "a < b"
  shows "c \<le> a \<and> b \<le> d"
proof -
  have "a \<in> {c..<d}" "b - 1 \<in> {c..<d}" using assms by auto
  then show ?thesis using assms(2) by auto
qed

lemma interval_disjoint:
  fixes a b c d :: nat
  assumes "a \<le> c" and "c < d"
  shows "{a..<b} \<inter> {c..<d} = {} \<longleftrightarrow> b \<le> c"
proof
  assume "{a..<b} \<inter> {c..<d} = {}"
  then have "c \<notin> {a..<b} \<inter> {c..<d}" by (rule arg_cong [where f = "\<lambda>A. c \<notin> A", THEN iffD2]) blast
  then show "b \<le> c" using assms by auto
qed (use assms in auto)

section \<open>The neighbour check\<close>

locale neighbour_check =
  fixes lo :: "'m \<Rightarrow> nat" and len :: "'m \<Rightarrow> nat"
    and key :: "'m \<Rightarrow> 'k" and usable :: "'m \<Rightarrow> bool"
    and accepts :: "'k \<Rightarrow> 'm list \<Rightarrow> bool"
  assumes usable_len: "usable x \<Longrightarrow> 0 < len x"
    and accepts_Nil: "accepts k []" and accepts_single: "accepts k [x]"
    and accepts_Cons: "usable x \<Longrightarrow>
      accepts k (x # y # xs) \<longleftrightarrow> lo x + len x \<le> lo y \<and> accepts k (y # xs)"
begin

definition range :: "'m \<Rightarrow> nat set" where
  "range x = {lo x..<lo x + len x}"

lemma accepts_successively:
  "list_all usable xs \<Longrightarrow> accepts k xs \<longleftrightarrow> successively (\<lambda>x y. lo x + len x \<le> lo y) xs"
  by (induction "\<lambda>x y. lo x + len x \<le> lo y" xs rule: successively.induct)
    (auto simp: accepts_Nil accepts_single accepts_Cons)

lemma accepts_disjoint:
  assumes "list_all usable xs" and "sorted (map lo xs)"
  shows "accepts k xs \<longleftrightarrow> sorted_wrt (\<lambda>x y. range x \<inter> range y = {}) xs"
proof -
  have "transp (\<lambda>x y. lo x + len x \<le> lo y)" by (rule transpI) auto
  then have "accepts k xs \<longleftrightarrow> sorted_wrt (\<lambda>x y. lo x + len x \<le> lo y) xs"
    using accepts_successively [OF assms(1)] by (simp add: successively_conv_sorted_wrt)
  also have "\<dots> \<longleftrightarrow> sorted_wrt (\<lambda>x y. range x \<inter> range y = {}) xs"
    using assms
  proof (induction xs)
    case (Cons x xs)
    have "lo x + len x \<le> lo y \<longleftrightarrow> range x \<inter> range y = {}" if "y \<in> set xs" for y
      using that Cons.prems usable_len [of y] unfolding range_def
      by (subst interval_disjoint) (auto simp: list_all_iff)
    with Cons show ?case by auto
  qed simp
  finally show ?thesis .
qed

text \<open>Checking each key's mappings, sorted by address, is checking all pairs of one key.\<close>

lemma accepts_all_keys:
  assumes "list_all usable xs" and "set ks = key ` set xs"
    and "\<And>k. mset (sorted_of k) = mset (filter (\<lambda>x. key x = k) xs)"
    and "\<And>k. sorted (map lo (sorted_of k))"
  shows "(\<forall>k \<in> set ks. accepts k (sorted_of k)) \<longleftrightarrow>
    sorted_wrt (\<lambda>x y. key x = key y \<longrightarrow> range x \<inter> range y = {}) xs"
proof -
  have one: "accepts k (sorted_of k) \<longleftrightarrow>
      sorted_wrt (\<lambda>x y. range x \<inter> range y = {}) (filter (\<lambda>x. key x = k) xs)" for k
  proof -
    have "list_all usable (sorted_of k)"
      using assms(1) mset_eq_setD [OF assms(3), of k] by (auto simp: list_all_iff)
    moreover have "sorted_wrt (\<lambda>x y. range x \<inter> range y = {}) (sorted_of k) \<longleftrightarrow>
        sorted_wrt (\<lambda>x y. range x \<inter> range y = {}) (filter (\<lambda>x. key x = k) xs)"
      by (rule sorted_wrt_symp_mset) (use assms(3) in \<open>auto simp: Int_commute\<close>)
    ultimately show ?thesis using accepts_disjoint [OF _ assms(4)] by simp
  qed
  have "sorted_wrt P (filter (\<lambda>x. key x = k) xs)" if "k \<notin> set ks" for k P
  proof -
    have "filter (\<lambda>x. key x = k) xs = []" using that assms(2) by (auto simp: filter_empty_conv)
    then show ?thesis by simp
  qed
  then show ?thesis unfolding one sorted_wrt_by_key by blast
qed

end

section \<open>The slice of a response that belongs to a mapping\<close>

datatype slice = Outside | Short | Slice "u8 list" | SlicePanic

text \<open>Both drivers cut the words of a mapping out of a response by the same statements over word
  addresses.  \<open>warn_on\<close>: whether the \<open>warn!\<close> of the short branch is enabled; only then is its argument
  \<open>raw_bytes.len() - off_bytes\<close> evaluated.\<close>

definition overlap_slice ::
  "profile \<Rightarrow> bool \<Rightarrow> u32 \<Rightarrow> u32 \<Rightarrow> u8 list \<Rightarrow> u32 \<Rightarrow> u32 \<Rightarrow> slice" where
  "overlap_slice p warn_on chunk_start chunk_end raw_bytes map_start map_end =
     (if map_end < chunk_start \<or> map_start > chunk_end then Outside
      else
        let overlap_start = max map_start chunk_start;
            overlap_end = min map_end chunk_end
        in case Option.bind (sub_ck p overlap_end overlap_start) (\<lambda>d. add_ck p d 1) of
             None \<Rightarrow> SlicePanic
           | Some n \<Rightarrow>
               let offset_words = unat (overlap_start - chunk_start);
                   len_words = unat n;
                   off_bytes = offset_words * 2;
                   len_bytes = len_words * 2
               in if off_bytes + len_bytes > length raw_bytes then
                    (if p = Debug \<and> warn_on \<and> length raw_bytes < off_bytes then SlicePanic else Short)
                  else Slice (take len_bytes (drop off_bytes raw_bytes)))"

text \<open>For ranges that do not wrap, the 32-bit arithmetic is that of the natural numbers.\<close>

lemma overlap_slice_nat:
  fixes A E C F :: u32
  assumes "unat A = a" and "unat E = e" and "unat C = c" and "unat F = f" and "a \<le> e" and "c \<le> f"
    and "e < 2 ^ 32 - 1"
  shows "overlap_slice p w C F raw A E =
    (if e < c \<or> f < a then Outside
     else let off = 2 * (max a c - c); len = 2 * (min e f + 1 - max a c)
       in if off + len > length raw
          then (if p = Debug \<and> w \<and> length raw < off then SlicePanic else Short)
          else Slice (take len (drop off raw)))"
proof (cases "e < c \<or> f < a")
  case True
  then show ?thesis using assms(1-4) by (simp add: overlap_slice_def word_less_nat_alt)
next
  case False
  have mx: "unat (max A C) = max a c" and mn: "unat (min E F) = min e f"
    using assms(1-4) by (simp_all add: max_def min_def word_le_nat_alt)
  have le: "max a c \<le> min e f" using False assms(5,6) by auto
  have off: "unat (max A C - C) = max a c - c" using mx assms(3) by (subst unat_minus_exact) auto
  have d: "sub_ck p (min E F) (max A C) = Some (min E F - max A C)"
    "unat (min E F - max A C) = min e f - max a c"
    using mx mn le by (simp_all add: panic_simps unat_minus_exact)
  have "min e f - max a c + 1 < 2 ^ 32" using assms(7) by linarith
  then have n: "add_ck p (min E F - max A C) 1 = Some (min E F - max A C + 1)"
    "unat (min E F - max A C + 1) = min e f + 1 - max a c"
    using d(2) le Suc_diff_le [OF le] by (simp_all add: panic_simps unat_plus_exact)
  have "\<not> (E < C \<or> A > F)" using False assms(1-4) by (simp add: word_less_nat_alt)
  then show ?thesis
    using False by (simp add: overlap_slice_def Let_def d(1) n off mult.commute [of 2])
qed

end
