(* ===== verification/Modbus_Plan.thy ===== *)
theory Modbus_Plan
  imports Modbus_Codec Ranges
begin

text \<open>
  \<open>src/driver/modbus/src/driver.rs\<close>: pre-flight validation, the grouping of mappings into contiguous
  ranges, the splitting of a range into requests of protocol size, and the slice of a response that
  belongs to a mapping.  Shown: what a validated configuration guarantees (no two mappings of one
  function share a register), that grouping loses no mapping, reads no register that no mapping asked
  for and merges maximally, and that the requests of a group cover it exactly, in order, within the
  protocol maximum.

  A \<open>HashMap\<close> is iterated in an unspecified order; the order of its keys is the argument \<open>funcs\<close>.
\<close>

section \<open>Validation\<close>

definition mapping_error :: "string \<Rightarrow> string \<Rightarrow> DriverError" where
  "mapping_error tid rest = DMapping (''Mapping '' @ quoted tid @ rest)"

definition WordOrder_debug :: "WordOrder \<Rightarrow> string" where
  "WordOrder_debug ord =
     (case ord of ABCD \<Rightarrow> ''ABCD'' | BADC \<Rightarrow> ''BADC'' | CDAB \<Rightarrow> ''CDAB'' | DCBA \<Rightarrow> ''DCBA'')"

definition check_mapping :: "ModbusMapping \<Rightarrow> DriverError option" where
  "check_mapping m =
     (if mm_quantity m = 0 then Some (mapping_error (mm_tag_id m) '' has zero quantity'')
      else if mm_bit_offset m \<ge> 16 then
        Some (mapping_error (mm_tag_id m) ('' has invalid bit_offset ''
          @ dec_str (unat (mm_bit_offset m)) @ '' (must be 0..15)''))
      else if mm_data_type m \<in> {TFloat, TInt32, TUInt32} \<and> mm_quantity m < 2 then
        Some (mapping_error (mm_tag_id m) '' data_type requires quantity >= 2'')
      else if mm_data_type m = TDouble \<and> mm_quantity m < 4 then
        Some (mapping_error (mm_tag_id m)
          ('' data_type '' @ quoted ''Double'' @ '' requires quantity >= 4''))
      else if mm_function m \<in> {InputRegisters, DiscreteInputs} \<and> mm_writable m then
        Some (mapping_error (mm_tag_id m)
          ('' marked writable but uses read-only function '' @ ModbusFunction_display (mm_function m)))
      else if (mm_byte_order m = CDAB \<or> mm_byte_order m = DCBA) \<and> mm_quantity m < 2 then
        Some (mapping_error (mm_tag_id m) ('' uses byte_order '' @ WordOrder_debug (mm_byte_order m)
          @ '' which requires quantity >= 2''))
      else None)"

definition range_end :: "ModbusMapping \<Rightarrow> u16" where
  "range_end m = saturating_sub (saturating_add (mm_address m) (mm_quantity m)) 1"

definition show_range :: "ModbusMapping \<Rightarrow> string" where
  "show_range m = quoted (mm_tag_id m) @ ''['' @ dec_str (unat (mm_address m)) @ ''..''
     @ dec_str (unat (range_end m)) @ '']''"

fun overlap_scan :: "ModbusFunction \<Rightarrow> ModbusMapping list \<Rightarrow> DriverError option" where
  "overlap_scan func (cur # nxt # rest) =
     (if mm_address nxt \<le> range_end cur then
        Some (DMapping (''Overlapping Modbus ranges for function '' @ ModbusFunction_display func
          @ '': '' @ show_range cur @ '' overlaps '' @ show_range nxt))
      else overlap_scan func (nxt # rest))"
| "overlap_scan func _ = None"

text \<open>\<open>by_func.entry(m.function).or_default().push(m)\<close> in configuration order, then a stable sort.\<close>

definition by_func :: "ModbusMapping list \<Rightarrow> ModbusFunction \<Rightarrow> ModbusMapping list" where
  "by_func ms f = filter (\<lambda>m. mm_function m = f) ms"

definition sorted_for :: "ModbusMapping list \<Rightarrow> ModbusFunction \<Rightarrow> ModbusMapping list" where
  "sorted_for ms f = sort_key mm_address (by_func ms f)"

definition modbus_validate :: "ModbusFunction list \<Rightarrow> ModbusConfig \<Rightarrow> DriverError + unit" where
  "modbus_validate funcs cfg =
     (case first_some check_mapping (mc_mappings cfg) of
        Some e \<Rightarrow> Inl e
      | None \<Rightarrow>
          (case first_some (\<lambda>f. overlap_scan f (sorted_for (mc_mappings cfg) f)) funcs of
             Some e \<Rightarrow> Inl e
           | None \<Rightarrow> Inr ()))"

text \<open>\<open>funcs\<close> is an iteration order of the map: the functions that occur, each once.\<close>

definition iteration_order :: "ModbusMapping list \<Rightarrow> ModbusFunction list \<Rightarrow> bool" where
  "iteration_order ms funcs \<longleftrightarrow> distinct funcs \<and> set funcs = mm_function ` set ms"

section \<open>Grouping\<close>

type_synonym group = "u16 \<times> u16 \<times> ModbusMapping list"

text \<open>One iteration of the grouping loop; \<open>None\<close> is an overflow panic.\<close>

definition add_to_groups :: "profile \<Rightarrow> group list \<Rightarrow> ModbusMapping \<Rightarrow> group list option" where
  "add_to_groups p groups m =
     (if groups = [] then Some [(mm_address m, mm_quantity m, [m])]
      else case last groups of (start, qty, vecm) \<Rightarrow>
        let en = start + qty - 1 in
        if mm_address m \<le> en + 1 then
          Option.bind (add_ck p (mm_address m) (mm_quantity m)) (\<lambda>x.
          Option.bind (sub_ck p x 1) (\<lambda>y.
          Option.bind (sub_ck p (max en y) start) (\<lambda>z.
          Option.bind (add_ck p z 1) (\<lambda>qty'.
            Some (butlast groups @ [(start, qty', vecm @ [m])])))))
        else Some (groups @ [(mm_address m, mm_quantity m, [m])]))"

fun build_groups :: "profile \<Rightarrow> group list \<Rightarrow> ModbusMapping list \<Rightarrow> group list option" where
  "build_groups p groups [] = Some groups"
| "build_groups p groups (m # ms) =
     (case add_to_groups p groups m of None \<Rightarrow> None | Some groups' \<Rightarrow> build_groups p groups' ms)"

section \<open>Splitting into requests\<close>

definition MAX_REGISTERS :: u16 where "MAX_REGISTERS = 125"

definition MAX_COILS :: u16 where "MAX_COILS = 2000"

definition max_allowed :: "ModbusFunction \<Rightarrow> u16" where
  "max_allowed f =
     (case f of
        HoldingRegisters \<Rightarrow> MAX_REGISTERS | InputRegisters \<Rightarrow> MAX_REGISTERS
      | Coils \<Rightarrow> MAX_COILS | DiscreteInputs \<Rightarrow> MAX_COILS)"

text \<open>The \<open>(chunk_start, chunk_qty)\<close> pairs of the \<open>while remaining > 0\<close> loop; \<open>None\<close> means that the
  loop does not end.\<close>

partial_function (option) chunk_loop :: "u16 \<Rightarrow> u16 \<Rightarrow> u32 \<Rightarrow> (u16 \<times> u16) list option" where
  "chunk_loop maxq chunk_start remaining =
     (if remaining = 0 then Some []
      else let chunk_qty = min (ucast remaining) maxq;
               advance = (ucast chunk_qty :: u32);
               next = (ucast chunk_start :: u32) + advance
           in if next > 0xFFFF then Some [(chunk_start, chunk_qty)]
              else Option.bind (chunk_loop maxq (ucast next) (saturating_sub remaining advance))
                     (\<lambda>rest. Some ((chunk_start, chunk_qty) # rest)))"

section \<open>The slice of a response that belongs to a mapping\<close>

definition mapping_slice ::
  "profile \<Rightarrow> bool \<Rightarrow> u16 \<Rightarrow> u16 \<Rightarrow> u8 list \<Rightarrow> ModbusMapping \<Rightarrow> slice" where
  "mapping_slice p warn_on chunk_start chunk_qty raw_bytes m =
     (let chunk_start_u32 = (ucast chunk_start :: u32);
          map_start_u32 = (ucast (mm_address m) :: u32)
      in case sub_ck p (chunk_start_u32 + ucast chunk_qty) 1 of
           None \<Rightarrow> SlicePanic
         | Some chunk_end_u32 \<Rightarrow>
             (case sub_ck p (map_start_u32 + ucast (mm_quantity m)) 1 of
                None \<Rightarrow> SlicePanic
              | Some map_end_u32 \<Rightarrow>
                  overlap_slice p warn_on chunk_start_u32 chunk_end_u32 raw_bytes map_start_u32 map_end_u32))"

text \<open>Packing the bits of a coil or discrete-input response into words (\<open>while i < bits.len()\<close>).\<close>

definition pack_word :: "bool list \<Rightarrow> nat \<Rightarrow> u16" where
  "pack_word bits i =
     foldl (\<lambda>w bit. if i + bit < length bits \<and> bits ! (i + bit) then w OR push_bit bit 1 else w)
       0 [0..<16]"

function pack_loop :: "bool list \<Rightarrow> nat \<Rightarrow> u16 list" where
  "pack_loop bits i = (if i < length bits then pack_word bits i # pack_loop bits (i + 16) else [])"
  by pat_completeness auto
termination
  by (relation "measure (\<lambda>(bits, i). length bits - i)") auto

declare pack_loop.simps [simp del]

definition pack_bits :: "bool list \<Rightarrow> u16 list" where
  "pack_bits bits = pack_loop bits 0"

section \<open>What validation guarantees\<close>

text \<open>The registers (or coils) of a mapping, and the mappings whose last register is below 65535.\<close>

definition regs_of :: "ModbusMapping \<Rightarrow> nat set" where
  "regs_of m = {unat (mm_address m)..<unat (mm_address m) + unat (mm_quantity m)}"

definition addressable :: "ModbusMapping \<Rightarrow> bool" where
  "addressable m \<longleftrightarrow> unat (mm_address m) + unat (mm_quantity m) < 2 ^ 16"

lemma check_mapping_pos: "check_mapping m = None \<Longrightarrow> 0 < unat (mm_quantity m)"
  by (auto simp: check_mapping_def unat_gt_0 split: if_splits)

lemma unat_range_end:
  assumes "addressable m" and "0 < unat (mm_quantity m)"
  shows "unat (range_end m) = unat (mm_address m) + unat (mm_quantity m) - 1"
  using assms by (simp add: range_end_def unat_saturating_sub unat_saturating_add addressable_def)

lemma overlap_test:
  assumes "addressable m" and "0 < unat (mm_quantity m)"
  shows "mm_address n \<le> range_end m \<longleftrightarrow> \<not> unat (mm_address m) + unat (mm_quantity m) \<le> unat (mm_address n)"
  using assms by (auto simp: word_le_nat_alt unat_range_end)

interpretation modbus_ranges: neighbour_check
  "\<lambda>m. unat (mm_address m)" "\<lambda>m. unat (mm_quantity m)" mm_function
  "\<lambda>m. addressable m \<and> 0 < unat (mm_quantity m)" "\<lambda>f ms. overlap_scan f ms = None"
  by unfold_locales (auto simp: overlap_test)

lemma modbus_range [simp]: "modbus_ranges.range = regs_of"
  by (simp add: modbus_ranges.range_def regs_of_def fun_eq_iff)

lemma sorted_for_facts:
  "sorted (map mm_address (sorted_for ms f))" "mset (sorted_for ms f) = mset (by_func ms f)"
  "set (sorted_for ms f) = {m \<in> set ms. mm_function m = f}"
  by (simp_all add: sorted_for_def by_func_def)

lemma sorted_unat_address: "sorted (map (\<lambda>m. unat (mm_address m)) (sorted_for ms f))"
  using sorted_for_facts(1) [of ms f] by (simp add: sorted_wrt_map word_le_nat_alt)

lemma modbus_validate_ok:
  assumes "list_all addressable (mc_mappings cfg)" and "iteration_order (mc_mappings cfg) funcs"
  shows "modbus_validate funcs cfg = Inr () \<longleftrightarrow>
    list_all (\<lambda>m. check_mapping m = None) (mc_mappings cfg)
    \<and> sorted_wrt (\<lambda>x y. mm_function x = mm_function y \<longrightarrow> regs_of x \<inter> regs_of y = {}) (mc_mappings cfg)"
proof (cases "list_all (\<lambda>m. check_mapping m = None) (mc_mappings cfg)")
  case True
  let ?ms = "mc_mappings cfg"
  have "first_some check_mapping ?ms = None" using True by (simp add: first_some_None list_all_iff)
  then have "modbus_validate funcs cfg = Inr () \<longleftrightarrow>
      first_some (\<lambda>f. overlap_scan f (sorted_for ?ms f)) funcs = None"
    by (simp add: modbus_validate_def split: option.split)
  also have "\<dots> \<longleftrightarrow> (\<forall>f \<in> set funcs. overlap_scan f (sorted_for ?ms f) = None)"
    by (simp add: first_some_None)
  also have "\<dots> \<longleftrightarrow> sorted_wrt (\<lambda>x y. mm_function x = mm_function y \<longrightarrow> regs_of x \<inter> regs_of y = {}) ?ms"
    using modbus_ranges.accepts_all_keys [of ?ms funcs "sorted_for ?ms"] assms True check_mapping_pos
    by (simp add: list_all_iff iteration_order_def sorted_for_facts by_func_def sorted_unat_address)
  finally show ?thesis using True by simp
next
  case False
  then have "first_some check_mapping (mc_mappings cfg) \<noteq> None"
    by (simp add: first_some_None list_all_iff)
  then show ?thesis using False by (auto simp: modbus_validate_def)
qed

section \<open>Groups\<close>

definition group_regs :: "group \<Rightarrow> nat set" where
  "group_regs g = (case g of (start, qty, _) \<Rightarrow> {unat start..<unat start + unat qty})"

definition group_ok :: "group \<Rightarrow> bool" where
  "group_ok g = (case g of (start, qty, members) \<Rightarrow>
     members \<noteq> [] \<and> 0 < unat qty \<and> unat start + unat qty < 2 ^ 16
     \<and> {unat start..<unat start + unat qty} = \<Union> (regs_of ` set members))"

text \<open>Between two groups there is a register that neither reads.\<close>

definition apart :: "group \<Rightarrow> group \<Rightarrow> bool" where
  "apart g h = (case (g, h) of ((s, q, _), (s', _, _)) \<Rightarrow> unat s + unat q < unat s')"

definition groups_ok :: "group list \<Rightarrow> bool" where
  "groups_ok gs \<longleftrightarrow> list_all group_ok gs \<and> sorted_wrt apart gs"

definition group_members :: "group list \<Rightarrow> ModbusMapping list" where
  "group_members gs = concat (map (\<lambda>(_, _, ms). ms) gs)"

text \<open>Extending the last group.\<close>

lemma merge_group:
  assumes ok: "group_ok (start, qty, vecm)" and m: "addressable m" "0 < unat (mm_quantity m)"
    and le: "unat start \<le> unat (mm_address m)"
    and touch: "unat (mm_address m) \<le> unat start + unat qty"
  obtains qty' where
    "unat qty' = max (unat start + unat qty) (unat (mm_address m) + unat (mm_quantity m)) - unat start"
    and "group_ok (start, qty', vecm @ [m])"
    and "add_to_groups p (gs @ [(start, qty, vecm)]) m = Some (gs @ [(start, qty', vecm @ [m])])"
proof -
  let ?a = "mm_address m" and ?q = "mm_quantity m"
  define en where "en = start + qty - 1"
  have bnd: "unat start + unat qty < 2 ^ 16" "0 < unat qty" using ok by (auto simp: group_ok_def)
  have sq: "unat (start + qty) = unat start + unat qty" using bnd by (simp add: unat_plus_exact)
  have en: "unat en = unat start + unat qty - 1"
    unfolding en_def using sq bnd by (subst unat_minus_exact) auto
  have aq: "unat (?a + ?q) = unat ?a + unat ?q" using m by (simp add: unat_plus_exact addressable_def)
  define y where "y = ?a + ?q - 1"
  have y: "unat y = unat ?a + unat ?q - 1"
    unfolding y_def using aq m by (subst unat_minus_exact) auto
  define z where "z = max en y - start"
  have mx: "unat (max en y) = max (unat start + unat qty) (unat ?a + unat ?q) - 1"
    using en y bnd m(2) by (auto simp: max_def word_le_nat_alt)
  have lez: "unat start \<le> unat (max en y)" using mx bnd by linarith
  then have z: "unat z = unat (max en y) - unat start"
    unfolding z_def by (rule unat_minus_exact)
  define qty' where "qty' = z + 1"
  have small: "unat z + 1 < 2 ^ 16"
    using z mx bnd m(1) by (auto simp: addressable_def)
  then have "unat qty' = unat z + 1" unfolding qty'_def by (subst unat_plus_exact) auto
  moreover have "unat start < max (unat start + unat qty) (unat ?a + unat ?q)" using bnd by linarith
  ultimately have q': "unat qty' = max (unat start + unat qty) (unat ?a + unat ?q) - unat start"
    unfolding z mx by linarith
  have "{unat start..<unat start + unat qty'} = \<Union> (regs_of ` set (vecm @ [m]))"
  proof -
    have "{unat start..<unat start + unat qty'} =
        {unat start..<unat start + unat qty} \<union> regs_of m"
      using le touch m(2) bnd unfolding regs_of_def q' by (subst interval_join) auto
    then show ?thesis using ok by (auto simp: group_ok_def)
  qed
  then have ok': "group_ok (start, qty', vecm @ [m])"
    using q' bnd m(1) by (auto simp: group_ok_def addressable_def)
  have cond: "?a \<le> start + qty" using touch sq by (simp add: word_le_nat_alt)
  have c1: "add_ck p ?a ?q = Some (?a + ?q)" using m by (simp add: panic_simps addressable_def)
  have c2: "sub_ck p (?a + ?q) 1 = Some y" using aq m by (simp add: panic_simps y_def)
  have c3: "sub_ck p (max en y) start = Some z" using lez by (simp add: panic_simps z_def)
  have c4: "add_ck p z 1 = Some qty'" using small by (simp add: panic_simps qty'_def)
  have "add_to_groups p (gs @ [(start, qty, vecm)]) m = Some (gs @ [(start, qty', vecm @ [m])])"
    using cond c1 c2 c3 c4 by (simp add: add_to_groups_def Let_def en_def [symmetric])
  with that q' ok' show thesis by blast
qed

lemma new_group_ok:
  "addressable m \<Longrightarrow> 0 < unat (mm_quantity m) \<Longrightarrow> group_ok (mm_address m, mm_quantity m, [m])"
  by (auto simp: group_ok_def addressable_def regs_of_def)

lemma add_to_groups_step:
  assumes "groups_ok gs" and m: "addressable m" "0 < unat (mm_quantity m)"
    and le: "\<forall>g \<in> set gs. unat (fst g) \<le> unat (mm_address m)"
  obtains gs' where "add_to_groups p gs m = Some gs'" and "groups_ok gs'"
    and "group_members gs' = group_members gs @ [m]"
    and "\<forall>g \<in> set gs'. unat (fst g) \<le> unat (mm_address m)"
proof (cases gs rule: rev_cases)
  case Nil
  with that [of "[(mm_address m, mm_quantity m, [m])]"] new_group_ok [OF m] show ?thesis
    by (simp add: add_to_groups_def groups_ok_def group_members_def)
next
  case (snoc hs g)
  obtain start qty vecm where g: "g = (start, qty, vecm)" by (cases g)
  have ok: "group_ok (start, qty, vecm)" and ap: "sorted_wrt apart (hs @ [g])" and hs: "list_all group_ok hs"
    using assms(1) by (auto simp: groups_ok_def snoc g)
  show ?thesis
  proof (cases "unat (mm_address m) \<le> unat start + unat qty")
    case True
    have "unat start \<le> unat (mm_address m)" using le by (simp add: snoc g)
    from merge_group [OF ok m this True, of p hs] obtain qty' where
      "group_ok (start, qty', vecm @ [m])"
      "add_to_groups p (hs @ [(start, qty, vecm)]) m = Some (hs @ [(start, qty', vecm @ [m])])"
      by blast
    with that [of "hs @ [(start, qty', vecm @ [m])]"] ap hs le show ?thesis
      by (auto simp: snoc g groups_ok_def group_members_def sorted_wrt_append apart_def)
  next
    case False
    have bnd: "unat start + unat qty < 2 ^ 16" "0 < unat qty" using ok by (auto simp: group_ok_def)
    have "unat (start + qty - 1 + 1) = unat start + unat qty" using bnd by (simp add: unat_plus_exact)
    then have c: "\<not> mm_address m \<le> start + qty - 1 + 1"
      using False by (simp add: word_le_nat_alt)
    have "\<forall>h \<in> set (hs @ [g]). apart h (mm_address m, mm_quantity m, [m])"
      using ap False le by (auto simp: snoc g apart_def sorted_wrt_append)
    with that [of "gs @ [(mm_address m, mm_quantity m, [m])]"] ap hs ok le new_group_ok [OF m] c
    show ?thesis
      by (auto simp: snoc g groups_ok_def group_members_def sorted_wrt_append add_to_groups_def Let_def)
  qed
qed

lemma build_groups_ok:
  assumes "groups_ok gs" and "list_all addressable ms" and "list_all (\<lambda>m. 0 < unat (mm_quantity m)) ms"
    and "sorted (map mm_address ms)"
    and "\<forall>g \<in> set gs. \<forall>m \<in> set ms. unat (fst g) \<le> unat (mm_address m)"
  shows "\<exists>gs'. build_groups p gs ms = Some gs' \<and> groups_ok gs'
    \<and> group_members gs' = group_members gs @ ms"
  using assms
proof (induction ms arbitrary: gs)
  case (Cons m ms)
  from Cons.prems obtain gs' where s: "add_to_groups p gs m = Some gs'" "groups_ok gs'"
    "group_members gs' = group_members gs @ [m]" "\<forall>g \<in> set gs'. unat (fst g) \<le> unat (mm_address m)"
    using add_to_groups_step [of gs m p] by auto
  have "\<forall>g \<in> set gs'. \<forall>m' \<in> set ms. unat (fst g) \<le> unat (mm_address m')"
    using s(4) Cons.prems(4) by (auto simp: word_le_nat_alt intro: order_trans)
  with Cons.IH [OF s(2)] Cons.prems s show ?case by auto
qed auto

section \<open>Requests\<close>

definition chunk_regs :: "u16 \<times> u16 \<Rightarrow> nat list" where
  "chunk_regs c = [unat (fst c)..<unat (fst c) + unat (snd c)]"

text \<open>One round of the loop, with its arithmetic resolved.\<close>

lemma chunk_loop_round:
  assumes "0 < unat remaining" and "unat remaining < 2 ^ 16" and "0 < unat maxq"
  obtains q :: u16 where "unat q = min (unat remaining) (unat maxq)"
    and "chunk_loop maxq start remaining =
      (if 2 ^ 16 \<le> unat start + unat q then Some [(start, q)]
       else Option.bind (chunk_loop maxq (start + q) (remaining - ucast q))
         (\<lambda>rest. Some ((start, q) # rest)))"
    and "unat start + unat q < 2 ^ 16 \<longrightarrow> unat (start + q) = unat start + unat q"
    and "unat (remaining - ucast q) = unat remaining - unat q"
proof -
  define q where "q = min (ucast remaining) maxq"
  have q: "unat q = min (unat remaining) (unat maxq)"
    using assms(2) by (auto simp: q_def min_def word_le_nat_alt unat_ucast_u32_u16)
  have sum: "unat ((ucast start :: u32) + ucast q) = unat start + unat q"
    using unat_u16_less [of start] unat_u16_less [of q]
    by (simp add: unat_plus_exact unat_ucast_u16_u32)
  have over: "(ucast start :: u32) + ucast q > 0xFFFF \<longleftrightarrow> 2 ^ 16 \<le> unat start + unat q"
    using sum by (auto simp: word_less_nat_alt)
  have nxt: "ucast ((ucast start :: u32) + ucast q) = start + q" if "unat start + unat q < 2 ^ 16"
    using that sum by (intro word_unat_eq_iff [THEN iffD2])
      (simp add: unat_ucast_u32_u16 unat_plus_exact)
  have le: "(ucast q :: u32) \<le> remaining" using q by (simp add: word_le_nat_alt unat_ucast_u16_u32)
  have rest: "saturating_sub remaining (ucast q) = remaining - ucast q"
    using le by (simp add: saturating_sub_def)
  have nz: "remaining \<noteq> 0" using assms(1) by auto
  show thesis
  proof
    show "chunk_loop maxq start remaining =
      (if 2 ^ 16 \<le> unat start + unat q then Some [(start, q)]
       else Option.bind (chunk_loop maxq (start + q) (remaining - ucast q))
         (\<lambda>rest. Some ((start, q) # rest)))"
      using nz over nxt rest
      by (subst chunk_loop.simps) (simp add: Let_def q_def [symmetric] del: One_nat_def)
    show "unat (remaining - ucast q) = unat remaining - unat q"
      using le by (simp add: unat_sub unat_ucast_u16_u32)
  qed (use q in \<open>simp_all add: unat_plus_exact\<close>)
qed

text \<open>The loop ends, and its requests are contiguous, non-empty, within the maximum, and cover the
  range exactly; a range that would run past the last register is cut there.\<close>

lemma chunk_loop_covers:
  assumes "unat remaining < 2 ^ 16" and "0 < unat maxq"
  shows "\<exists>cs. chunk_loop maxq start remaining = Some cs
    \<and> (\<forall>c \<in> set cs. 0 < unat (snd c) \<and> unat (snd c) \<le> unat maxq)
    \<and> (unat start + unat remaining \<le> 2 ^ 16 \<longrightarrow>
        concat (map chunk_regs cs) = [unat start..<unat start + unat remaining])"
  using assms
proof (induction "unat remaining" arbitrary: start remaining rule: less_induct)
  case less
  show ?case
  proof (cases "unat remaining = 0")
    case True
    then have "remaining = 0" by (simp add: unat_eq_0)
    with True show ?thesis by (simp add: chunk_loop.simps)
  next
    case False
    then have pos: "0 < unat remaining" by simp
    obtain q where q: "unat q = min (unat remaining) (unat maxq)"
      and loop: "chunk_loop maxq start remaining =
        (if 2 ^ 16 \<le> unat start + unat q then Some [(start, q)]
         else Option.bind (chunk_loop maxq (start + q) (remaining - ucast q))
           (\<lambda>rest. Some ((start, q) # rest)))"
      and sum: "unat start + unat q < 2 ^ 16 \<longrightarrow> unat (start + q) = unat start + unat q"
      and rem: "unat (remaining - ucast q) = unat remaining - unat q"
      using chunk_loop_round [OF pos less.prems(1,2)] by metis
    have qpos: "0 < unat q" "unat q \<le> unat maxq" "unat q \<le> unat remaining"
      using q pos less.prems(2) by auto
    show ?thesis
    proof (cases "2 ^ 16 \<le> unat start + unat q")
      case True
      have "unat q = unat remaining" if "unat start + unat remaining \<le> 2 ^ 16"
        using that True qpos by linarith
      then have "unat start + unat remaining \<le> 2 ^ 16 \<longrightarrow>
          chunk_regs (start, q) = [unat start..<unat start + unat remaining]"
        unfolding chunk_regs_def fst_conv snd_conv by metis
      then show ?thesis using True loop qpos by simp
    next
      case not: False
      then have s: "unat (start + q) = unat start + unat q" using sum by linarith
      have lt: "unat (remaining - ucast q) < unat remaining" using rem qpos pos by linarith
      have small: "unat (remaining - ucast q) < 2 ^ 16" using lt less.prems(1) by linarith
      obtain cs where cs: "chunk_loop maxq (start + q) (remaining - ucast q) = Some cs"
        "\<forall>c \<in> set cs. 0 < unat (snd c) \<and> unat (snd c) \<le> unat maxq"
        "unat start + unat remaining \<le> 2 ^ 16 \<longrightarrow>
          concat (map chunk_regs cs) = [unat start + unat q..<unat start + unat remaining]"
        using less.hyps [OF lt small less.prems(2), of "start + q"] rem s qpos(3) by auto
      have "[unat start..<unat start + unat q] @ [unat start + unat q..<unat start + unat remaining]
          = [unat start..<unat start + unat remaining]"
        using qpos(3) upt_add_eq_append [of "unat start" "unat start + unat q" "unat remaining - unat q"] by simp
      then show ?thesis using cs qpos not loop by (simp add: chunk_regs_def)
    qed
  qed
qed

lemma max_allowed_pos: "0 < unat (max_allowed f)"
  by (cases f) (simp_all add: max_allowed_def MAX_REGISTERS_def MAX_COILS_def)

lemma chunk_loop_total: "\<exists>cs. chunk_loop (max_allowed f) start (ucast (qty :: u16)) = Some cs"
  using chunk_loop_covers [of "ucast qty" "max_allowed f" start] unat_u16_less [of qty] max_allowed_pos
  by (auto simp: unat_ucast_u16_u32)

section \<open>Slices\<close>

text \<open>The 32-bit arithmetic of the slice computation never wraps, so it can be read over the
  natural numbers.\<close>

lemma mapping_slice_nat:
  fixes m :: ModbusMapping and cs cq :: u16
  assumes "0 < unat (mm_quantity m)" and "0 < unat cq"
  defines "a \<equiv> unat (mm_address m)" and "e \<equiv> unat (mm_address m) + unat (mm_quantity m) - 1"
    and "c \<equiv> unat cs" and "f \<equiv> unat cs + unat cq - 1"
  shows "mapping_slice p w cs cq raw m =
    (if e < c \<or> f < a then Outside
     else let off = 2 * (max a c - c); len = 2 * (min e f + 1 - max a c)
       in if off + len > length raw
          then (if p = Debug \<and> w \<and> length raw < off then SlicePanic else Short)
          else Slice (take len (drop off raw)))"
proof -
  define A C :: u32 where "A = ucast (mm_address m)" and "C = ucast cs"
  have A: "unat A = a" and C: "unat C = c"
    by (simp_all add: A_def C_def a_def c_def unat_ucast_u16_u32)
  have small: "a < 65536" "c < 65536" "unat (mm_quantity m) < 65536" "unat cq < 65536"
    unfolding a_def c_def by (rule unat_u16_less)+
  have AQ: "unat (A + ucast (mm_quantity m)) = a + unat (mm_quantity m)"
    and CQ: "unat (C + ucast cq) = c + unat cq"
    using small A C by (simp_all add: unat_plus_exact unat_ucast_u16_u32)
  have E: "sub_ck p (A + ucast (mm_quantity m)) 1 = Some (A + ucast (mm_quantity m) - 1)"
    "unat (A + ucast (mm_quantity m) - 1) = e"
    using AQ assms(1) by (simp_all add: panic_simps unat_minus_exact e_def a_def)
  have F: "sub_ck p (C + ucast cq) 1 = Some (C + ucast cq - 1)" "unat (C + ucast cq - 1) = f"
    using CQ assms(2) by (simp_all add: panic_simps unat_minus_exact f_def c_def)
  have "e < 2 ^ 32 - 1" "a \<le> e" "c \<le> f" using small assms(1,2) by (auto simp: e_def f_def a_def c_def)
  then show ?thesis
    using overlap_slice_nat [OF A E(2) C F(2)] E(1) F(1)
    by (simp add: mapping_slice_def Let_def A_def C_def)
qed

text \<open>A mapping that lies inside the request gets the bytes of its own registers.\<close>

lemma mapping_slice_inside:
  assumes "0 < unat (mm_quantity m)" and "unat cs \<le> unat (mm_address m)"
    and "unat (mm_address m) + unat (mm_quantity m) \<le> unat cs + unat cq"
    and "length rs = unat cq"
  shows "mapping_slice p w cs cq (registers_to_bytes rs) m =
    Slice (registers_to_bytes (take (unat (mm_quantity m)) (drop (unat (mm_address m) - unat cs) rs)))"
proof -
  have cq: "0 < unat cq" using assms(1-3) by linarith
  have mx: "max (unat (mm_address m)) (unat cs) = unat (mm_address m)"
    and mn: "min (unat (mm_address m) + unat (mm_quantity m) - 1) (unat cs + unat cq - 1)
      = unat (mm_address m) + unat (mm_quantity m) - 1"
    using assms(2,3) by auto
  have "\<not> (unat (mm_address m) + unat (mm_quantity m) - 1 < unat cs \<or> unat cs + unat cq - 1 < unat (mm_address m))"
    using assms by linarith
  moreover have "2 * (unat (mm_address m) - unat cs)
      + 2 * (unat (mm_address m) + unat (mm_quantity m) - 1 + 1 - unat (mm_address m)) \<le> 2 * length rs"
    using assms by simp
  ultimately show ?thesis
    unfolding mapping_slice_nat [OF assms(1) cq] mx mn
    using assms(1)
    by (simp add: Let_def drop_registers_to_bytes take_registers_to_bytes flip: mult_2)
qed

section \<open>Packing bits\<close>

lemma bit_pack_word_aux:
  "n \<le> 16 \<Longrightarrow> bit (foldl (\<lambda>w b. if i + b < length bits \<and> bits ! (i + b) then w OR push_bit b 1 else w)
     (0 :: u16) [0..<n]) k \<longleftrightarrow> k < n \<and> i + k < length bits \<and> bits ! (i + k)"
proof (induction n)
  case (Suc n)
  then show ?case by (auto simp: bit_simps less_Suc_eq)
qed simp

lemma bit_pack_word: "bit (pack_word bits i) k \<longleftrightarrow> k < 16 \<and> i + k < length bits \<and> bits ! (i + k)"
  unfolding pack_word_def by (rule bit_pack_word_aux) simp

lemma pack_loop_nth:
  "n < length (pack_loop bits i) \<Longrightarrow> pack_loop bits i ! n = pack_word bits (i + 16 * n)"
proof (induction bits i arbitrary: n rule: pack_loop.induct)
  case (1 bits i)
  then show ?case
    by (cases n) (auto simp: pack_loop.simps [of bits i] add.assoc split: if_splits)
qed

lemma length_pack_loop: "length (pack_loop bits i) = (length bits - i + 15) div 16"
proof (induction bits i rule: pack_loop.induct)
  case (1 bits i)
  show ?case
  proof (cases "i < length bits")
    case True
    then have "length (pack_loop bits i) = Suc ((length bits - (i + 16) + 15) div 16)"
      using "1.IH" by (simp add: pack_loop.simps [of bits i])
    also have "\<dots> = (length bits - i + 15) div 16"
    proof (cases "i + 16 \<le> length bits")
      case True
      then have "length bits - i + 15 = (length bits - (i + 16) + 15) + 16" by simp
      then show ?thesis by (metis Suc_eq_plus1 div_add_self2 zero_neq_numeral)
    next
      case False
      then have "(length bits - i + 15) div 16 = 1" using \<open>i < length bits\<close> by (intro div_nat_eqI) auto
      then show ?thesis using False by simp
    qed
    finally show ?thesis .
  qed (simp add: pack_loop.simps)
qed

section \<open>Properties\<close>

definition group_interval :: "group \<Rightarrow> nat list" where
  "group_interval g = (case g of (start, qty, _) \<Rightarrow> [unat start..<unat start + unat qty])"

lemma sorted_group_intervals: "groups_ok gs \<Longrightarrow> sorted_wrt (<) (concat (map group_interval gs))"
proof (induction gs)
  case (Cons g gs)
  have "x < y" if "x \<in> set (group_interval g)" "h \<in> set gs" "y \<in> set (group_interval h)" for x y h
  proof -
    have "apart g h" using Cons.prems that(2) by (simp add: groups_ok_def)
    with that(1,3) show ?thesis by (auto simp: apart_def group_interval_def split: prod.splits)
  qed
  then show ?case
    using Cons by (auto simp: sorted_wrt_append groups_ok_def) (simp add: group_interval_def split: prod.split)
qed simp

lemma set_group_interval: "group_ok g \<Longrightarrow> set (group_interval g) = \<Union> (regs_of ` set (snd (snd g)))"
  by (cases g) (simp add: group_ok_def group_interval_def)

lemma set_group_intervals:
  assumes "groups_ok gs"
  shows "set (concat (map group_interval gs)) = \<Union> (regs_of ` set (group_members gs))"
proof -
  have "set (concat (map group_interval gs)) = (\<Union>g \<in> set gs. \<Union> (regs_of ` set (snd (snd g))))"
    using assms by (simp add: groups_ok_def list_all_iff set_group_interval)
  then show ?thesis by (simp add: group_members_def case_prod_beta)
qed

lemma group_requests:
  assumes "group_ok g"
  obtains cs where "(case g of (start, qty, _) \<Rightarrow> chunk_loop (max_allowed f) start (ucast qty)) = Some cs"
    and "concat (map chunk_regs cs) = group_interval g"
    and "\<forall>c \<in> set cs. 0 < unat (snd c) \<and> unat (snd c) \<le> unat (max_allowed f)"
proof -
  obtain s q ms where g: "g = (s, q, ms)" by (cases g)
  have "unat s + unat q < 2 ^ 16" using assms by (simp add: g group_ok_def)
  then have "unat (ucast q :: u32) < 2 ^ 16" "unat s + unat (ucast q :: u32) \<le> 2 ^ 16"
    by (simp_all add: unat_ucast_u16_u32)
  with chunk_loop_covers [OF this(1) max_allowed_pos, of f s] that show thesis
    by (auto simp: g group_interval_def unat_ucast_u16_u32)
qed

lemma groups_requests:
  assumes "list_all group_ok gs"
  shows "\<exists>css. map (\<lambda>(start, qty, _). chunk_loop (max_allowed f) start (ucast qty)) gs = map Some css
    \<and> concat (map chunk_regs (concat css)) = concat (map group_interval gs)
    \<and> (\<forall>c \<in> set (concat css). 0 < unat (snd c) \<and> unat (snd c) \<le> unat (max_allowed f))"
  using assms
proof (induction gs)
  case Nil
  show ?case by (rule exI [of _ "[]"]) simp
next
  case (Cons g gs)
  then obtain css where css: "map (\<lambda>(start, qty, _). chunk_loop (max_allowed f) start (ucast qty)) gs = map Some css"
    "concat (map chunk_regs (concat css)) = concat (map group_interval gs)"
    "\<forall>c \<in> set (concat css). 0 < unat (snd c) \<and> unat (snd c) \<le> unat (max_allowed f)" by auto
  obtain cs where "(case g of (start, qty, _) \<Rightarrow> chunk_loop (max_allowed f) start (ucast qty)) = Some cs"
    "concat (map chunk_regs cs) = group_interval g"
    "\<forall>c \<in> set cs. 0 < unat (snd c) \<and> unat (snd c) \<le> unat (max_allowed f)"
    using group_requests [of g f] Cons.prems by auto
  with css show ?case by (intro exI [of _ "cs # css"]) auto
qed


definition example_mapping :: "string \<Rightarrow> u16 \<Rightarrow> u16 \<Rightarrow> TagDataType \<Rightarrow> ModbusMapping" where
  "example_mapping tid a q dt = ModbusMapping_new tid a q HoldingRegisters dt 0 True ABCD"

definition example_config :: ModbusConfig where
  "example_config = ModbusConfig_new ''plc'' ''10.0.0.1:502'' 1 1000
     [example_mapping ''t2'' 102 2 TUInt32, example_mapping ''t1'' 100 2 TUInt32,
      example_mapping ''t3'' 300 1 TUInt16]"

lemma example_config_facts:
  "list_all addressable (mc_mappings example_config)"
  "iteration_order (mc_mappings example_config) [HoldingRegisters]"
  "list_all (\<lambda>m. check_mapping m = None) (mc_mappings example_config)"
  by (simp_all add: example_config_def ModbusConfig_new_def example_mapping_def ModbusMapping_new_def
      addressable_def iteration_order_def check_mapping_def)




end
