(* ===== verification/Protocol.thy ===== *)
theory Protocol
  imports Registry Control
begin

text \<open>
  The trait \<open>ProtocolDriver\<close> of \<open>src/driver/common/src/lib.rs\<close> as the runtime relies on it.  A driver's
  \<open>read_cycle\<close> takes what the outside world supplies for one cycle and its own state; it may return,
  fail, panic or not come back, but it touches the shared registry only through the registry's typed
  operations.  From that contract the locale derives what holds after any number of cycles.  The
  locale is interpreted by the Modbus and by the FINS driver.
\<close>

text \<open>The states that \<open>read_cycle\<close> leaves behind, cycle after cycle: the poll loop keeps calling it after
  an error, and stops when the task panicked or a cycle does not come back.\<close>

fun run_cycles :: "('i \<Rightarrow> 's \<Rightarrow> ('s, 'err) ctl) \<Rightarrow> 'i list \<Rightarrow> 's \<Rightarrow> 's" where
  "run_cycles cycle [] s = s"
| "run_cycles cycle (i # inputs) s =
     (case cycle i s of
        Next s' \<Rightarrow> run_cycles cycle inputs s'
      | Break s' \<Rightarrow> run_cycles cycle inputs s'
      | Return s' _ \<Rightarrow> run_cycles cycle inputs s'
      | Panicked s' \<Rightarrow> s'
      | Diverges \<Rightarrow> s)"

locale protocol_driver =
  fixes cycle :: "'i \<Rightarrow> 's \<Rightarrow> ('s, 'err) ctl"
    and registry_of :: "'s \<Rightarrow> TagRegistry"
  assumes cycle_updates: "ctl_all (\<lambda>s'. reg_step\<^sup>*\<^sup>* (registry_of s) (registry_of s')) (cycle i s)"
begin

lemma run_cycles_updates: "reg_step\<^sup>*\<^sup>* (registry_of s) (registry_of (run_cycles cycle inputs s))"
proof (induction inputs arbitrary: s)
  case (Cons i inputs)
  have "ctl_all (\<lambda>s'. reg_step\<^sup>*\<^sup>* (registry_of s) (registry_of s')) (cycle i s)" by (rule cycle_updates)
  with Cons show ?case by (cases "cycle i s") (auto intro: rtranclp_trans)
qed simp

lemma run_cycles_wf:
  assumes "reg_wf (registry_of s)"
  shows "reg_wf (registry_of (run_cycles cycle inputs s))"
    and "reg_definitions (registry_of (run_cycles cycle inputs s)) = reg_definitions (registry_of s)"
  using reg_steps_wf [OF run_cycles_updates assms] by auto

text \<open>No tag is lost or added, and every value has its configured type, after any number of cycles.\<close>

lemma run_cycles_typed:
  assumes "reg_wf (registry_of s)" and "reg_def (registry_of s) tid = Some d"
  shows "\<exists>t. reg_map (registry_of (run_cycles cycle inputs s)) tid = Some t
    \<and> data_type (tag_value t) = td_data_type d"
proof -
  let ?r = "registry_of (run_cycles cycle inputs s)"
  have wf: "reg_wf ?r" and d: "reg_def ?r tid = Some d"
    using run_cycles_wf [OF assms(1)] assms(2) by (simp_all add: reg_def_def)
  then obtain t where "reg_map ?r tid = Some t" unfolding reg_wf_def by blast
  with wf d show ?thesis unfolding reg_wf_def reg_typed_def by blast
qed

end

end
