(* ===== verification/Modbus_Cycle.thy ===== *)
theory Modbus_Cycle
  imports Modbus_Plan Protocol
begin

text \<open>
  \<open>src/driver/modbus/src/driver.rs\<close>: one cycle of the Modbus driver (\<open>run_read_cycle_impl\<close>): drain the
  write queue, make sure there is a connection, read every group of registers, decode and publish.

  The network, the clock and the event loop are a parameter: a record \<open>'e modbus_io\<close> of functions over an
  environment \<open>'e\<close> that they may change in any way.  A request answers with data, with a Modbus
  exception (its debug text), with a transport error (its text), or not before the timeout.
\<close>

datatype 'a response = Resp 'a | Exception string | Transport string | TimedOut

record 'e modbus_io =
  io_connect :: "'e \<Rightarrow> bool \<times> 'e"
  io_read_regs :: "ModbusFunction \<Rightarrow> u16 \<Rightarrow> u16 \<Rightarrow> 'e \<Rightarrow> u16 list response \<times> 'e"
  io_read_bits :: "ModbusFunction \<Rightarrow> u16 \<Rightarrow> u16 \<Rightarrow> 'e \<Rightarrow> bool list response \<times> 'e"
  io_write :: "u16 \<Rightarrow> u16 list \<Rightarrow> 'e \<Rightarrow> unit response \<times> 'e"
  io_now :: "'e \<Rightarrow> datetime \<times> 'e"

definition connect_with_backoff :: "'e modbus_io \<Rightarrow> ModbusConfig \<Rightarrow> 'e drv_state \<Rightarrow> 'e drv_state option" where
  "connect_with_backoff io cfg s = connect_loop (io_connect io) (mc_max_backoff_secs cfg) 1 s"

section \<open>Writes\<close>

definition is_illegal :: "string \<Rightarrow> bool" where
  "is_illegal emsg \<longleftrightarrow>
     str_contains emsg ''Illegal'' \<or> str_contains emsg ''Address''
     \<or> str_contains emsg ''IllegalDataAddress''"

text \<open>The \<open>match write_res\<close>, after the context was put back.\<close>

definition after_write ::
  "'e modbus_io \<Rightarrow> ModbusConfig \<Rightarrow> 'e drv_state \<Rightarrow> WriteRequest \<Rightarrow> ModbusMapping \<Rightarrow> unit response
   \<Rightarrow> ('e drv_state, DriverError) ctl" where
  "after_write io cfg s req m res =
     (case res of
        Resp _ \<Rightarrow> Next (drv_reply (drv_value (io_now io) s (mm_tag_id m) (wr_value req) Good) req (Inr ()))
      | Exception emsg \<Rightarrow>
          if is_illegal emsg then
            Next (drv_reply (drv_quality (io_now io) s (mm_tag_id m) ConfigError) req
              (Inl (''Modbus exception: '' @ emsg)))
          else
            let s1 = drv_quality (io_now io) s (mm_tag_id m) CommLost;
                s2 = drv_reply s1 req (Inl (''Modbus error: '' @ emsg));
                s3 = send_health_event (mc_name cfg) s2 ''write_error'' (Some emsg)
            in Return (s3\<lparr>ds_conn := False\<rparr>) (DModbus emsg)
      | Transport text \<Rightarrow>
          let emsg = ''Transport: '' @ text;
              s1 = drv_quality (io_now io) s (mm_tag_id m) CommLost;
              s2 = drv_reply s1 req (Inl emsg)
          in Return (s2\<lparr>ds_conn := False\<rparr>) (DModbus emsg)
      | TimedOut \<Rightarrow>
          let s1 = drv_quality (io_now io) s (mm_tag_id m) CommLost;
              s2 = drv_reply s1 req (Inl ''Timeout'')
          in Return (s2\<lparr>ds_conn := False\<rparr>) DTimeout)"

text \<open>The context is taken out of its slot, or a new one is made; \<open>connect_with_backoff\<close> never
  returns an error, so its error branch has no counterpart.\<close>

definition write_holding ::
  "'e modbus_io \<Rightarrow> crates \<Rightarrow> ModbusConfig \<Rightarrow> 'e drv_state \<Rightarrow> WriteRequest \<Rightarrow> ModbusMapping \<Rightarrow> u16 list
   \<Rightarrow> ('e drv_state, DriverError) ctl" where
  "write_holding io cr cfg s req m words =
     (let ordered_bytes = apply_byte_order (registers_to_bytes words) (mm_byte_order m)
      in if length ordered_bytes mod 2 \<noteq> 0 then
           Next (drv_reply (drv_quality (io_now io) s (mm_tag_id m) CommLost) req
             (Inl ''Ordered bytes length not even''))
         else
           let ordered_words = ordered_write_words cr (mm_byte_order m) words;
               taken = s\<lparr>ds_conn := False\<rparr>
           in case (if ds_conn s then Some taken else connect_with_backoff io cfg taken) of
                None \<Rightarrow> Diverges
              | Some s1 \<Rightarrow>
                  (case io_write io (mm_address m) ordered_words (ds_env s1) of
                     (res, e) \<Rightarrow> after_write io cfg (s1\<lparr>ds_env := e, ds_conn := True\<rparr>) req m res))"

definition handle_write ::
  "'e modbus_io \<Rightarrow> crates \<Rightarrow> ModbusConfig \<Rightarrow> 'e drv_state \<Rightarrow> WriteRequest
   \<Rightarrow> ('e drv_state, DriverError) ctl" where
  "handle_write io cr cfg s req =
     (case find_first (\<lambda>m. mm_tag_id m = wr_tag_id req) (mc_mappings cfg) of
        None \<Rightarrow> Next (drv_reply s req (Inl ''Unknown tag mapping''))
      | Some m \<Rightarrow>
          if \<not> mm_writable m then Next (drv_reply s req (Inl ''Tag not writable''))
          else case tagvalue_to_registers cr (wr_value req) of
              Inl e \<Rightarrow>
                Next (drv_reply (drv_quality (io_now io) s (mm_tag_id m) CommLost) req
                  (Inl (''Conversion error: '' @ DriverError_display e)))
            | Inr words \<Rightarrow>
                if mm_function m = HoldingRegisters then write_holding io cr cfg s req m words
                else Next (drv_reply (drv_quality (io_now io) s (mm_tag_id m) CommLost) req
                  (Inl ''Unsupported write function'')))"

definition write_phase ::
  "'e modbus_io \<Rightarrow> crates \<Rightarrow> ModbusConfig \<Rightarrow> 'e drv_state \<Rightarrow> try_recv list
   \<Rightarrow> ('e drv_state, DriverError) ctl" where
  "write_phase io cr cfg s recvs =
     drain (handle_write io cr cfg) s recvs"

section \<open>Reads\<close>

text \<open>\<open>read_result\<close>: the bytes, or the error text.\<close>

definition response_bytes :: "('a \<Rightarrow> u16 list) \<Rightarrow> 'a response \<Rightarrow> string + u8 list" where
  "response_bytes to_regs res =
     (case res of
        Resp x \<Rightarrow> Inr (registers_to_bytes (to_regs x))
      | Exception emsg \<Rightarrow> Inl emsg
      | Transport text \<Rightarrow> Inl (''Transport: '' @ text)
      | TimedOut \<Rightarrow> Inl ''Timeout'')"

definition read_result ::
  "'e modbus_io \<Rightarrow> ModbusFunction \<Rightarrow> u16 \<Rightarrow> u16 \<Rightarrow> 'e \<Rightarrow> (string + u8 list) \<times> 'e" where
  "read_result io func cstart cqty e =
     (if func = HoldingRegisters \<or> func = InputRegisters
      then map_prod (response_bytes (\<lambda>regs. regs)) (\<lambda>e. e) (io_read_regs io func cstart cqty e)
      else map_prod (response_bytes pack_bits) (\<lambda>e. e) (io_read_bits io func cstart cqty e))"

definition process_mapping ::
  "profile \<Rightarrow> bool \<Rightarrow> 'e modbus_io \<Rightarrow> crates \<Rightarrow> u16 \<Rightarrow> u16 \<Rightarrow> u8 list \<Rightarrow> 'e drv_state \<Rightarrow> ModbusMapping
   \<Rightarrow> ('e drv_state, DriverError) ctl" where
  "process_mapping p warn_on io cr cstart cqty raw s m =
     (case mapping_slice p warn_on cstart cqty raw m of
        Outside \<Rightarrow> Next s
      | SlicePanic \<Rightarrow> Panicked s
      | Short \<Rightarrow> Next (drv_quality (io_now io) s (mm_tag_id m) ConfigError)
      | Slice bytes \<Rightarrow>
          let ordered = apply_byte_order bytes (mm_byte_order m)
          in case get_definition (ds_registry s) (mm_tag_id m) of
               Inl _ \<Rightarrow> Next (drv_quality (io_now io) s (mm_tag_id m) ConfigError)
             | Inr _ \<Rightarrow>
                 (case get_tag (ds_registry s) (mm_tag_id m) of
                    Inl _ \<Rightarrow> Next (drv_quality (io_now io) s (mm_tag_id m) CommLost)
                  | Inr _ \<Rightarrow>
                      (case decode_bytes_to_tagvalue p cr (mm_data_type m) ordered (mm_function m)
                              (mm_bit_offset m) of
                         Decoded tv \<Rightarrow> Next (drv_value (io_now io) s (mm_tag_id m) tv Good)
                       | DecodeError _ \<Rightarrow> Next (drv_quality (io_now io) s (mm_tag_id m) ConfigError)
                       | DecodePanic \<Rightarrow> Panicked s)))"

definition is_device_failure :: "string \<Rightarrow> bool" where
  "is_device_failure err \<longleftrightarrow>
     str_contains err ''Slave'' \<and>
     (str_contains err ''Failure'' \<or> str_contains err ''Device'' \<or> str_contains err ''Unavailable'')"

definition mark_all :: "'e modbus_io \<Rightarrow> TagQuality \<Rightarrow> 'e drv_state \<Rightarrow> ModbusMapping list \<Rightarrow> 'e drv_state" where
  "mark_all io q s ms = foldl (\<lambda>s m. drv_quality (io_now io) s (mm_tag_id m) q) s ms"

definition handle_read_error ::
  "'e modbus_io \<Rightarrow> ModbusConfig \<Rightarrow> ModbusMapping list \<Rightarrow> 'e drv_state \<Rightarrow> string
   \<Rightarrow> ('e drv_state, DriverError) ctl" where
  "handle_read_error io cfg members s err =
     (if is_illegal err then Next (mark_all io ConfigError s members)
      else if is_device_failure err \<or> err = ''Timeout'' then
        let s1 = mark_all io CommLost s members;
            s2 = send_health_event (mc_name cfg) s1 ''read_error'' (Some err)
        in Return (s2\<lparr>ds_conn := False\<rparr>) (DModbus err)
      else Next s)"

definition read_chunk ::
  "profile \<Rightarrow> bool \<Rightarrow> 'e modbus_io \<Rightarrow> crates \<Rightarrow> ModbusConfig \<Rightarrow> ModbusFunction \<Rightarrow> ModbusMapping list
   \<Rightarrow> 'e drv_state \<Rightarrow> u16 \<times> u16 \<Rightarrow> ('e drv_state, DriverError) ctl" where
  "read_chunk p warn_on io cr cfg func members s c =
     (case c of (cstart, cqty) \<Rightarrow>
        case read_result io func cstart cqty (ds_env s) of (res, e) \<Rightarrow>
          let s1 = s\<lparr>ds_env := e\<rparr>
          in case res of
               Inr raw \<Rightarrow> for_each (process_mapping p warn_on io cr cstart cqty raw) s1 members
             | Inl err \<Rightarrow> handle_read_error io cfg members s1 err)"

definition read_group ::
  "profile \<Rightarrow> bool \<Rightarrow> 'e modbus_io \<Rightarrow> crates \<Rightarrow> ModbusConfig \<Rightarrow> ModbusFunction \<Rightarrow> 'e drv_state \<Rightarrow> group
   \<Rightarrow> ('e drv_state, DriverError) ctl" where
  "read_group p warn_on io cr cfg func s g =
     (case g of (start_addr, quantity, members) \<Rightarrow>
        case chunk_loop (max_allowed func) start_addr (ucast quantity) of
          None \<Rightarrow> Diverges
        | Some chunks \<Rightarrow> for_each (read_chunk p warn_on io cr cfg func members) s chunks)"

definition read_function ::
  "profile \<Rightarrow> bool \<Rightarrow> 'e modbus_io \<Rightarrow> crates \<Rightarrow> ModbusConfig \<Rightarrow> 'e drv_state \<Rightarrow> ModbusFunction
   \<Rightarrow> ('e drv_state, DriverError) ctl" where
  "read_function p warn_on io cr cfg s func =
     (case build_groups p [] (sorted_for (mc_mappings cfg) func) of
        None \<Rightarrow> Panicked s
      | Some groups \<Rightarrow> for_each (read_group p warn_on io cr cfg func) s groups)"

text \<open>Reuse or establish the context, and take it out of its slot.\<close>

definition ensure_client :: "'e modbus_io \<Rightarrow> ModbusConfig \<Rightarrow> 'e drv_state \<Rightarrow> ('e drv_state, DriverError) ctl" where
  "ensure_client io cfg s =
     (if ds_conn s then Next s
      else case connect_with_backoff io cfg s of
          None \<Rightarrow> Diverges
        | Some s1 \<Rightarrow> Next (s1\<lparr>ds_conn := True\<rparr>))"

definition take_client :: "'e modbus_io \<Rightarrow> ModbusConfig \<Rightarrow> 'e drv_state \<Rightarrow> ('e drv_state, DriverError) ctl" where
  "take_client io cfg s =
     (let taken = s\<lparr>ds_conn := False\<rparr>
      in if ds_conn s then Next taken
         else case connect_with_backoff io cfg taken of None \<Rightarrow> Diverges | Some s1 \<Rightarrow> Next s1)"

definition read_phase ::
  "profile \<Rightarrow> bool \<Rightarrow> 'e modbus_io \<Rightarrow> crates \<Rightarrow> ModbusFunction list \<Rightarrow> ModbusConfig \<Rightarrow> 'e drv_state
   \<Rightarrow> ('e drv_state, DriverError) ctl" where
  "read_phase p warn_on io cr funcs cfg s =
     ctl_bind (for_each (read_function p warn_on io cr cfg) s funcs)
       (\<lambda>s. Next (s\<lparr>ds_conn := True\<rparr>))"

definition run_read_cycle_impl ::
  "profile \<Rightarrow> bool \<Rightarrow> 'e modbus_io \<Rightarrow> crates \<Rightarrow> ModbusFunction list \<Rightarrow> ModbusConfig \<Rightarrow> try_recv list
   \<Rightarrow> 'e drv_state \<Rightarrow> ('e drv_state, DriverError) ctl" where
  "run_read_cycle_impl p warn_on io cr funcs cfg recvs s =
     ctl_bind (write_phase io cr cfg s recvs) (\<lambda>s.
     ctl_bind (ensure_client io cfg s) (\<lambda>s.
     ctl_bind (take_client io cfg s) (\<lambda>s.
       read_phase p warn_on io cr funcs cfg s)))"

lemma reg_evolves_mark_all [evolves]: "reg_evolves r s \<Longrightarrow> reg_evolves r (mark_all io q s ms)"
  unfolding mark_all_def by (rule foldl_invariant) (auto intro: evolves)

lemma reg_evolves_connect:
  "connect_with_backoff io cfg s = Some s' \<Longrightarrow> reg_evolves r s \<Longrightarrow> reg_evolves r s'"
  unfolding connect_with_backoff_def by (rule reg_evolves_connect_loop)

lemma after_write_evolves: "reg_evolves r s \<Longrightarrow> ctl_all (reg_evolves r) (after_write io cfg s req m res)"
  by (auto simp: after_write_def Let_def evolves split: response.split)

lemma write_holding_evolves:
  assumes "reg_evolves r s"
  shows "ctl_all (reg_evolves r) (write_holding io cr cfg s req m ws)"
proof -
  have "reg_evolves r s1" if "(if ds_conn s then Some (s\<lparr>ds_conn := False\<rparr>)
      else connect_with_backoff io cfg (s\<lparr>ds_conn := False\<rparr>)) = Some s1" for s1
    using that assms reg_evolves_connect [of io cfg "s\<lparr>ds_conn := False\<rparr>" s1 r]
    by (auto simp: evolves split: if_splits)
  then show ?thesis
    using assms
    by (auto simp: write_holding_def Let_def evolves case_prod_beta split: option.split
        intro!: after_write_evolves)
qed

lemma handle_write_evolves:
  "reg_evolves r s \<Longrightarrow> ctl_all (reg_evolves r) (handle_write io cr cfg s req)"
  by (auto simp: handle_write_def evolves write_holding_evolves split: option.split sum.split)

lemma write_phase_evolves:
  "reg_evolves r s \<Longrightarrow> ctl_all (reg_evolves r) (write_phase io cr cfg s recvs)"
  unfolding write_phase_def by (rule drain_evolves) (rule handle_write_evolves)

lemma process_mapping_evolves:
  "reg_evolves r s \<Longrightarrow> ctl_all (reg_evolves r) (process_mapping p w io cr cs cq raw s m)"
  by (auto simp: process_mapping_def Let_def evolves split: slice.split sum.split decoded.split)

lemma handle_read_error_evolves:
  "reg_evolves r s \<Longrightarrow> ctl_all (reg_evolves r) (handle_read_error io cfg ms s err)"
  by (simp add: handle_read_error_def Let_def evolves)

lemma read_chunk_evolves:
  assumes "reg_evolves r s"
  shows "ctl_all (reg_evolves r) (read_chunk p w io cr cfg f ms s c)"
  unfolding read_chunk_def case_prod_beta Let_def
  using assms
  by (auto split: sum.split intro!: handle_read_error_evolves ctl_all_for_each
      process_mapping_evolves evolves)

lemma read_function_evolves:
  assumes "reg_evolves r s"
  shows "ctl_all (reg_evolves r) (read_function p w io cr cfg s f)"
proof -
  have "ctl_all (reg_evolves r) (read_group p w io cr cfg f s g)" if "reg_evolves r s" for s g
    using that unfolding read_group_def
    by (auto split: prod.split option.split intro!: ctl_all_for_each read_chunk_evolves)
  then show ?thesis
    using assms unfolding read_function_def
    by (auto split: option.split intro!: ctl_all_for_each)
qed

lemma read_phase_evolves:
  "reg_evolves r s \<Longrightarrow> ctl_all (reg_evolves r) (read_phase p w io cr funcs cfg s)"
  unfolding read_phase_def
  by (rule ctl_all_bind) (auto intro!: ctl_all_for_each read_function_evolves evolves)

lemma client_evolves:
  assumes "reg_evolves r s"
  shows "ctl_all (reg_evolves r) (ensure_client io cfg s)"
    and "ctl_all (reg_evolves r) (take_client io cfg s)"
  using assms reg_evolves_connect [of io cfg s _ r] reg_evolves_connect [of io cfg "s\<lparr>ds_conn := False\<rparr>" _ r]
  by (auto simp: ensure_client_def take_client_def Let_def evolves split: option.split)

lemma cycle_evolves:
  "reg_evolves r s \<Longrightarrow> ctl_all (reg_evolves r) (run_read_cycle_impl p w io cr funcs cfg recvs s)"
  unfolding run_read_cycle_impl_def
  by (intro ctl_all_bind write_phase_evolves client_evolves read_phase_evolves)

interpretation modbus: protocol_driver
  "run_read_cycle_impl p warn_on io cr funcs cfg" ds_registry
  for p warn_on io cr funcs cfg
  using cycle_evolves [of "ds_registry s" s for s]
  by unfold_locales (simp add: reg_evolves_def [abs_def])

section \<open>Early returns\<close>

lemma after_write_ret: "ctl_ret (\<lambda>s e. \<not> ds_conn s) (after_write io cfg s req m res)"
  by (simp add: after_write_def Let_def split: response.split)

lemma handle_write_ret: "ctl_ret (\<lambda>s e. \<not> ds_conn s) (handle_write io cr cfg s req)"
  by (auto simp: handle_write_def write_holding_def Let_def after_write_ret
      split: option.split sum.split prod.split)

lemma write_phase_ret: "ctl_ret (\<lambda>s e. \<not> ds_conn s) (write_phase io cr cfg s recvs)"
  unfolding write_phase_def by (rule drain_ret) (rule handle_write_ret)

lemma process_mapping_ret: "ctl_ret R (process_mapping p w io cr cs cq raw s m)"
  by (simp add: process_mapping_def Let_def split: slice.split sum.split decoded.split)

lemma read_chunk_ret: "ctl_ret (\<lambda>s e. \<not> ds_conn s) (read_chunk p w io cr cfg f ms s c)"
  by (auto simp: read_chunk_def Let_def handle_read_error_def case_prod_beta
      intro!: ctl_ret_for_each process_mapping_ret split: sum.split)

lemma read_phase_ret: "ctl_ret (\<lambda>s e. \<not> ds_conn s) (read_phase p w io cr funcs cfg s)"
proof -
  have "ctl_ret (\<lambda>s e. \<not> ds_conn s) (read_group p w io cr cfg f s g)" for s f g
    by (auto simp: read_group_def intro!: ctl_ret_for_each read_chunk_ret split: prod.split option.split)
  then have "ctl_ret (\<lambda>s e. \<not> ds_conn s) (read_function p w io cr cfg s f)" for s f
    by (auto simp: read_function_def intro!: ctl_ret_for_each split: option.split)
  then show ?thesis
    unfolding read_phase_def by (auto intro!: ctl_ret_bind ctl_ret_for_each)
qed

lemma cycle_ret: "ctl_ret (\<lambda>s e. \<not> ds_conn s) (run_read_cycle_impl p w io cr funcs cfg recvs s)"
  unfolding run_read_cycle_impl_def
  by (intro ctl_ret_bind write_phase_ret read_phase_ret)
    (auto simp: ensure_client_def take_client_def Let_def split: option.split)

lemma read_phase_Next: "read_phase p w io cr funcs cfg s = Next s' \<Longrightarrow> ds_conn s'"
  by (cases "for_each (read_function p w io cr cfg) s funcs") (auto simp: read_phase_def)

lemma cycle_Next:
  assumes "run_read_cycle_impl p w io cr funcs cfg recvs s = Next s'"
  shows "ds_conn s'"
proof -
  obtain s0 where w: "write_phase io cr cfg s recvs = Next s0"
    using assms unfolding run_read_cycle_impl_def by (cases "write_phase io cr cfg s recvs") auto
  obtain s1 where e: "ensure_client io cfg s0 = Next s1"
    using assms w unfolding run_read_cycle_impl_def by (cases "ensure_client io cfg s0") auto
  obtain s2 where "take_client io cfg s1 = Next s2"
    using assms w e unfolding run_read_cycle_impl_def by (cases "take_client io cfg s1") auto
  with w e assms have "read_phase p w io cr funcs cfg s2 = Next s'"
    by (simp add: run_read_cycle_impl_def)
  then show ?thesis by (rule read_phase_Next)
qed

section \<open>Replies\<close>

lemma replies_connect: "connect_with_backoff io cfg s = Some s' \<Longrightarrow> replies s' = replies s"
  unfolding connect_with_backoff_def by (rule replies_connect_loop)

lemma after_write_answers: "replies s1 = replies s \<Longrightarrow> ctl_all (answered s req) (after_write io cfg s1 req m res)"
  by (auto simp: after_write_def Let_def answered_def reply_simps split: response.split)

lemma write_holding_answers: "ctl_all (answered s req) (write_holding io cr cfg s req m ws)"
  using replies_connect [of io cfg "s\<lparr>ds_conn := False\<rparr>"]
  by (auto simp: write_holding_def Let_def answered_def [of s req] reply_simps case_prod_beta
      split: option.split if_splits intro!: after_write_answers simp flip: answered_def)

lemma handle_write_answers: "ctl_all (answered s req) (handle_write io cr cfg s req)"
  using write_holding_answers
  by (auto simp: handle_write_def answered_def reply_simps split: option.split sum.split)

lemma handle_write_cases: "(\<exists>s'. handle_write io cr cfg s req = Next s')
   \<or> (\<exists>s' e. handle_write io cr cfg s req = Return s' e) \<or> handle_write io cr cfg s req = Diverges"
  by (auto simp: handle_write_def write_holding_def after_write_def Let_def case_prod_beta
      split: option.splits sum.splits response.splits)

interpretation modbus_writes: write_handler "handle_write io cr cfg"
  for io :: "'e modbus_io" and cr cfg
proof
  show "ctl_all (answered s req) (handle_write io cr cfg s req)" for s req by (rule handle_write_answers)
  show "handle_write io cr cfg s req \<noteq> Break s'" "handle_write io cr cfg s req \<noteq> Panicked s'" for s req s'
    using handle_write_cases [of io cr cfg s req] by auto
qed

section \<open>A device for evaluation\<close>

text \<open>A device whose memory is a function; it counts the clock readings, accepts every connection and
  answers every request.\<close>

definition example_io :: "(nat \<Rightarrow> u16) \<Rightarrow> nat modbus_io" where
  "example_io mem =
     \<lparr>io_connect = (\<lambda>e. (True, e)),
      io_read_regs = (\<lambda>_ a q e. (Resp (map mem [unat a..<unat a + unat q]), e)),
      io_read_bits = (\<lambda>_ a q e. (Resp (replicate (unat q) False), e)),
      io_write = (\<lambda>_ _ e. (Resp (), e)),
      io_now = (\<lambda>e. (int e, e + 1))\<rparr>"

definition example_state :: "nat drv_state" where
  "example_state = \<lparr>ds_registry = example_registry, ds_conn = True, ds_health = True, ds_env = 0, ds_out = []\<rparr>"

definition example_config_a :: ModbusConfig where
  "example_config_a = ModbusConfig_new ''plc'' ''10.0.0.1:502'' 1 1000
     [ModbusMapping_new ''a'' 100 1 HoldingRegisters TUInt16 0 True BADC]"

section \<open>Accepted writes\<close>

text \<open>A write to a writable holding-register mapping that the device accepts sends the value's registers in
  the mapping's byte order to the mapping's address, answers \<open>Ok\<close>, and publishes the value with quality
  \<open>Good\<close> when it has the tag's configured type; when it has another type the device was written and \<open>Ok\<close>
  answered, but the registry keeps the old value.\<close>

lemma accepted_write_effect:
  assumes "store_wf (reg_tags (ds_registry s))" and "ds_conn s"
    and "find_first (\<lambda>m. mm_tag_id m = wr_tag_id req) (mc_mappings cfg) = Some m"
    and "mm_writable m" and "mm_function m = HoldingRegisters"
    and "tagvalue_to_registers cr (wr_value req) = Inr words"
    and "io_write io (mm_address m) (ordered_write_words cr (mm_byte_order m) words) (ds_env s) = (Resp (), e)"
    and "reg_def (ds_registry s) (wr_tag_id req) = Some d"
    and "reg_map (ds_registry s) (wr_tag_id req) = Some t"
  shows "\<exists>s' t'. handle_write io cr cfg s req = Next s' \<and> ds_conn s'
    \<and> replies s' = replies s @ reply_to req (Inr ())
    \<and> reg_map (ds_registry s') = (reg_map (ds_registry s))(wr_tag_id req \<mapsto> t')
    \<and> (if data_type (wr_value req) = td_data_type d
       then tag_value t' = wr_value req \<and> tag_quality t' = Good else t' = t)"
proof -
  have tid: "mm_tag_id m = wr_tag_id req" using find_first_Some(2) [OF assms(3)] by simp
  define s1 where "s1 = s\<lparr>ds_env := e, ds_conn := True\<rparr>"
  have "s\<lparr>ds_conn := True, ds_env := e\<rparr> = s1" by (simp add: s1_def)
  then have hw: "handle_write io cr cfg s req = Next (drv_reply (drv_value (io_now io) s1 (wr_tag_id req) (wr_value req) Good) req (Inr ()))"
    using assms(2-7) by (simp add: handle_write_def write_holding_def Let_def after_write_def s1_def tid)
  let ?s' = "drv_reply (drv_value (io_now io) s1 (wr_tag_id req) (wr_value req) Good) req (Inr ())"
  define now ts where "now = fst (io_now io (snd (io_now io e)))" and "ts = fst (io_now io e)"
  have reg: "ds_registry ?s' = upd_val now (ds_registry s) (wr_tag_id req) (wr_value req) Good ts"
    by (simp add: s1_def now_def ts_def)
  have "reg_map (ds_registry ?s') = (reg_map (ds_registry s))(wr_tag_id req \<mapsto>
      (if data_type (wr_value req) = td_data_type d then apply_read now t (wr_value req) Good ts else t))"
    unfolding reg reg_map_upd_val [OF assms(1)] using assms(8,9) by (auto simp: fun_eq_iff)
  moreover have "replies ?s' = replies s @ reply_to req (Inr ())"
    by (simp add: reply_simps) (simp add: s1_def reply_simps)
  moreover have "ds_conn ?s'" by (simp add: s1_def)
  ultimately show ?thesis
    unfolding hw
    by (intro exI [of _ ?s'] exI [of _ "if data_type (wr_value req) = td_data_type d
          then apply_read now t (wr_value req) Good ts else t"]) (simp add: apply_read_def)
qed

section \<open>Properties\<close>

text \<open>However many cycles the Modbus driver runs, on whatever device behaviour, queue contents,
  configuration and build profile, and however each cycle ends (success, error, panic, a connection
  that is never made), every defined tag is still there with a value of its configured type, and the
  definitions are unchanged.\<close>

lemma modbus_cycles_keep_registry_typed:
  assumes "from_definitions clk defs = Inr (ds_registry s)" and "d \<in> set defs"
  shows "\<exists>t. get_tag (ds_registry (run_cycles (run_read_cycle_impl p warn_on io cr funcs cfg) inputs s)) (td_id d)
      = Inr t \<and> data_type (tag_value t) = td_data_type d
    \<and> get_definition (ds_registry (run_cycles (run_read_cycle_impl p warn_on io cr funcs cfg) inputs s)) (td_id d)
      = Inr d"
proof -
  have wf: "reg_wf (ds_registry s)" using assms(1) by (rule from_definitions_wf)
  have d: "reg_def (ds_registry s) (td_id d) = Some d" using from_definitions_tag(1) [OF assms] .
  show ?thesis
    using modbus.run_cycles_typed [OF wf d, of p warn_on io cr funcs cfg inputs]
      modbus.run_cycles_wf(2) [OF wf, of p warn_on io cr funcs cfg inputs] d
    by (auto simp: get_tag_map get_definition_def_map reg_def_def)
qed

lemma modbus_cycles_keep_registry_typed_witness:
  "\<exists>t. get_tag (ds_registry (run_cycles
      (run_read_cycle_impl Debug True (example_io (\<lambda>n. of_nat n)) example_crates [HoldingRegisters] example_config_a)
      [[], [RecvEmpty]] example_state)) ''a'' = Inr t \<and> data_type (tag_value t) = TUInt16"
proof -
  have "from_definitions (\<lambda>_. 1) [example_definition] = Inr (ds_registry example_state)"
    by (simp add: example_registry_eq example_state_def)
  from modbus_cycles_keep_registry_typed [OF this, of example_definition] show ?thesis
    unfolding example_definition_sel list.set by blast
qed

text \<open>A cycle that succeeds leaves a connection in the client slot for the next one; a cycle that
  returns an error leaves the slot empty, so that the next cycle reconnects.\<close>

lemma modbus_cycle_client_slot:
  "case run_read_cycle_impl p warn_on io cr funcs cfg recvs s of
     Next s' \<Rightarrow> ds_conn s'
   | Return s' _ \<Rightarrow> \<not> ds_conn s'
   | _ \<Rightarrow> True"
  using cycle_Next [of p warn_on io cr funcs cfg recvs s] cycle_ret [of p warn_on io cr funcs cfg recvs s]
  by (auto split: ctl.split)

text \<open>C11: The write phase answers the requests it takes from the queue in their order, each exactly once:
  all of the at most 64 taken, or, when a device or transport error ends the phase, those up to and
  including the failing one.  It never panics.\<close>

theorem write_phase_replies:
  "case write_phase io cr cfg s recvs of
     Next s' \<Rightarrow> map fst (replies s') = map fst (replies s) @ reply_ids (drained (take 64 recvs))
   | Return s' _ \<Rightarrow> (\<exists>k < length (drained (take 64 recvs)).
       map fst (replies s') = map fst (replies s) @ reply_ids (take (Suc k) (drained (take 64 recvs))))
       \<and> \<not> ds_conn s'
   | Diverges \<Rightarrow> True
   | _ \<Rightarrow> False"
  using modbus_writes.drain_answers [of s recvs io cr cfg] write_phase_ret [of io cr cfg s recvs]
  unfolding answers_prefix_def write_phase_def by (auto split: ctl.splits)

text \<open>C31: Reconnecting ends as soon as the device accepts a connection: after \<open>n\<close> refusals the driver has waited
  \<open>n\<close> times, the \<open>k\<close>-th time for \<open>2^k\<close> seconds capped at the configured maximum, and has changed
  nothing else.  (The maximum is at least one second: with zero the driver retries without waiting.)\<close>

theorem modbus_reconnect_backoff:
  assumes "\<forall>k < n. \<not> fst (io_connect io (attempts (io_connect io) k (ds_env s)))"
    and "fst (io_connect io (attempts (io_connect io) n (ds_env s)))"
    and "1 \<le> mc_max_backoff_secs cfg"
  shows "\<exists>ts e. connect_with_backoff io cfg s = Some (s\<lparr>ds_env := e, ds_out := ds_out s @ map Slept ts\<rparr>)
    \<and> length ts = n \<and> (\<forall>k < n. unat (ts ! k) = min (2 ^ k) (unat (mc_max_backoff_secs cfg)))"
  using connect_loop_returns [OF assms(1,2), of "mc_max_backoff_secs cfg" 1] assms(3)
    backoffs_nth [of _ n 1 "mc_max_backoff_secs cfg"]
  unfolding connect_with_backoff_def by (intro exI) (auto simp del: attempts.simps)

definition flaky_io :: "nat modbus_io" where
  "flaky_io = (example_io (\<lambda>n. of_nat n))\<lparr>io_connect := (\<lambda>e. (3 \<le> e, Suc e))\<rparr>"

theorem modbus_reconnect_backoff_witness:
  "\<exists>ts e. connect_with_backoff flaky_io example_config_a example_state
      = Some (example_state\<lparr>ds_env := e, ds_out := ds_out example_state @ map Slept ts\<rparr>) \<and> length ts = 3
    \<and> (\<forall>k < 3. unat (ts ! k) = min (2 ^ k) 30)"
proof -
  have att: "attempts (\<lambda>e. (3 \<le> e, Suc e)) k e = e + k" for k e :: nat
    by (induction k arbitrary: e) auto
  show ?thesis
    using modbus_reconnect_backoff [of 3 flaky_io example_state example_config_a]
    by (simp add: flaky_io_def att example_state_def example_config_a_def ModbusConfig_new_def)
qed

text \<open>A failed read whose text is neither an illegal address, nor a device failure, nor the timeout
  leaves the whole driver state as it was: the tags keep the quality they had and the broken
  connection stays in use.  The text of every transport error that does not happen to contain those
  words is of this kind.\<close>

lemma unclassified_read_error_is_silent:
  assumes "\<not> is_illegal err" and "\<not> is_device_failure err" and "err \<noteq> ''Timeout''"
  shows "handle_read_error io cfg members s err = Next s"
  using assms by (simp add: handle_read_error_def)

lemma unclassified_read_error_is_silent_witness:
  "handle_read_error (example_io (\<lambda>n. of_nat n)) example_config_a (mc_mappings example_config_a)
     example_state ''Transport: Broken pipe (os error 32)'' = Next example_state"
  by (rule unclassified_read_error_is_silent) (simp_all add: is_illegal_def is_device_failure_def)

end
