(* ===== verification/Modbus_Read.thy ===== *)
theory Modbus_Read
  imports Modbus_Cycle
begin

text \<open>
  What the read phase of the Modbus driver delivers when the device answers: for a validated
  configuration over register functions, every mapping ends up in the registry with quality \<open>Good\<close>
  and the value that decodes from its own registers, whatever groups and requests the planner built.
  The hypothesis that no mapping is split over two requests is needed: the last section shows what
  the code does with a split mapping, and with coils.
\<close>

definition regs_in :: "(ModbusFunction \<Rightarrow> nat \<Rightarrow> u16) \<Rightarrow> ModbusMapping \<Rightarrow> u16 list" where
  "regs_in mem m = map (mem (mm_function m))
     [unat (mm_address m)..<unat (mm_address m) + unat (mm_quantity m)]"

definition device_value ::
  "profile \<Rightarrow> crates \<Rightarrow> (ModbusFunction \<Rightarrow> nat \<Rightarrow> u16) \<Rightarrow> ModbusMapping \<Rightarrow> TagValue decoded" where
  "device_value p cr mem m =
     decode_bytes_to_tagvalue p cr (mm_data_type m)
       (apply_byte_order (registers_to_bytes (regs_in mem m)) (mm_byte_order m)) (mm_function m)
       (mm_bit_offset m)"

text \<open>A device that answers every register read inside the address space with its memory.\<close>

definition answers_reads :: "'e modbus_io \<Rightarrow> (ModbusFunction \<Rightarrow> nat \<Rightarrow> u16) \<Rightarrow> bool" where
  "answers_reads io mem \<longleftrightarrow>
     (\<forall>f a q e. (f = HoldingRegisters \<or> f = InputRegisters) \<and> unat a + unat q \<le> 2 ^ 16 \<longrightarrow>
        (\<exists>e'. io_read_regs io f a q e = (Resp (map (mem f) [unat a..<unat a + unat q]), e')))"

definition register_mapping :: "TagRegistry \<Rightarrow> ModbusMapping \<Rightarrow> bool" where
  "register_mapping r m \<longleftrightarrow>
     addressable m \<and> check_mapping m = None
     \<and> (mm_function m = HoldingRegisters \<or> mm_function m = InputRegisters)
     \<and> (mm_data_type m = TDateTime \<longrightarrow> 4 \<le> unat (mm_quantity m))
     \<and> (case reg_def r (mm_tag_id m) of None \<Rightarrow> False | Some d \<Rightarrow> td_data_type d = mm_data_type m)"

text \<open>No request boundary runs through a mapping.\<close>

definition unsplit :: "profile \<Rightarrow> ModbusMapping list \<Rightarrow> ModbusFunction \<Rightarrow> bool" where
  "unsplit p ms f =
     (case build_groups p [] (sorted_for ms f) of
        None \<Rightarrow> True
      | Some gs \<Rightarrow>
          list_all (\<lambda>(start, qty, members).
            case chunk_loop (max_allowed f) start (ucast qty) of
              None \<Rightarrow> True
            | Some cs \<Rightarrow>
                list_all (\<lambda>c. list_all (\<lambda>m. regs_of m \<subseteq> set (chunk_regs c)
                    \<or> regs_of m \<inter> set (chunk_regs c) = {}) members) cs) gs)"

section \<open>Decoding\<close>

lemma decode_type: "decode_bytes_to_tagvalue p cr dt bytes f b = Decoded v \<Longrightarrow> data_type v = dt"
  by (cases dt) (auto simp: decode_bytes_to_tagvalue_def split: if_splits option.splits)

lemma device_value_total:
  assumes "register_mapping r m"
  shows "\<exists>v. device_value p cr mem m = Decoded v \<and> data_type v = mm_data_type m"
proof -
  have "unat (mm_bit_offset m) < 16"
    using assms by (auto simp: register_mapping_def check_mapping_def word_le_nat_alt split: if_splits)
  moreover have "length (regs_in mem m) = unat (mm_quantity m)" by (simp add: regs_in_def)
  ultimately have "\<exists>v. device_value p cr mem m = Decoded v"
    using assms
    by (cases "mm_data_type m")
      (auto simp: device_value_def decode_bytes_to_tagvalue_def shr_ck_def register_mapping_def)
  then show ?thesis using decode_type by (fastforce simp: device_value_def)
qed

section \<open>One mapping\<close>

definition shown ::
  "profile \<Rightarrow> crates \<Rightarrow> (ModbusFunction \<Rightarrow> nat \<Rightarrow> u16) \<Rightarrow> TagRegistry \<Rightarrow> ModbusMapping set
   \<Rightarrow> 'e drv_state \<Rightarrow> ModbusMapping set \<Rightarrow> bool" where
  "shown p cr mem r U s M =
     publishes (reg_definitions r) mm_tag_id
       (\<lambda>m. case device_value p cr mem m of Decoded v \<Rightarrow> Some v | _ \<Rightarrow> None) U s M"

text \<open>\<open>inside c m\<close>: the request covers the mapping.\<close>

definition inside :: "u16 \<times> u16 \<Rightarrow> ModbusMapping \<Rightarrow> bool" where
  "inside c m \<longleftrightarrow> regs_of m \<subseteq> set (chunk_regs c)"

lemma process_inside:
  assumes "shown p cr mem r U s M" and "register_mapping r m" and "m \<in> U"
    and inj: "inj_on mm_tag_id U" and "inside (cs, cq) m"
  shows "\<exists>s'. process_mapping p w io cr cs cq
      (registers_to_bytes (map (mem (mm_function m)) [unat cs..<unat cs + unat cq])) s m = Next s'
    \<and> shown p cr mem r U s' (M \<union> {m})"
proof -
  have over: "over (reg_definitions r) s" using assms(1) by (simp add: shown_def publishes_def)
  have pos: "0 < unat (mm_quantity m)" using assms(2) check_mapping_pos by (auto simp: register_mapping_def)
  have ins: "unat cs \<le> unat (mm_address m)"
    "unat (mm_address m) + unat (mm_quantity m) \<le> unat cs + unat cq"
    using interval_subset [of "unat (mm_address m)" "unat (mm_address m) + unat (mm_quantity m)" "unat cs" "unat cs + unat cq"]
      assms(5) pos by (auto simp: inside_def regs_of_def chunk_regs_def)
  have "take (unat (mm_quantity m)) (drop (unat (mm_address m) - unat cs)
      (map (mem (mm_function m)) [unat cs..<unat cs + unat cq])) = regs_in mem m"
    using ins by (simp add: regs_in_def drop_map take_map)
  then have slice: "mapping_slice p w cs cq
      (registers_to_bytes (map (mem (mm_function m)) [unat cs..<unat cs + unat cq])) m
      = Slice (registers_to_bytes (regs_in mem m))"
    using mapping_slice_inside [OF pos ins] by simp
  obtain v where v: "device_value p cr mem m = Decoded v" "data_type v = mm_data_type m"
    using device_value_total [OF assms(2)] by blast
  obtain d where d: "reg_def (ds_registry s) (mm_tag_id m) = Some d"
    using over assms(2) by (auto simp: over_def register_mapping_def reg_def_def split: option.splits)
  then obtain t where t: "reg_map (ds_registry s) (mm_tag_id m) = Some t"
    using over unfolding over_def reg_wf_def by blast
  have "process_mapping p w io cr cs cq
      (registers_to_bytes (map (mem (mm_function m)) [unat cs..<unat cs + unat cq])) s m
      = Next (drv_value (io_now io) s (mm_tag_id m) v Good)"
    using v(1) d t by (simp add: process_mapping_def slice Let_def get_definition_def_map get_tag_map device_value_def)
  moreover have "td_data_type d = data_type v" using d over assms(2) v(2)
    by (simp add: over_def register_mapping_def reg_def_def split: option.splits)
  then have "shown p cr mem r U (drv_value (io_now io) s (mm_tag_id m) v Good) (M \<union> {m})"
    using assms(1) v(1) unfolding shown_def by (intro publishes_value [OF _ inj assms(3) _ d]) simp_all
  ultimately show ?thesis by blast
qed

lemma process_outside:
  assumes "0 < unat (mm_quantity m)" and "0 < unat cq" and "regs_of m \<inter> set (chunk_regs (cs, cq)) = {}"
  shows "process_mapping p w io cr cs cq raw s m = Next s"
proof -
  let ?a = "unat (mm_address m)" and ?q = "unat (mm_quantity m)"
  have "?a + ?q - 1 < unat cs \<or> unat cs + unat cq - 1 < ?a"
  proof (rule ccontr)
    assume "\<not> ?thesis"
    then have "max ?a (unat cs) \<in> regs_of m \<inter> set (chunk_regs (cs, cq))"
      using assms(1,2) by (auto simp: regs_of_def chunk_regs_def)
    with assms(3) show False by blast
  qed
  then show ?thesis by (simp add: process_mapping_def mapping_slice_nat [OF assms(1,2)])
qed

section \<open>Requests, groups, functions\<close>

lemma shown_env [simp]:
  "shown p cr mem r U (s\<lparr>ds_env := e\<rparr>) M = shown p cr mem r U s M"
  "shown p cr mem r U (s\<lparr>ds_conn := c\<rparr>) M = shown p cr mem r U s M"
  by (simp_all add: shown_def)

lemma read_chunk_ok:
  assumes "answers_reads io mem" and "f = HoldingRegisters \<or> f = InputRegisters"
    and "0 < unat (snd c)" and "unat (fst c) + unat (snd c) \<le> 2 ^ 16"
    and members: "set members \<subseteq> U" "\<forall>m \<in> set members. register_mapping r m \<and> mm_function m = f"
      "\<forall>m \<in> set members. inside c m \<or> regs_of m \<inter> set (chunk_regs c) = {}"
    and "inj_on mm_tag_id U" and "shown p cr mem r U s M"
  shows "\<exists>s'. read_chunk p w io cr cfg f members s c = Next s'
    \<and> shown p cr mem r U s' (M \<union> {m \<in> set members. inside c m})"
proof -
  obtain cs cq where c: "c = (cs, cq)" by (cases c)
  let ?raw = "registers_to_bytes (map (mem f) [unat cs..<unat cs + unat cq])"
  have "\<exists>e'. io_read_regs io f cs cq (ds_env s) = (Resp (map (mem f) [unat cs..<unat cs + unat cq]), e')"
    using assms(1,2,4) unfolding answers_reads_def c by simp
  then obtain e' where "io_read_regs io f cs cq (ds_env s) = (Resp (map (mem f) [unat cs..<unat cs + unat cq]), e')" ..
  then have rr: "read_result io f cs cq (ds_env s) = (Inr ?raw, e')"
    using assms(2) by (auto simp: read_result_def response_bytes_def)
  have "\<exists>s'. process_mapping p w io cr cs cq ?raw s m = Next s'
      \<and> shown p cr mem r U s' (M \<union> (if inside c m then {m} else {}))"
    if m: "m \<in> set members" and sh: "shown p cr mem r U s M" for s m M
  proof (cases "inside c m")
    case True
    then show ?thesis
      using process_inside [OF sh _ _ assms(8), of m cs cq w io] members m by (auto simp: c)
  next
    case False
    have "0 < unat (mm_quantity m)" using members(2) m check_mapping_pos by (auto simp: register_mapping_def)
    moreover have "regs_of m \<inter> set (chunk_regs (cs, cq)) = {}" using False members(3) m by (auto simp: c)
    ultimately have "process_mapping p w io cr cs cq ?raw s m = Next s"
      using assms(3) by (intro process_outside) (simp_all add: c)
    then show ?thesis using False sh by simp
  qed
  then have "\<exists>s'. for_each (process_mapping p w io cr cs cq ?raw) (s\<lparr>ds_env := e'\<rparr>) members = Next s'
      \<and> shown p cr mem r U s' (M \<union> (\<Union>m \<in> set members. if inside c m then {m} else {}))"
    by (rule for_each_collect) (use assms(9) in simp_all)
  moreover have "(\<Union>m \<in> set members. if inside c m then {m} else {}) = {m \<in> set members. inside c m}" by auto
  ultimately show ?thesis by (simp add: read_chunk_def c rr Let_def)
qed

lemma read_group_ok:
  assumes "answers_reads io mem" and "f = HoldingRegisters \<or> f = InputRegisters"
    and g: "g = (start, qty, members)" "group_ok g"
    and members: "set members \<subseteq> U" "\<forall>m \<in> set members. register_mapping r m \<and> mm_function m = f"
    and unsplit: "\<And>cs c m. chunk_loop (max_allowed f) start (ucast qty) = Some cs \<Longrightarrow> c \<in> set cs \<Longrightarrow>
      m \<in> set members \<Longrightarrow> inside c m \<or> regs_of m \<inter> set (chunk_regs c) = {}"
    and "inj_on mm_tag_id U" and "shown p cr mem r U s M"
  shows "\<exists>s'. read_group p w io cr cfg f s g = Next s' \<and> shown p cr mem r U s' (M \<union> set members)"
proof -
  obtain cs where cs: "chunk_loop (max_allowed f) start (ucast qty) = Some cs"
    and cov: "concat (map chunk_regs cs) = group_interval g"
    and pos: "\<forall>c \<in> set cs. 0 < unat (snd c) \<and> unat (snd c) \<le> unat (max_allowed f)"
    using group_requests [OF g(2), of f] by (auto simp: g(1))
  have sub: "set (chunk_regs c) \<subseteq> {unat start..<unat start + unat qty}" if "c \<in> set cs" for c
    using that arg_cong [OF cov, of set] by (auto simp: g(1) group_interval_def)
  have small: "unat start + unat qty < 2 ^ 16" using g by (simp add: group_ok_def)
  have bnd: "unat (fst c) + unat (snd c) \<le> 2 ^ 16" if "c \<in> set cs" for c
    using interval_subset [of "unat (fst c)" "unat (fst c) + unat (snd c)"] sub [OF that] pos that small
    by (fastforce simp: chunk_regs_def)
  have "\<exists>s'. read_chunk p w io cr cfg f members s c = Next s'
      \<and> shown p cr mem r U s' (M \<union> {m \<in> set members. inside c m})"
    if "c \<in> set cs" "shown p cr mem r U s M" for s c M
    using that pos by (intro read_chunk_ok [OF assms(1,2) _ bnd members]) (use unsplit [OF cs] assms(8) in auto)
  then have "\<exists>s'. for_each (read_chunk p w io cr cfg f members) s cs = Next s'
      \<and> shown p cr mem r U s' (M \<union> (\<Union>c \<in> set cs. {m \<in> set members. inside c m}))"
    by (rule for_each_collect) (use assms(9) in simp_all)
  moreover have "(\<Union>c \<in> set cs. {m \<in> set members. inside c m}) = set members"
  proof -
    have "\<exists>c \<in> set cs. inside c m" if m: "m \<in> set members" for m
    proof -
      have "0 < unat (mm_quantity m)" using members(2) m check_mapping_pos by (auto simp: register_mapping_def)
      then have a: "unat (mm_address m) \<in> regs_of m" by (simp add: regs_of_def)
      then have "unat (mm_address m) \<in> set (group_interval g)" using g m by (auto simp: set_group_interval)
      then have "unat (mm_address m) \<in> (\<Union>c \<in> set cs. set (chunk_regs c))"
        using arg_cong [OF cov, of set] by simp
      then obtain c where "c \<in> set cs" "unat (mm_address m) \<in> set (chunk_regs c)" by blast
      with unsplit [OF cs _ m] a show ?thesis by blast
    qed
    then show ?thesis by auto
  qed
  ultimately show ?thesis by (simp add: read_group_def g(1) cs)
qed

lemma set_group_members: "set (group_members gs) = (\<Union>g \<in> set gs. set (snd (snd g)))"
  by (simp add: group_members_def case_prod_beta)

lemma read_function_ok:
  assumes "answers_reads io mem" and "unsplit p (mc_mappings cfg) f"
    and regs: "\<forall>m \<in> set (mc_mappings cfg). register_mapping r m"
    and f: "f = HoldingRegisters \<or> f = InputRegisters"
    and "inj_on mm_tag_id (set (mc_mappings cfg))"
    and sh: "shown p cr mem r (set (mc_mappings cfg)) s M"
  shows "\<exists>s'. read_function p w io cr cfg s f = Next s'
    \<and> shown p cr mem r (set (mc_mappings cfg)) s' (M \<union> {m \<in> set (mc_mappings cfg). mm_function m = f})"
proof -
  let ?ms = "mc_mappings cfg"
  have "list_all addressable (sorted_for ?ms f)"
    "list_all (\<lambda>m. 0 < unat (mm_quantity m)) (sorted_for ?ms f)"
    using regs check_mapping_pos by (auto simp: list_all_iff sorted_for_facts register_mapping_def)
  then obtain gs where gs: "build_groups p [] (sorted_for ?ms f) = Some gs" "groups_ok gs"
    "group_members gs = sorted_for ?ms f"
    using build_groups_ok [of "[]" "sorted_for ?ms f" p] sorted_for_facts(1)
    by (auto simp: groups_ok_def group_members_def)
  have mem: "set (snd (snd g)) \<subseteq> {m \<in> set ?ms. mm_function m = f}" if "g \<in> set gs" for g
    using that arg_cong [OF gs(3), of set] unfolding set_group_members sorted_for_facts(3) by blast
  have "\<exists>s'. read_group p w io cr cfg f s g = Next s'
      \<and> shown p cr mem r (set ?ms) s' (M \<union> set (snd (snd g)))"
    if gin: "g \<in> set gs" and "shown p cr mem r (set ?ms) s M" for s g M
  proof -
    obtain start qty members where g: "g = (start, qty, members)" by (cases g)
    have ok: "group_ok g" using gs(2) gin by (simp add: groups_ok_def list_all_iff)
    have "inside c m \<or> regs_of m \<inter> set (chunk_regs c) = {}"
      if "chunk_loop (max_allowed f) start (ucast qty) = Some cs" "c \<in> set cs" "m \<in> set members" for cs c m
      using assms(2) gin that unfolding unsplit_def gs(1) inside_def
      by (fastforce simp: g list_all_iff)
    moreover have "set members \<subseteq> set ?ms" "\<forall>m \<in> set members. register_mapping r m \<and> mm_function m = f"
      using mem [OF gin] regs by (auto simp: g)
    ultimately show ?thesis
      using read_group_ok [OF assms(1) f g ok _ _ _ assms(5) that(2)] by (simp add: g)
  qed
  then have "\<exists>s'. for_each (read_group p w io cr cfg f) s gs = Next s'
      \<and> shown p cr mem r (set ?ms) s' (M \<union> (\<Union>g \<in> set gs. set (snd (snd g))))"
    by (rule for_each_collect) (use sh in simp_all)
  moreover have "(\<Union>g \<in> set gs. set (snd (snd g))) = {m \<in> set ?ms. mm_function m = f}"
    using arg_cong [OF gs(3), of set] unfolding set_group_members sorted_for_facts(3) .
  ultimately show ?thesis by (simp add: read_function_def gs(1))
qed

lemma read_phase_ok:
  assumes "answers_reads io mem" and "\<forall>f \<in> set funcs. unsplit p (mc_mappings cfg) f"
    and regs: "\<forall>m \<in> set (mc_mappings cfg). register_mapping (ds_registry s) m"
    and dist: "distinct (map mm_tag_id (mc_mappings cfg))"
    and order: "iteration_order (mc_mappings cfg) funcs" and wf: "reg_wf (ds_registry s)"
  shows "\<exists>s'. read_phase p w io cr funcs cfg s = Next s' \<and> ds_conn s'
    \<and> shown p cr mem (ds_registry s) (set (mc_mappings cfg)) s' (set (mc_mappings cfg))"
proof -
  let ?ms = "mc_mappings cfg"
  have inj: "inj_on mm_tag_id (set ?ms)" using dist by (simp add: distinct_map)
  have f: "f = HoldingRegisters \<or> f = InputRegisters" if "f \<in> set funcs" for f
    using that order regs by (auto simp: iteration_order_def register_mapping_def)
  have "\<exists>s'. read_function p w io cr cfg s0 f = Next s'
      \<and> shown p cr mem (ds_registry s) (set ?ms) s' (M \<union> {m \<in> set ?ms. mm_function m = f})"
    if "f \<in> set funcs" "shown p cr mem (ds_registry s) (set ?ms) s0 M" for s0 f M
    using that assms(2) by (intro read_function_ok [OF assms(1) _ regs f inj]) auto
  then have "\<exists>s'. for_each (read_function p w io cr cfg) s funcs = Next s'
      \<and> shown p cr mem (ds_registry s) (set ?ms) s' ({} \<union> (\<Union>f \<in> set funcs. {m \<in> set ?ms. mm_function m = f}))"
    by (rule for_each_collect) (use wf in \<open>simp_all add: shown_def publishes_def over_def\<close>)
  moreover have "{} \<union> (\<Union>f \<in> set funcs. {m \<in> set ?ms. mm_function m = f}) = set ?ms"
    using order by (auto simp: iteration_order_def)
  ultimately show ?thesis by (auto simp: read_phase_def)
qed

section \<open>Properties\<close>


lemma example_config_a_unsplit: "unsplit Debug (mc_mappings example_config_a) HoldingRegisters"
  by (simp add: unsplit_def example_config_a_def ModbusConfig_new_def ModbusMapping_new_def sorted_for_def
      by_func_def add_to_groups_def max_allowed_def MAX_REGISTERS_def chunk_loop.simps Let_def
      saturating_sub_def regs_of_def chunk_regs_def)


text \<open>C37: A mapping that a request boundary splits is decoded once per request from the part that request
  covers: for a two-register value whose second register starts a request, the last publication is,
  with quality \<open>Good\<close>, a value whose high half is the second register and whose low half is zero.\<close>

theorem split_mapping_published_good:
  assumes "byteorder_laws cr" and "mm_data_type m = TUInt32" and "mm_quantity m = 2"
    and "mm_byte_order m = ABCD" and "unat (mm_address m) + 1 = unat cs"
    and "length rs = unat cq" and "0 < unat cq"
    and "get_definition (ds_registry s) (mm_tag_id m) = Inr d"
    and "get_tag (ds_registry s) (mm_tag_id m) = Inr t"
  shows "process_mapping p warn_on io cr cs cq (registers_to_bytes rs) s m =
    Next (drv_value (io_now io) s (mm_tag_id m) (VUInt32 (be32 (rs ! 0) 0)) Good)"
proof -
  have pos: "0 < unat (mm_quantity m)" using assms(3) by simp
  have mn: "min (unat (mm_address m) + unat (mm_quantity m) - 1) (unat cs + unat cq - 1) = unat cs"
    and mx: "max (unat (mm_address m)) (unat cs) = unat cs"
    using assms(3,5,7) by auto
  obtain x xs where rs: "rs = x # xs" using assms(6,7) by (cases rs) auto
  have "mapping_slice p warn_on cs cq (registers_to_bytes rs) m = Slice [word_hi x, word_lo x]"
    unfolding mapping_slice_nat [OF pos assms(7)] mn mx using assms(3,5-7)
    by (simp add: Let_def rs)
  moreover have "read_two cr [word_hi x, word_lo x] = be32 x 0"
    by (simp add: read_two_def read_u16_or0_def byteorder_laws_simps [OF assms(1)] byte_simps)
  ultimately show ?thesis
    using assms(2,4,8,9)
    by (simp add: process_mapping_def Let_def apply_byte_order_def apply_to_bytes_def
        decode_bytes_to_tagvalue_def rs)
qed

definition example_state_u32 :: "nat drv_state" where
  "example_state_u32 = example_state\<lparr>ds_registry :=
     \<lparr>reg_definitions = [(''a'', TagDefinition_new ''a'' ''Total'' ''40125'' TUInt32 ''plc'')],
      reg_tags = \<lparr>st_tags = [Tag_new 1 (VUInt32 0)], st_index = [(''a'', 0)],
                  st_sorted_ids = [''a''], st_subscribers = []\<rparr>\<rparr>\<rparr>"

theorem split_mapping_published_good_witness:
  "process_mapping Debug True (example_io (\<lambda>n. of_nat n)) example_crates 125 1 (registers_to_bytes [0x0001])
      example_state_u32 (example_mapping ''a'' 124 2 TUInt32)
    = Next (drv_value (io_now (example_io (\<lambda>n. of_nat n))) example_state_u32 ''a'' (VUInt32 (be32 1 0)) Good)"
  using split_mapping_published_good [OF example_byteorder_laws, of "example_mapping ''a'' 124 2 TUInt32" 125
      "[0x0001]" 1 example_state_u32 "TagDefinition_new ''a'' ''Total'' ''40125'' TUInt32 ''plc''"
      "Tag_new 1 (VUInt32 0)" Debug True "example_io (\<lambda>n. of_nat n)"]
  by (simp add: example_mapping_def ModbusMapping_new_def example_state_u32_def get_definition_def
      defstore_get_def get_tag_def store_get_def)



end
