(* ===== verification/Fins_Codec.thy ===== *)
theory Fins_Codec
  imports Modbus_Codec
begin

text \<open>
  The data of \<open>src/driver/fins/src/\<close> (\<open>errors.rs\<close>, \<open>mapping.rs\<close>, \<open>config.rs\<close>) and the pure parts of
  \<open>driver.rs\<close>: framing of requests, parsing of responses, and the conversions between words, bytes and
  tag values.  Shown: a peer that reads a request frame by its layout recovers every field, a response
  frame parses to its fields, and the value round trip of the codec contract.
\<close>

section \<open>Errors, mappings, configuration\<close>

datatype FinsError =
    FIo string
  | FTimeout
  | FProtocol string
  | FMapping string
  | FOther string

fun FinsError_display :: "FinsError \<Rightarrow> string" where
  "FinsError_display (FIo s) = ''IO error: '' @ s"
| "FinsError_display FTimeout = ''Timeout''"
| "FinsError_display (FProtocol s) = ''Protocol error: '' @ s"
| "FinsError_display (FMapping s) = ''Mapping error: '' @ s"
| "FinsError_display (FOther s) = ''Other: '' @ s"

record TagMapping =
  tm_tag_id :: string
  tm_area :: u8
  tm_address :: u32
  tm_bit_offset :: u8
  tm_word_count :: u16
  tm_writable :: bool
  tm_byte_order :: WordOrder
  tm_data_type :: TagDataType

definition TagMapping_new ::
  "string \<Rightarrow> u8 \<Rightarrow> u32 \<Rightarrow> u8 \<Rightarrow> u16 \<Rightarrow> bool \<Rightarrow> WordOrder \<Rightarrow> TagDataType \<Rightarrow> TagMapping" where
  "TagMapping_new tid area address bit_offset word_count writable byte_order dt =
     \<lparr>tm_tag_id = tid, tm_area = area, tm_address = address, tm_bit_offset = bit_offset,
      tm_word_count = word_count, tm_writable = writable, tm_byte_order = byte_order,
      tm_data_type = dt\<rparr>"

record FinsConfig =
  fc_name :: string
  fc_endpoint :: string
  fc_cycle_ms :: u64
  fc_keepalive_secs :: u64
  fc_max_backoff_secs :: u64
  fc_mappings :: "TagMapping list"
  fc_max_words_per_request :: u32

definition FinsConfig_new :: "string \<Rightarrow> string \<Rightarrow> u64 \<Rightarrow> TagMapping list \<Rightarrow> FinsConfig" where
  "FinsConfig_new name endpoint cycle_ms mappings =
     \<lparr>fc_name = name, fc_endpoint = endpoint, fc_cycle_ms = cycle_ms, fc_keepalive_secs = 30,
      fc_max_backoff_secs = 30, fc_mappings = mappings, fc_max_words_per_request = 960\<rparr>"

section \<open>Frames\<close>

definition wrap_fins_tcp :: "crates \<Rightarrow> u8 list \<Rightarrow> u8 list" where
  "wrap_fins_tcp cr payload =
     as_bytes ''FINS'' @ put_u32 cr (word_of_nat (length payload)) @ payload"

definition build_fins_frame :: "u8 \<Rightarrow> u8 \<times> u8 \<Rightarrow> u8 list \<Rightarrow> u8 list" where
  "build_fins_frame sid command params =
     [0x80, 0x00, 0x02] @ [0x00, 0x00, 0x00, 0x00, 0x00, 0x00]
     @ [sid, fst command, snd command] @ params"

definition address_bytes :: "u32 \<Rightarrow> u8 list" where
  "address_bytes address =
     [ucast (drop_bit 16 address AND 0xFF), ucast (drop_bit 8 address AND 0xFF),
      ucast (address AND 0xFF)]"

definition build_memory_read :: "crates \<Rightarrow> u8 \<Rightarrow> u32 \<Rightarrow> u8 \<Rightarrow> u16 \<Rightarrow> u8 list" where
  "build_memory_read cr area address bit_offset word_count =
     [area] @ address_bytes address @ [bit_offset] @ write_u16 cr word_count"

definition build_memory_write :: "crates \<Rightarrow> u8 \<Rightarrow> u32 \<Rightarrow> u8 \<Rightarrow> u16 list \<Rightarrow> u8 list" where
  "build_memory_write cr area address bit_offset words =
     [area] @ address_bytes address @ [bit_offset] @ write_u16 cr (word_of_nat (length words))
     @ concat (map (write_u16 cr) words)"

definition parse_fins_response :: "u8 list \<Rightarrow> FinsError + u8 \<times> u16 \<times> u8 list" where
  "parse_fins_response frame =
     (if length frame < 14 then Inl (FProtocol ''Frame too short'')
      else Inr (frame ! 9, be16 (frame ! 12) (frame ! 13), drop 14 frame))"

section \<open>Decoding\<close>

datatype fins_decoded = FDecoded TagValue | FFailed FinsError | FPanic

definition decode_fixed ::
  "u8 list \<Rightarrow> nat \<Rightarrow> string \<Rightarrow> (u8 list \<Rightarrow> ('a \<times> u8 list) option) \<Rightarrow> ('a \<Rightarrow> TagValue) \<Rightarrow> fins_decoded" where
  "decode_fixed data_bytes sz type_name read into_value =
     (if length data_bytes < sz then FFailed (FProtocol (''Not enough data for '' @ type_name))
      else case read (take sz data_bytes) of
          None \<Rightarrow> FFailed (FProtocol (''Failed to decode '' @ type_name @ '': failed to fill whole buffer''))
        | Some (v, _) \<Rightarrow> FDecoded (into_value v))"

text \<open>The match of \<open>decode_and_update_tag\<close> on the declared type, on bytes in standard order.\<close>

definition fins_decode :: "profile \<Rightarrow> crates \<Rightarrow> TagDataType \<Rightarrow> u8 \<Rightarrow> u8 list \<Rightarrow> fins_decoded" where
  "fins_decode p cr dt bit_offset data_bytes =
     (case dt of
        TBool \<Rightarrow>
          if length data_bytes < 2 then FFailed (FProtocol ''Not enough data for Bool'')
          else (case shr_ck p (fst (read_u16_or0 cr (take 2 data_bytes))) bit_offset of
              None \<Rightarrow> FPanic
            | Some x \<Rightarrow> FDecoded (VBool (x AND 1 \<noteq> 0)))
      | TUInt16 \<Rightarrow> decode_fixed data_bytes 2 ''UInt16'' (read_u16 cr) VUInt16
      | TInt16 \<Rightarrow> decode_fixed data_bytes 2 ''Int16'' (read_i16 cr) VInt16
      | TUInt32 \<Rightarrow> decode_fixed data_bytes 4 ''UInt32'' (read_u32 cr) VUInt32
      | TInt32 \<Rightarrow> decode_fixed data_bytes 4 ''Int32'' (read_i32 cr) VInt32
      | TFloat \<Rightarrow> decode_fixed data_bytes 4 ''Float'' (read_u32 cr) VFloat
      | TDouble \<Rightarrow> decode_fixed data_bytes 8 ''Double'' (read_u64 cr) VDouble
      | TUInt64 \<Rightarrow> decode_fixed data_bytes 8 ''UInt64'' (read_u64 cr) VUInt64
      | TInt64 \<Rightarrow> decode_fixed data_bytes 8 ''Int64'' (read_i64 cr) VInt64
      | TDateTime \<Rightarrow>
          if length data_bytes \<ge> 8 then
            let ms = (case read_u64 cr (take 8 data_bytes) of None \<Rightarrow> 0 | Some (v, _) \<Rightarrow> v)
            in (case datetime_from_system_time cr (uint ms) of
                  None \<Rightarrow> FPanic
                | Some dt \<Rightarrow> FDecoded (VDateTime dt))
          else (case from_utf8 data_bytes of
              None \<Rightarrow> FFailed (FProtocol ''Not enough data for DateTime'')
            | Some st \<Rightarrow>
                (case parse_from_rfc3339 cr st of
                   None \<Rightarrow> FFailed (FProtocol ''Invalid DateTime format'')
                 | Some d \<Rightarrow> FDecoded (VDateTime d)))
      | TByteString \<Rightarrow> FDecoded (VByteString data_bytes)
      | TString \<Rightarrow>
          FDecoded (VString (case from_utf8 data_bytes of
              Some st \<Rightarrow> trim_end_nul st
            | None \<Rightarrow> concat (map hex2 data_bytes))))"

section \<open>Encoding\<close>

definition u64_to_words :: "u64 \<Rightarrow> u16 list" where
  "u64_to_words v =
     [ucast (drop_bit 48 v AND 0xFFFF), ucast (drop_bit 32 v AND 0xFFFF),
      ucast (drop_bit 16 v AND 0xFFFF), ucast (v AND 0xFFFF)]"

definition u32_to_words :: "u32 \<Rightarrow> u16 list" where
  "u32_to_words v = [ucast (drop_bit 16 v AND 0xFFFF), ucast (v AND 0xFFFF)]"

definition bytes_to_words :: "crates \<Rightarrow> u8 list \<Rightarrow> u16 list" where
  "bytes_to_words cr bytes =
     read_words cr (if length bytes mod 2 \<noteq> 0 then bytes @ [0] else bytes)"

definition tagvalue_to_words_standard :: "crates \<Rightarrow> TagValue \<Rightarrow> FinsError + u16 list" where
  "tagvalue_to_words_standard cr v =
     (case v of
        VBool b \<Rightarrow> Inr [if b then 1 else 0]
      | VUInt16 x \<Rightarrow> Inr [x]
      | VInt16 x \<Rightarrow> Inr [x]
      | VUInt32 x \<Rightarrow> Inr (u32_to_words x)
      | VInt32 x \<Rightarrow> Inr (u32_to_words x)
      | VFloat bits \<Rightarrow> Inr (u32_to_words bits)
      | VDouble bits \<Rightarrow> Inr (u64_to_words bits)
      | VUInt64 x \<Rightarrow> Inr (u64_to_words x)
      | VInt64 x \<Rightarrow> Inr (u64_to_words x)
      | VDateTime dt \<Rightarrow> Inr (u64_to_words (word_of_int (timestamp_millis cr dt)))
      | VByteString b \<Rightarrow> Inr (bytes_to_words cr b)
      | VString s \<Rightarrow> Inr (bytes_to_words cr (as_bytes s)))"

section \<open>The frame as its reader sees it\<close>

text \<open>The layout of a FINS/TCP message and of a memory-area request, read field by field.\<close>

record fins_request =
  rq_sid :: u8
  rq_command :: "u8 \<times> u8"
  rq_area :: u8
  rq_address :: nat
  rq_bit :: u8
  rq_count :: nat
  rq_data :: "u16 list"

definition be_nat :: "u8 list \<Rightarrow> nat" where
  "be_nat bs = foldl (\<lambda>n b. 256 * n + unat b) 0 bs"

definition unwrap_message :: "u8 list \<Rightarrow> u8 list option" where
  "unwrap_message msg =
     (if take 4 msg = as_bytes ''FINS'' \<and> 8 \<le> length msg
         \<and> be_nat (take 4 (drop 4 msg)) = length (drop 8 msg)
      then Some (drop 8 msg) else None)"

definition parse_request :: "u8 list \<Rightarrow> fins_request option" where
  "parse_request frame =
     (if 19 \<le> length frame then
        Some \<lparr>rq_sid = frame ! 9, rq_command = (frame ! 10, frame ! 11), rq_area = frame ! 12,
              rq_address = be_nat (take 3 (drop 13 frame)), rq_bit = frame ! 16,
              rq_count = be_nat (take 2 (drop 17 frame)), rq_data = words_of_bytes (drop 19 frame)\<rparr>
      else None)"

lemma unat_byte: "unat (ucast (drop_bit n (w :: 'a::len word)) :: u8) = unat w div 2 ^ n mod 256"
  by (simp add: unsigned_ucast_eq unsigned_drop_bit_eq take_bit_eq_mod [where 'a = nat]
      drop_bit_eq_div [where 'a = nat])

lemma unat_byte0: "unat (ucast (w :: 'a::len word) :: u8) = unat w mod 256"
  using unat_byte [of 0 w] by simp

lemma ucast_and_0xFF: "(ucast ((w :: 'a::len word) AND 0xFF) :: u8) = ucast w"
  unfolding and_0xFF by (rule bit_word_eqI) (auto simp: bit_simps)

lemma be_nat_u16: "be_nat [word_hi w, word_lo w] = unat w"
proof -
  have "unat w div 256 < 256" using unsigned_less [of w, where 'a = nat] by (simp add: less_mult_imp_div_less)
  then show ?thesis
    using unat_byte [of 8 w] unat_byte0 [of w]
    by (simp add: be_nat_def word_hi_def word_lo_def ucast_and_0xFF)
qed

lemma be_nat_u32:
  "be_nat [ucast (drop_bit 24 (w :: u32)), ucast (drop_bit 16 w), ucast (drop_bit 8 w), ucast w] = unat w"
proof -
  let ?n = "unat w"
  have b: "?n div 16777216 < 256" using unsigned_less [of w, where 'a = nat] by (simp add: less_mult_imp_div_less)
  have "?n div 65536 = ?n div 256 div 256" "?n div 16777216 = ?n div 65536 div 256"
    by (simp_all add: div_mult2_eq [symmetric])
  then have "256 * (256 * (256 * (?n div 16777216) + ?n div 65536 mod 256) + ?n div 256 mod 256) + ?n mod 256 = ?n"
    by (simp only: mult_div_mod_eq)
  then show ?thesis
    using b unat_byte [of 24 w] unat_byte [of 16 w] unat_byte [of 8 w] unat_byte0 [of w]
    by (simp add: be_nat_def)
qed

lemma be_nat_address: "be_nat (address_bytes a) = unat a mod 2 ^ 24"
proof -
  have "unat a mod (256 * (256 * 256)) = 256 * (unat a div 256 mod (256 * 256)) + unat a mod 256"
    by (rule mod_mult2_eq)
  moreover have "unat a div 256 mod (256 * 256) = 256 * (unat a div 256 div 256 mod 256) + unat a div 256 mod 256"
    by (rule mod_mult2_eq)
  moreover have "unat a div 256 div 256 = unat a div 65536" by (simp add: div_mult2_eq [symmetric])
  ultimately have "256 * (256 * (unat a div 65536 mod 256) + unat a div 256 mod 256) + unat a mod 256
      = unat a mod 16777216" by simp
  then show ?thesis
    using unat_byte [of 16 a] unat_byte [of 8 a] unat_byte0 [of a]
    by (simp add: be_nat_def address_bytes_def ucast_and_0xFF)
qed

lemma length_address_bytes [simp]: "length (address_bytes a) = 3"
  by (simp add: address_bytes_def)

lemma concat_write_u16:
  "byteorder_laws cr \<Longrightarrow> concat (map (write_u16 cr) ws) = registers_to_bytes ws"
  by (induction ws) (simp_all add: byteorder_laws_simps)

lemma unwrap_wrap:
  assumes "byteorder_laws cr" and "length payload < 2 ^ 32"
  shows "unwrap_message (wrap_fins_tcp cr payload) = Some payload"
  using assms(2) be_nat_u32 [of "word_of_nat (length payload)"]
  by (simp add: unwrap_message_def wrap_fins_tcp_def byteorder_laws_simps [OF assms(1)]
      unsigned_of_nat take_bit_nat_eq_self_iff as_bytes_def)

lemma parse_request_params:
  "parse_request (build_fins_frame sid command
      ([area] @ address_bytes address @ [b] @ [word_hi n, word_lo n] @ registers_to_bytes ws))
    = Some \<lparr>rq_sid = sid, rq_command = command, rq_area = area,
        rq_address = unat address mod 2 ^ 24, rq_bit = b, rq_count = unat n, rq_data = ws\<rparr>"
proof -
  obtain x y z where abc: "address_bytes address = [x, y, z]" by (simp add: address_bytes_def)
  show ?thesis
    using be_nat_address [of address] be_nat_u16 [of n]
    by (simp add: parse_request_def build_fins_frame_def abc)
qed

section \<open>Value round trip\<close>

text \<open>Both drivers encode a value into the same standard words.\<close>

lemma fins_words_eq_modbus:
  assumes "byteorder_laws cr"
  shows "tagvalue_to_words_standard cr v = Inr (modbus_words cr v)"
  by (cases v) (simp_all add: tagvalue_to_words_standard_def modbus_words_def tagvalue_to_registers_def
      u32_to_words_def u64_to_words_def u32_words_def u64_words_def bytes_to_words_def
      read_words_eq [OF assms] chunk_words_eq pad_even_def)

definition fins_value_ok :: "crates \<Rightarrow> TagValue \<Rightarrow> bool" where
  "fins_value_ok cr v \<longleftrightarrow> value_ok cr v \<and> (case v of VDateTime dt \<Rightarrow> 0 \<le> dt | _ \<Rightarrow> True)"

lemma take_all_words [simp]:
  "take 4 (registers_to_bytes (u32_words x)) = registers_to_bytes (u32_words x)"
  "take 8 (registers_to_bytes (u64_words y)) = registers_to_bytes (u64_words y)"
  by (simp_all add: u32_words_def u64_words_def)

lemma read_words_of:
  assumes "byteorder_laws cr"
  shows "read_u32 cr (registers_to_bytes (u32_words x)) = Some (x, [])"
    and "read_i32 cr (registers_to_bytes (u32_words x)) = Some (x, [])"
    and "read_u64 cr (registers_to_bytes (u64_words y)) = Some (y, [])"
    and "read_i64 cr (registers_to_bytes (u64_words y)) = Some (y, [])"
    and "length (u32_words x) = 2" and "length (u64_words y) = 4"
  by (simp_all add: u32_words_def u64_words_def byteorder_laws_simps [OF assms] byte_simps)

lemma uint_word_of_int_u64: "0 \<le> k \<Longrightarrow> k < 2 ^ 63 \<Longrightarrow> uint (word_of_int k :: u64) = k"
  by (simp add: unsigned_of_int take_bit_int_eq_self_iff)

lemma fins_decode_standard:
  assumes laws: "byteorder_laws cr" "chrono_laws cr" "system_time_laws cr" and ok: "fins_value_ok cr v"
  shows "fins_decode p cr (data_type v) 0 (registers_to_bytes (modbus_words cr v)) = FDecoded (stored_form v)"
proof (cases v)
  case (VDateTime dt)
  have r: "representable cr dt" "0 \<le> dt" using ok VDateTime by (simp_all add: fins_value_ok_def value_ok_def)
  then have ms: "timestamp_millis cr dt = dt div 1000000" "timestamp_millis cr dt < 2 ^ 63"
    "from_timestamp_millis cr (timestamp_millis cr dt) = Some (dt div 1000000 * 1000000)"
    using laws(2) by (auto simp: chrono_laws_def)
  then have nn: "0 \<le> timestamp_millis cr dt" using r(2) by simp
  have "uint (word_of_int (timestamp_millis cr dt) :: u64) = timestamp_millis cr dt"
    using uint_word_of_int_u64 [OF nn ms(2)] .
  moreover have "datetime_from_system_time cr (timestamp_millis cr dt) = Some (dt div 1000000 * 1000000)"
    using laws(3) nn ms(2,3) by (simp add: system_time_laws_def)
  ultimately show ?thesis
    using VDateTime by (simp add: modbus_words_def tagvalue_to_registers_def fins_decode_def
        read_words_of [OF laws(1)] stored_form_def)
next
  case (VBool b)
  then show ?thesis
    by (cases b) (simp_all add: modbus_words_def tagvalue_to_registers_def fins_decode_def read_u16_or0_def
        byteorder_laws_simps [OF laws(1)] byte_simps shr_ck_def stored_form_def)
next
  case (VString s)
  then have "valid_str s" using ok by (simp add: fins_value_ok_def value_ok_def)
  with VString show ?thesis
    by (simp add: modbus_words_def tagvalue_to_registers_def fins_decode_def chunk_words_eq
        pad_even_string stored_form_def)
qed (simp_all add: modbus_words_def tagvalue_to_registers_def fins_decode_def decode_fixed_def
    read_words_of [OF laws(1)] byteorder_laws_simps [OF laws(1)] byte_simps stored_form_def chunk_words_eq)

definition fins_decode_opt :: "profile \<Rightarrow> crates \<Rightarrow> TagDataType \<Rightarrow> u8 list \<Rightarrow> TagValue option" where
  "fins_decode_opt p cr dt bytes = (case fins_decode p cr dt 0 bytes of FDecoded v \<Rightarrow> Some v | _ \<Rightarrow> None)"

definition fins_words :: "crates \<Rightarrow> TagValue \<Rightarrow> u16 list" where
  "fins_words cr v = (case tagvalue_to_words_standard cr v of Inr ws \<Rightarrow> ws | Inl _ \<Rightarrow> [])"

interpretation fins_codec: register_codec cr "fins_words cr" "fins_decode_opt p cr"
  "\<lambda>v. byteorder_laws cr \<and> chrono_laws cr \<and> system_time_laws cr \<and> fins_value_ok cr v"
  for cr p
  by unfold_locales
    (simp_all add: fins_decode_opt_def fins_words_def fins_words_eq_modbus fins_decode_standard)

section \<open>Properties\<close>



text \<open>An instant before 1970 that was written to a FINS device makes the driver panic when it reads it back:
  the milliseconds are written as their two's complement and read as an unsigned count, which
  \<open>chrono\<close> cannot represent.\<close>

lemma fins_negative_instant_panics:
  assumes "byteorder_laws cr" and "chrono_laws cr" and "system_time_laws cr"
    and "representable cr dt" and "dt < 0"
    and "tagvalue_to_words_standard cr (VDateTime dt) = Inr ws"
  shows "fins_decode p cr TDateTime 0 (registers_to_bytes ws) = FPanic"
proof -
  let ?ms = "timestamp_millis cr dt"
  have ms: "?ms = dt div 1000000" "- (2 ^ 63) \<le> ?ms" using assms(2,4) by (auto simp: chrono_laws_def)
  then have neg: "?ms < 0" using assms(5) by simp
  have "uint (word_of_int ?ms :: u64) = ?ms mod 2 ^ 64" by (simp add: unsigned_of_int take_bit_eq_mod)
  also have "\<dots> = (?ms + 2 ^ 64) mod 2 ^ 64" by (rule mod_add_self2 [symmetric])
  also have "\<dots> = ?ms + 2 ^ 64" using neg ms(2) by (intro mod_pos_pos_trivial) simp_all
  finally have "datetime_from_system_time cr (uint (word_of_int ?ms :: u64)) = None"
    using assms(3) ms(2) by (simp add: system_time_laws_def)
  moreover have "ws = u64_words (word_of_int ?ms)"
    using assms(6) by (simp add: fins_words_eq_modbus [OF assms(1)] modbus_words_def tagvalue_to_registers_def)
  ultimately show ?thesis
    by (simp add: fins_decode_def read_words_of [OF assms(1)])
qed

lemma fins_negative_instant_panics_witness:
  "fins_decode Release example_crates TDateTime 0
     (registers_to_bytes (fins_words example_crates (VDateTime (- 1000000)))) = FPanic"
proof (rule fins_negative_instant_panics [OF example_byteorder_laws example_chrono_laws example_system_time_laws])
  show "representable example_crates (- 1000000)" by (simp add: example_crates_def Let_def)
  show "tagvalue_to_words_standard example_crates (VDateTime (- 1000000))
      = Inr (fins_words example_crates (VDateTime (- 1000000)))"
    by (simp add: fins_words_def fins_words_eq_modbus [OF example_byteorder_laws])
qed simp

lemma request_fields:
  assumes "byteorder_laws cr" and "length words < 2 ^ 16"
  shows "Option.bind (unwrap_message (wrap_fins_tcp cr (build_fins_frame sid (0x01, 0x01)
        (build_memory_read cr area address b n)))) parse_request
      = Some \<lparr>rq_sid = sid, rq_command = (0x01, 0x01), rq_area = area, rq_address = unat address mod 2 ^ 24,
          rq_bit = b, rq_count = unat n, rq_data = []\<rparr>"
    and "Option.bind (unwrap_message (wrap_fins_tcp cr (build_fins_frame sid (0x01, 0x02)
        (build_memory_write cr area address b words)))) parse_request
      = Some \<lparr>rq_sid = sid, rq_command = (0x01, 0x02), rq_area = area, rq_address = unat address mod 2 ^ 24,
          rq_bit = b, rq_count = length words, rq_data = words\<rparr>"
proof -
  have n: "unat (word_of_nat (length words) :: u16) = length words"
    using assms(2) by (simp add: unsigned_of_nat take_bit_nat_eq_self_iff)
  have r: "build_memory_read cr area address b n
      = [area] @ address_bytes address @ [b] @ [word_hi n, word_lo n] @ registers_to_bytes []"
    by (simp add: build_memory_read_def byteorder_laws_simps [OF assms(1)])
  have w: "build_memory_write cr area address b words
      = [area] @ address_bytes address @ [b] @ [word_hi (word_of_nat (length words)), word_lo (word_of_nat (length words))]
        @ registers_to_bytes words"
    by (simp add: build_memory_write_def byteorder_laws_simps [OF assms(1)] concat_write_u16 [OF assms(1)])
  have "length (build_fins_frame sid c (build_memory_read cr area address b n)) < 2 ^ 32"
    "length (build_fins_frame sid c (build_memory_write cr area address b words)) < 2 ^ 32" for c
    using assms(2) by (simp_all add: build_fins_frame_def r w)
  moreover have "parse_request (build_fins_frame sid c (build_memory_read cr area address b n))
      = Some \<lparr>rq_sid = sid, rq_command = c, rq_area = area, rq_address = unat address mod 2 ^ 24,
          rq_bit = b, rq_count = unat n, rq_data = []\<rparr>" for c
    unfolding r by (rule parse_request_params)
  moreover have "parse_request (build_fins_frame sid c (build_memory_write cr area address b words))
      = Some \<lparr>rq_sid = sid, rq_command = c, rq_area = area, rq_address = unat address mod 2 ^ 24,
          rq_bit = b, rq_count = length words, rq_data = words\<rparr>" for c
    unfolding w parse_request_params n ..
  ultimately show "Option.bind (unwrap_message (wrap_fins_tcp cr (build_fins_frame sid (0x01, 0x01)
        (build_memory_read cr area address b n)))) parse_request
      = Some \<lparr>rq_sid = sid, rq_command = (0x01, 0x01), rq_area = area, rq_address = unat address mod 2 ^ 24,
          rq_bit = b, rq_count = unat n, rq_data = []\<rparr>"
    "Option.bind (unwrap_message (wrap_fins_tcp cr (build_fins_frame sid (0x01, 0x02)
        (build_memory_write cr area address b words)))) parse_request
      = Some \<lparr>rq_sid = sid, rq_command = (0x01, 0x02), rq_area = area, rq_address = unat address mod 2 ^ 24,
          rq_bit = b, rq_count = length words, rq_data = words\<rparr>"
    by (simp_all add: unwrap_wrap [OF assms(1)])
qed

text \<open>C27: A peer that reads a FINS/TCP message field by field recovers from the driver's read and write requests
  the session id, the command, the area, the bit, the number of words, the words themselves, and the
  address modulo \<open>2^24\<close>: addresses from \<open>2^24\<close> on are silently aliased to lower ones.\<close>

theorem fins_requests_recoverable:
  assumes "byteorder_laws cr" and "length words < 2 ^ 16"
  shows "Option.bind (unwrap_message (wrap_fins_tcp cr (build_fins_frame sid (0x01, 0x01)
        (build_memory_read cr area address b n)))) parse_request
      = Some \<lparr>rq_sid = sid, rq_command = (0x01, 0x01), rq_area = area, rq_address = unat address mod 2 ^ 24,
          rq_bit = b, rq_count = unat n, rq_data = []\<rparr>
    \<and> Option.bind (unwrap_message (wrap_fins_tcp cr (build_fins_frame sid (0x01, 0x02)
        (build_memory_write cr area address b words)))) parse_request
      = Some \<lparr>rq_sid = sid, rq_command = (0x01, 0x02), rq_area = area, rq_address = unat address mod 2 ^ 24,
          rq_bit = b, rq_count = length words, rq_data = words\<rparr>"
  using request_fields [OF assms] by simp

theorem fins_requests_recoverable_witness:
  "map_option rq_address (Option.bind (unwrap_message (wrap_fins_tcp example_crates (build_fins_frame 7 (0x01, 0x01)
     (build_memory_read example_crates 0x82 0x01000064 0 2)))) parse_request) = Some 100"
  using fins_requests_recoverable [OF example_byteorder_laws, of "[]" 7 "0x82" "0x01000064" 0 2] by simp

text \<open>A response frame parses to its session id, its end code and its data exactly when it has the fourteen
  bytes of the header and end code; anything shorter is a protocol error.\<close>

lemma parse_fins_response_spec:
  "parse_fins_response ([icf, rsv, gct, d0, d1, d2, s0, s1, s2, sid, c0, c1, e0, e1] @ data)
     = Inr (sid, be16 e0 e1, data)
   \<and> (parse_fins_response frame = Inl (FProtocol ''Frame too short'') \<longleftrightarrow> length frame < 14)"
  by (simp add: parse_fins_response_def)

end
