(* ===== verification/Fins_Plan.thy ===== *)
theory Fins_Plan
  imports Fins_Codec Ranges
begin

text \<open>
  \<open>src/driver/fins/src/driver.rs\<close>: pre-flight validation (\<open>validate\<close>) and the read groups that
  \<open>FinsDriver::new\<close> precomputes: mappings of one area are sorted, merged into runs of touching ranges,
  and every run is split into requests of at most \<open>max_words_per_request\<close> words, each carrying all
  mappings of its run.  Shown: what validation accepts, that for a usable configuration the requests
  of an area read every mapped word exactly once and no other, and that a maximum of zero words keeps
  the constructor from returning.
\<close>

section \<open>Validation\<close>

definition fins_mapping_error :: "string \<Rightarrow> string \<Rightarrow> FinsError" where
  "fins_mapping_error tid rest = FMapping (''Mapping '' @ quoted tid @ rest)"

definition fins_WordOrder_debug :: "WordOrder \<Rightarrow> string" where
  "fins_WordOrder_debug ord =
     (case ord of ABCD \<Rightarrow> ''ABCD'' | BADC \<Rightarrow> ''BADC'' | CDAB \<Rightarrow> ''CDAB'' | DCBA \<Rightarrow> ''DCBA'')"

definition fins_check_mapping :: "TagMapping \<Rightarrow> FinsError option" where
  "fins_check_mapping m =
     (if tm_word_count m = 0 then Some (fins_mapping_error (tm_tag_id m) '' has zero word_count'')
      else if tm_bit_offset m \<ge> 16 then
        Some (fins_mapping_error (tm_tag_id m) ('' has invalid bit_offset ''
          @ dec_str (unat (tm_bit_offset m)) @ '' (must be 0..15)''))
      else if tm_data_type m \<in> {TFloat, TInt32, TUInt32} \<and> tm_word_count m < 2 then
        Some (fins_mapping_error (tm_tag_id m) '' data_type requires word_count >= 2'')
      else if tm_data_type m = TDouble \<and> tm_word_count m < 4 then
        Some (fins_mapping_error (tm_tag_id m)
          ('' data_type '' @ quoted ''Double'' @ '' requires word_count >= 4''))
      else if (tm_byte_order m = CDAB \<or> tm_byte_order m = DCBA) \<and> tm_word_count m < 2 then
        Some (fins_mapping_error (tm_tag_id m) ('' uses byte_order ''
          @ fins_WordOrder_debug (tm_byte_order m) @ '' which requires word_count >= 2''))
      else None)"

definition fins_range_end :: "TagMapping \<Rightarrow> u32" where
  "fins_range_end m = saturating_sub (saturating_add (tm_address m) (ucast (tm_word_count m))) 1"

definition fins_show_range :: "TagMapping \<Rightarrow> string" where
  "fins_show_range m = quoted (tm_tag_id m) @ ''['' @ dec_str (unat (tm_address m)) @ ''..''
     @ dec_str (unat (fins_range_end m)) @ '']''"

fun fins_overlap_scan :: "u8 \<Rightarrow> TagMapping list \<Rightarrow> FinsError option" where
  "fins_overlap_scan area (cur # nxt # rest) =
     (if tm_address nxt \<le> fins_range_end cur then
        Some (FMapping (''Overlapping FINS ranges for area 0x'' @ hex2 area
          @ '': '' @ fins_show_range cur @ '' overlaps '' @ fins_show_range nxt))
      else fins_overlap_scan area (nxt # rest))"
| "fins_overlap_scan area _ = None"

text \<open>\<open>by_area\<close>, then a stable sort by address.\<close>

definition by_area :: "TagMapping list \<Rightarrow> u8 \<Rightarrow> TagMapping list" where
  "by_area ms a = filter (\<lambda>m. tm_area m = a) ms"

definition sorted_area :: "TagMapping list \<Rightarrow> u8 \<Rightarrow> TagMapping list" where
  "sorted_area ms a = sort_key tm_address (by_area ms a)"

text \<open>The argument \<open>areas\<close> is the order in which the \<open>HashMap\<close> is iterated.\<close>

definition fins_validate :: "u8 list \<Rightarrow> FinsConfig \<Rightarrow> FinsError + unit" where
  "fins_validate areas cfg =
     (case first_some fins_check_mapping (fc_mappings cfg) of
        Some e \<Rightarrow> Inl e
      | None \<Rightarrow>
          (case first_some (\<lambda>a. fins_overlap_scan a (sorted_area (fc_mappings cfg) a)) areas of
             Some e \<Rightarrow> Inl e
           | None \<Rightarrow> Inr ()))"

section \<open>Read groups\<close>

record ReadGroup =
  rg_area :: u8
  rg_start_address :: u32
  rg_word_count :: u16
  rg_mappings :: "TagMapping list"

text \<open>The inner loop over \<open>j\<close>: the end of the run, its mappings and the mappings not yet grouped;
  \<open>None\<close> is an overflow panic.\<close>

fun scan_run :: "profile \<Rightarrow> u32 \<Rightarrow> TagMapping list \<Rightarrow> TagMapping list
    \<Rightarrow> (u32 \<times> TagMapping list \<times> TagMapping list) option" where
  "scan_run p end_addr group_mappings [] = Some (end_addr, group_mappings, [])"
| "scan_run p end_addr group_mappings (next # rest) =
     Option.bind (add_ck p end_addr 1) (\<lambda>lim.
       if tm_address next \<le> lim then
         Option.bind (add_ck p (tm_address next) (ucast (tm_word_count next))) (\<lambda>x.
         Option.bind (sub_ck p x 1) (\<lambda>candidate_end.
           scan_run p (if candidate_end > end_addr then candidate_end else end_addr)
             (group_mappings @ [next]) rest))
       else Some (end_addr, group_mappings, next # rest))"

text \<open>The start of one run: its total number of words, its mappings, and the rest.\<close>

definition take_run :: "profile \<Rightarrow> TagMapping \<Rightarrow> TagMapping list
    \<Rightarrow> (u32 \<times> TagMapping list \<times> TagMapping list) option" where
  "take_run p m ms =
     Option.bind (add_ck p (tm_address m) (ucast (tm_word_count m))) (\<lambda>x.
     Option.bind (sub_ck p x 1) (\<lambda>end_addr0.
     Option.bind (scan_run p end_addr0 [m] ms) (\<lambda>(end_addr, members, rest).
     Option.bind (sub_ck p end_addr (tm_address m)) (\<lambda>d.
     Option.bind (add_ck p d 1) (\<lambda>total_words.
       Some (total_words, members, rest))))))"

text \<open>The \<open>while remaining > 0\<close> loop: \<open>None\<close> means that it does not end, \<open>Some None\<close> that it panics.\<close>

partial_function (option) split_loop ::
  "profile \<Rightarrow> u32 \<Rightarrow> u32 \<Rightarrow> u32 \<Rightarrow> (u32 \<times> u16) list option option" where
  "split_loop p max_fins_words chunk_start remaining =
     (if remaining = 0 then Some (Some [])
      else let chunk_words = (ucast (min remaining max_fins_words) :: u16);
               advance = (ucast chunk_words :: u32)
           in case add_ck p chunk_start advance of
                None \<Rightarrow> Some None
              | Some nxt \<Rightarrow>
                  Option.bind (split_loop p max_fins_words nxt (saturating_sub remaining advance))
                    (\<lambda>r. Some (map_option (\<lambda>cs. (chunk_start, chunk_words) # cs) r)))"

definition split_run :: "profile \<Rightarrow> u32 \<Rightarrow> u32 \<Rightarrow> u32 \<Rightarrow> (u32 \<times> u16) list outcome" where
  "split_run p max_fins_words start total_words =
     (case split_loop p max_fins_words start total_words of
        None \<Rightarrow> Loops | Some None \<Rightarrow> Panics | Some (Some cs) \<Rightarrow> Value cs)"

lemma scan_run_rest: "scan_run p e g ms = Some (e', g', rest) \<Longrightarrow> length rest \<le> length ms"
proof (induction ms arbitrary: e g)
  case (Cons m ms)
  from Cons.prems show ?case
    by (auto simp: bind_eq_Some_conv split: if_splits intro: le_SucI dest!: Cons.IH)
qed simp

lemma take_run_rest: "take_run p m ms = Some (t, g, rest) \<Longrightarrow> length rest \<le> length ms"
  by (auto simp: take_run_def bind_eq_Some_conv dest: scan_run_rest)

text \<open>The loop over \<open>i\<close> for one area.\<close>

function area_groups :: "profile \<Rightarrow> u32 \<Rightarrow> u8 \<Rightarrow> TagMapping list \<Rightarrow> ReadGroup list outcome" where
  "area_groups p mx area [] = Value []"
| "area_groups p mx area (m # ms) =
     (case take_run p m ms of
        None \<Rightarrow> Panics
      | Some (total_words, members, rest) \<Rightarrow>
          (case split_run p mx (tm_address m) total_words of
             Value chunks \<Rightarrow>
               (case area_groups p mx area rest of
                  Value gs \<Rightarrow>
                    Value (map (\<lambda>(s, n). \<lparr>rg_area = area, rg_start_address = s, rg_word_count = n,
                                          rg_mappings = members\<rparr>) chunks @ gs)
                | Panics \<Rightarrow> Panics | Loops \<Rightarrow> Loops)
           | Panics \<Rightarrow> Panics | Loops \<Rightarrow> Loops))"
  by pat_completeness auto
termination
  by (relation "measure (\<lambda>(p, mx, area, ms). length ms)") (auto dest: take_run_rest)

fun all_area_groups :: "profile \<Rightarrow> u32 \<Rightarrow> TagMapping list \<Rightarrow> u8 list \<Rightarrow> ReadGroup list outcome" where
  "all_area_groups p mx ms [] = Value []"
| "all_area_groups p mx ms (a # as) =
     outcome_bind (area_groups p mx a (sorted_area ms a)) (\<lambda>gs.
     outcome_bind (all_area_groups p mx ms as) (\<lambda>gs'. Value (gs @ gs')))"

text \<open>A \<open>BTreeMap\<close> iterates in the order of its keys.\<close>

definition areas_of :: "TagMapping list \<Rightarrow> u8 list" where
  "areas_of ms = sort (remdups (map tm_area ms))"

definition FinsDriver_read_groups :: "profile \<Rightarrow> FinsConfig \<Rightarrow> ReadGroup list outcome" where
  "FinsDriver_read_groups p cfg =
     all_area_groups p (fc_max_words_per_request cfg) (fc_mappings cfg) (areas_of (fc_mappings cfg))"

section \<open>What validation guarantees\<close>

definition words_of :: "TagMapping \<Rightarrow> nat set" where
  "words_of m = {unat (tm_address m)..<unat (tm_address m) + unat (tm_word_count m)}"

text \<open>The mappings whose last word has a 32-bit successor.\<close>

definition fins_addressable :: "TagMapping \<Rightarrow> bool" where
  "fins_addressable m \<longleftrightarrow> unat (tm_address m) + unat (tm_word_count m) < 2 ^ 32"

definition usable :: "TagMapping \<Rightarrow> bool" where
  "usable m \<longleftrightarrow> fins_addressable m \<and> 0 < unat (tm_word_count m)"

lemma fins_check_pos: "fins_check_mapping m = None \<Longrightarrow> 0 < unat (tm_word_count m)"
  by (auto simp: fins_check_mapping_def unat_gt_0 split: if_splits)

lemma unat_fins_range_end:
  assumes "usable m"
  shows "unat (fins_range_end m) = unat (tm_address m) + unat (tm_word_count m) - 1"
  using assms by (simp add: fins_range_end_def unat_saturating_sub unat_saturating_add usable_def
      fins_addressable_def unat_ucast_u16_u32)

interpretation fins_ranges: neighbour_check
  "\<lambda>m. unat (tm_address m)" "\<lambda>m. unat (tm_word_count m)" tm_area usable
  "\<lambda>a ms. fins_overlap_scan a ms = None"
proof unfold_locales
  fix x y :: TagMapping and xs k assume u: "usable x"
  have "tm_address y \<le> fins_range_end x \<longleftrightarrow> \<not> unat (tm_address x) + unat (tm_word_count x) \<le> unat (tm_address y)"
    using u by (auto simp: word_le_nat_alt unat_fins_range_end usable_def)
  then show "(fins_overlap_scan k (x # y # xs) = None) =
      (unat (tm_address x) + unat (tm_word_count x) \<le> unat (tm_address y) \<and> fins_overlap_scan k (y # xs) = None)"
    by simp
qed (auto simp: usable_def)

lemma fins_range [simp]: "fins_ranges.range = words_of"
  by (simp add: fins_ranges.range_def words_of_def fun_eq_iff)

lemma sorted_area_facts:
  "sorted (map tm_address (sorted_area ms a))" "mset (sorted_area ms a) = mset (by_area ms a)"
  "set (sorted_area ms a) = {m \<in> set ms. tm_area m = a}"
  by (simp_all add: sorted_area_def by_area_def)

lemma sorted_unat_area: "sorted (map (\<lambda>m. unat (tm_address m)) (sorted_area ms a))"
  using sorted_area_facts(1) [of ms a] by (simp add: sorted_wrt_map word_le_nat_alt)

section \<open>Runs\<close>

text \<open>The state of the inner loop: the run covers exactly the words of its mappings.\<close>

definition run_covers :: "u32 \<Rightarrow> u32 \<Rightarrow> TagMapping list \<Rightarrow> bool" where
  "run_covers start en members \<longleftrightarrow>
     unat en + 1 < 2 ^ 32 \<and> unat start \<le> unat en
     \<and> {unat start..<unat en + 1} = \<Union> (words_of ` set members)"

lemma fins_end:
  assumes "usable m"
  shows "add_ck p (tm_address m) (ucast (tm_word_count m)) = Some (tm_address m + ucast (tm_word_count m))"
    and "sub_ck p (tm_address m + ucast (tm_word_count m)) 1 = Some (tm_address m + ucast (tm_word_count m) - 1)"
    and "unat (tm_address m + ucast (tm_word_count m) - 1) + 1 = unat (tm_address m) + unat (tm_word_count m)"
proof -
  have s: "unat (tm_address m + ucast (tm_word_count m)) = unat (tm_address m) + unat (tm_word_count m)"
    using assms by (subst unat_plus_exact) (auto simp: usable_def fins_addressable_def unat_ucast_u16_u32)
  then have le: "unat (1 :: u32) \<le> unat (tm_address m + ucast (tm_word_count m))"
    using assms by (simp add: usable_def)
  show "add_ck p (tm_address m) (ucast (tm_word_count m)) = Some (tm_address m + ucast (tm_word_count m))"
    using assms by (simp add: panic_simps usable_def fins_addressable_def unat_ucast_u16_u32)
  show "sub_ck p (tm_address m + ucast (tm_word_count m)) 1 = Some (tm_address m + ucast (tm_word_count m) - 1)"
    using le by (rule sub_ck_exact)
  show "unat (tm_address m + ucast (tm_word_count m) - 1) + 1 = unat (tm_address m) + unat (tm_word_count m)"
    using unat_minus_exact [OF le] s assms by (simp add: usable_def)
qed

lemma scan_run_ok:
  assumes "run_covers start en members" and "list_all usable ms"
    and "sorted (map (\<lambda>m. unat (tm_address m)) ms)" and "\<forall>m \<in> set ms. unat start \<le> unat (tm_address m)"
  shows "\<exists>en' members' rest. scan_run p en members ms = Some (en', members', rest)
    \<and> run_covers start en' members' \<and> members' @ rest = members @ ms
    \<and> (\<exists>xs. members' = members @ xs)
    \<and> (\<forall>m \<in> set rest. unat en' + 1 < unat (tm_address m))"
  using assms
proof (induction ms arbitrary: en members)
  case Nil
  then show ?case by simp
next
  case (Cons n ms)
  have cov: "unat en + 1 < 2 ^ 32" "unat start \<le> unat en"
    "{unat start..<unat en + 1} = \<Union> (words_of ` set members)"
    using Cons.prems(1) by (simp_all add: run_covers_def)
  have u: "usable n" using Cons.prems(2) by simp
  have lim: "add_ck p en 1 = Some (en + 1)" "unat (en + 1) = unat en + 1"
    using cov(1) by (simp_all add: panic_simps unat_plus_exact)
  define ce where "ce = tm_address n + ucast (tm_word_count n) - 1"
  have ce: "unat ce + 1 = unat (tm_address n) + unat (tm_word_count n)"
    using fins_end(3) [OF u] by (simp add: ce_def)
  show ?case
  proof (cases "unat (tm_address n) \<le> unat en + 1")
    case True
    define en2 where "en2 = (if ce > en then ce else en)"
    have en2: "unat en2 + 1 = max (unat en + 1) (unat (tm_address n) + unat (tm_word_count n))"
      using ce by (auto simp: en2_def word_less_nat_alt)
    have "{unat start..<unat en2 + 1} = {unat start..<unat en + 1} \<union> words_of n"
      unfolding en2 words_of_def
      by (rule interval_join [symmetric]) (use Cons.prems(4) True u in \<open>auto simp: usable_def\<close>)
    then have "run_covers start en2 (members @ [n])"
      using cov u en2 by (auto simp: run_covers_def usable_def fins_addressable_def)
    from Cons.IH [OF this] Cons.prems obtain en' members' rest where
      "scan_run p en2 (members @ [n]) ms = Some (en', members', rest)" "run_covers start en' members'"
      "members' @ rest = (members @ [n]) @ ms" "\<exists>xs. members' = (members @ [n]) @ xs"
      "\<forall>m \<in> set rest. unat en' + 1 < unat (tm_address m)" by auto
    moreover have "tm_address n \<le> en + 1" using True lim(2) by (simp add: word_le_nat_alt)
    ultimately show ?thesis
      using lim(1) fins_end [OF u] by (auto simp: en2_def ce_def)
  next
    case False
    then have "\<not> tm_address n \<le> en + 1" using lim(2) by (simp add: word_le_nat_alt)
    moreover have "\<forall>m \<in> set (n # ms). unat en + 1 < unat (tm_address m)"
      using False Cons.prems(3) by fastforce
    ultimately show ?thesis using lim(1) Cons.prems(1) by auto
  qed
qed

text \<open>One run of a sorted list: its words are those of its mappings, and the rest starts after a gap.\<close>

lemma take_run_ok:
  assumes "list_all usable (m # ms)" and "sorted (map (\<lambda>m. unat (tm_address m)) (m # ms))"
  shows "\<exists>n members rest. take_run p m ms = Some (n, members, rest)
    \<and> members @ rest = m # ms \<and> members \<noteq> [] \<and> 0 < unat n
    \<and> unat (tm_address m) + unat n < 2 ^ 32
    \<and> {unat (tm_address m)..<unat (tm_address m) + unat n} = \<Union> (words_of ` set members)
    \<and> (\<forall>x \<in> set rest. unat (tm_address m) + unat n < unat (tm_address x))"
proof -
  have u: "usable m" using assms(1) by simp
  define en0 where "en0 = tm_address m + ucast (tm_word_count m) - 1"
  have en0: "unat en0 + 1 = unat (tm_address m) + unat (tm_word_count m)"
    using fins_end(3) [OF u] by (simp add: en0_def)
  have "run_covers (tm_address m) en0 [m]"
    using en0 u by (auto simp: run_covers_def usable_def fins_addressable_def words_of_def)
  from scan_run_ok [OF this, of ms p] assms obtain en members rest xs where
    scan: "scan_run p en0 [m] ms = Some (en, members, rest)" and cov: "run_covers (tm_address m) en members"
    and split: "members @ rest = m # ms" "members = [m] @ xs"
    and gap: "\<forall>x \<in> set rest. unat en + 1 < unat (tm_address x)" by auto
  have le: "unat (tm_address m) \<le> unat en" and small: "unat en + 1 < 2 ^ 32"
    using cov by (simp_all add: run_covers_def)
  define n where "n = en - tm_address m + 1"
  have d: "unat (en - tm_address m) = unat en - unat (tm_address m)" using le by (rule unat_minus_exact)
  have n: "unat n = unat en + 1 - unat (tm_address m)"
    unfolding n_def using d le small by (subst unat_plus_exact) auto
  have "take_run p m ms = Some (n, members, rest)"
    using fins_end [OF u] scan sub_ck_exact [OF le, of p] d small
    by (simp add: take_run_def en0_def n_def panic_simps)
  then show ?thesis
    using split gap n le small cov by (intro exI [of _ n] exI [of _ members] exI [of _ rest])
      (auto simp: run_covers_def)
qed

section \<open>Requests\<close>

definition request_words :: "u32 \<times> u16 \<Rightarrow> nat list" where
  "request_words c = [unat (fst c)..<unat (fst c) + unat (snd c)]"

lemma split_loop_covers:
  assumes "0 < unat mx" and "unat mx < 2 ^ 16" and "unat start + unat remaining < 2 ^ 32"
  shows "\<exists>cs. split_loop p mx start remaining = Some (Some cs)
    \<and> concat (map request_words cs) = [unat start..<unat start + unat remaining]
    \<and> (\<forall>c \<in> set cs. 0 < unat (snd c) \<and> unat (snd c) \<le> unat mx)"
  using assms(3)
proof (induction "unat remaining" arbitrary: start remaining rule: less_induct)
  case less
  show ?case
  proof (cases "unat remaining = 0")
    case True
    then have "remaining = 0" by (simp add: unat_eq_0)
    with True show ?thesis by (simp add: split_loop.simps)
  next
    case False
    define q where "q = (ucast (min remaining mx) :: u16)"
    have mn: "unat (min remaining mx) = min (unat remaining) (unat mx)"
      by (simp add: min_def word_le_nat_alt)
    then have q: "unat q = min (unat remaining) (unat mx)"
      unfolding q_def using assms(2) by (subst unat_ucast_u32_u16) auto
    have qb: "0 < unat q" "unat q \<le> unat mx" "unat q \<le> unat remaining" using q False assms(1) by auto
    have adv: "unat (ucast q :: u32) = unat q" by (rule unat_ucast_u16_u32)
    have nxt: "add_ck p start (ucast q) = Some (start + ucast q)" "unat (start + ucast q) = unat start + unat q"
      using less.prems qb(3) adv by (simp_all add: panic_simps unat_plus_exact)
    have rem: "unat (saturating_sub remaining (ucast q)) = unat remaining - unat q"
      by (simp add: unat_saturating_sub adv)
    have lt: "unat (saturating_sub remaining (ucast q)) < unat remaining" using rem qb by linarith
    have "unat (start + ucast q) + unat (saturating_sub remaining (ucast q)) < 2 ^ 32"
      using less.prems rem nxt(2) qb(3) by linarith
    from less.hyps [OF lt this] obtain cs where cs:
      "split_loop p mx (start + ucast q) (saturating_sub remaining (ucast q)) = Some (Some cs)"
      "concat (map request_words cs) = [unat start + unat q..<unat start + unat remaining]"
      "\<forall>c \<in> set cs. 0 < unat (snd c) \<and> unat (snd c) \<le> unat mx"
      using rem nxt(2) qb(3) by auto
    have "remaining \<noteq> 0" using False by auto
    then have "split_loop p mx start remaining = Some (Some ((start, q) # cs))"
      using cs(1) nxt(1) by (subst split_loop.simps) (simp add: Let_def q_def)
    moreover have "[unat start..<unat start + unat q] @ [unat start + unat q..<unat start + unat remaining]
        = [unat start..<unat start + unat remaining]"
      using qb(3) upt_add_eq_append [of "unat start" "unat start + unat q" "unat remaining - unat q"] by simp
    ultimately show ?thesis using cs qb by (simp add: request_words_def)
  qed
qed

text \<open>With a maximum of zero words the loop makes no progress.\<close>

lemma split_loop_zero:
  assumes "remaining \<noteq> 0"
  shows "split_loop p 0 start remaining = None"
proof (rule ccontr)
  assume "split_loop p 0 start remaining \<noteq> None"
  then obtain r where r: "split_loop p 0 start remaining = Some r" by blast
  have zero: "mx = 0 \<longrightarrow> remaining = 0" if "split_loop p mx start remaining = Some r" for p mx start remaining r
  proof (rule split_loop.raw_induct [where P = "\<lambda>p mx start remaining r. mx = 0 \<longrightarrow> remaining = 0", OF _ that])
    fix rec :: "profile \<Rightarrow> u32 \<Rightarrow> u32 \<Rightarrow> u32 \<Rightarrow> (u32 \<times> u16) list option option"
      and p mx start remaining r
    assume IH: "\<And>p mx start remaining r. rec p mx start remaining = Some r \<Longrightarrow> mx = 0 \<longrightarrow> remaining = 0"
      and step: "(if remaining = 0 then Some (Some [])
        else let chunk_words = ucast (min remaining mx); advance = ucast chunk_words
          in case add_ck p start advance of None \<Rightarrow> Some None
             | Some nxt \<Rightarrow> Option.bind (rec p mx nxt (saturating_sub remaining advance))
                 (\<lambda>r. Some (map_option ((#) (start, chunk_words)) r))) = Some r"
    show "mx = 0 \<longrightarrow> remaining = 0"
    proof (intro impI, rule ccontr)
      assume mx: "mx = 0" and nz: "remaining \<noteq> 0"
      have "add_ck p start 0 = Some start"
        using unsigned_less [of start, where 'a = nat] by (simp add: add_ck_def)
      then obtain r' where "rec p 0 start remaining = Some r'"
        using step nz mx by (auto simp: Let_def saturating_sub_def bind_eq_Some_conv)
      from IH [OF this] nz show False by simp
    qed
  qed
  from zero [OF r] assms show False by simp
qed

section \<open>Groups of an area\<close>

definition group_words :: "ReadGroup \<Rightarrow> nat list" where
  "group_words g = request_words (rg_start_address g, rg_word_count g)"

text \<open>What the groups of a sorted list of mappings are.\<close>

definition serves :: "u32 \<Rightarrow> u8 \<Rightarrow> TagMapping set \<Rightarrow> ReadGroup \<Rightarrow> bool" where
  "serves mx area M g \<longleftrightarrow>
     rg_area g = area \<and> 0 < unat (rg_word_count g) \<and> unat (rg_word_count g) \<le> unat mx
     \<and> set (rg_mappings g) \<subseteq> M
     \<and> (\<forall>m \<in> M. words_of m \<inter> set (group_words g) \<noteq> {} \<longrightarrow> m \<in> set (rg_mappings g))"

lemma serves_more:
  "serves mx area M g \<Longrightarrow> (\<And>m. m \<in> N \<Longrightarrow> words_of m \<inter> set (group_words g) = {}) \<Longrightarrow>
   serves mx area (M \<union> N) g"
  unfolding serves_def by blast

definition groups_cover :: "u32 \<Rightarrow> u8 \<Rightarrow> TagMapping list \<Rightarrow> ReadGroup list \<Rightarrow> bool" where
  "groups_cover mx area ms gs \<longleftrightarrow>
     sorted_wrt (<) (concat (map group_words gs))
     \<and> set (concat (map group_words gs)) = \<Union> (words_of ` set ms)
     \<and> (\<forall>g \<in> set gs. serves mx area (set ms) g)"

lemma groups_cover_append:
  assumes "groups_cover mx area ms hs" and "groups_cover mx area ms' gs"
    and apart: "\<And>x y. x \<in> \<Union> (words_of ` set ms) \<Longrightarrow> y \<in> \<Union> (words_of ` set ms') \<Longrightarrow> x < y"
  shows "groups_cover mx area (ms @ ms') (hs @ gs)"
proof -
  have hs: "set (concat (map group_words hs)) = \<Union> (words_of ` set ms)"
    and gs: "set (concat (map group_words gs)) = \<Union> (words_of ` set ms')"
    using assms(1,2) by (auto simp: groups_cover_def)
  have in_hs: "set (group_words g) \<subseteq> \<Union> (words_of ` set ms)" if "g \<in> set hs" for g
    using that unfolding hs [symmetric] by auto
  have in_gs: "set (group_words g) \<subseteq> \<Union> (words_of ` set ms')" if "g \<in> set gs" for g
    using that unfolding gs [symmetric] by auto
  have "serves mx area (set (ms @ ms')) g" if g: "g \<in> set hs" for g
  proof -
    have "words_of m \<inter> set (group_words g) = {}" if "m \<in> set ms'" for m
      using that in_hs [OF g] apart by blast
    moreover have "serves mx area (set ms) g" using g assms(1) by (simp add: groups_cover_def)
    ultimately show ?thesis unfolding set_append by (intro serves_more)
  qed
  moreover have "serves mx area (set (ms @ ms')) g" if g: "g \<in> set gs" for g
  proof -
    have "words_of m \<inter> set (group_words g) = {}" if "m \<in> set ms" for m
      using that in_gs [OF g] apart by blast
    moreover have "serves mx area (set ms') g" using g assms(2) by (simp add: groups_cover_def)
    ultimately show ?thesis unfolding set_append Un_commute [of "set ms"] by (intro serves_more)
  qed
  moreover have "sorted_wrt (<) (concat (map group_words (hs @ gs)))"
    unfolding map_append concat_append sorted_wrt_append
    using assms(1,2) apart hs gs by (simp add: groups_cover_def)
  moreover have "set (concat (map group_words (hs @ gs))) = \<Union> (words_of ` set (ms @ ms'))"
    unfolding map_append concat_append set_append hs gs by blast
  ultimately show ?thesis
    unfolding groups_cover_def by auto
qed

text \<open>The requests of one run.\<close>

lemma run_groups_cover:
  assumes "concat (map request_words cs) = [a..<b]" and "{a..<b} = \<Union> (words_of ` set members)"
    and "\<forall>c \<in> set cs. 0 < unat (snd c) \<and> unat (snd c) \<le> unat mx"
  shows "groups_cover mx area members (map (\<lambda>(s, k). \<lparr>rg_area = area, rg_start_address = s,
    rg_word_count = k, rg_mappings = members\<rparr>) cs)"
proof -
  have "concat (map group_words (map (\<lambda>(s, k). \<lparr>rg_area = area, rg_start_address = s,
      rg_word_count = k, rg_mappings = members\<rparr>) cs)) = [a..<b]"
    using assms(1) by (simp add: group_words_def comp_def case_prod_beta)
  with assms(2,3) show ?thesis by (auto simp: groups_cover_def serves_def simp del: map_map)
qed

lemma area_groups_cover:
  assumes "0 < unat mx" and "unat mx < 2 ^ 16"
    and "list_all usable ms" and "sorted (map (\<lambda>m. unat (tm_address m)) ms)"
  shows "\<exists>gs. area_groups p mx area ms = Value gs \<and> groups_cover mx area ms gs"
  using assms(3,4)
proof (induction "length ms" arbitrary: ms rule: less_induct)
  case less
  show ?case
  proof (cases ms)
    case Nil
    then show ?thesis by (simp add: groups_cover_def)
  next
    case (Cons m ms')
    let ?a = "unat (tm_address m)"
    obtain n members rest where run: "take_run p m ms' = Some (n, members, rest)"
      "members @ rest = m # ms'" "members \<noteq> []" "0 < unat n" "?a + unat n < 2 ^ 32"
      "{?a..<?a + unat n} = \<Union> (words_of ` set members)"
      and gap: "\<forall>x \<in> set rest. ?a + unat n < unat (tm_address x)"
      using take_run_ok [of m ms' p] less.prems Cons by auto
    obtain cs where cs: "split_run p mx (tm_address m) n = Value cs"
      "concat (map request_words cs) = [?a..<?a + unat n]"
      "\<forall>c \<in> set cs. 0 < unat (snd c) \<and> unat (snd c) \<le> unat mx"
      using split_loop_covers [OF assms(1,2) run(5), of p] by (auto simp: split_run_def)
    have eq: "ms = members @ rest" using run(2) Cons by simp
    have rest: "list_all usable rest" "sorted (map (\<lambda>m. unat (tm_address m)) rest)" "length rest < length ms"
      using less.prems run(3) unfolding eq by (simp_all add: sorted_append)
    obtain gs where gs: "area_groups p mx area rest = Value gs" "groups_cover mx area rest gs"
      using less.hyps [OF rest(3,1,2)] by blast
    have "x < y" if "x \<in> \<Union> (words_of ` set members)" "y \<in> \<Union> (words_of ` set rest)" for x y
      using that gap unfolding run(6) [symmetric] by (fastforce simp: words_of_def)
    then have "groups_cover mx area (members @ rest) (map (\<lambda>(s, k). \<lparr>rg_area = area,
        rg_start_address = s, rg_word_count = k, rg_mappings = members\<rparr>) cs @ gs)"
      by (rule groups_cover_append [OF run_groups_cover [OF cs(2) run(6) cs(3)] gs(2)])
    moreover have "area_groups p mx area ms = Value (map (\<lambda>(s, k). \<lparr>rg_area = area,
        rg_start_address = s, rg_word_count = k, rg_mappings = members\<rparr>) cs @ gs)"
      using run(1) cs(1) gs(1) by (simp add: Cons)
    ultimately show ?thesis unfolding eq by blast
  qed
qed

section \<open>All areas\<close>

lemma areas_of_facts: "distinct (areas_of ms)" "set (areas_of ms) = tm_area ` set ms"
  by (simp_all add: areas_of_def)

lemma usable_sorted_area: "list_all usable ms \<Longrightarrow> list_all usable (sorted_area ms a)"
  by (simp add: list_all_iff sorted_area_facts)

lemma all_area_groups_cover:
  assumes "0 < unat mx" and "unat mx < 2 ^ 16" and "list_all usable ms" and "distinct as"
  shows "\<exists>gs. all_area_groups p mx ms as = Value gs \<and> rg_area ` set gs \<subseteq> set as
    \<and> (\<forall>a \<in> set as. groups_cover mx a (sorted_area ms a) (filter (\<lambda>g. rg_area g = a) gs))"
  using assms(4)
proof (induction as)
  case (Cons a as)
  obtain gs where gs: "area_groups p mx a (sorted_area ms a) = Value gs" "groups_cover mx a (sorted_area ms a) gs"
    using area_groups_cover [OF assms(1,2) usable_sorted_area [OF assms(3)] sorted_unat_area] by blast
  obtain gs' where gs': "all_area_groups p mx ms as = Value gs'" "rg_area ` set gs' \<subseteq> set as"
    "\<forall>b \<in> set as. groups_cover mx b (sorted_area ms b) (filter (\<lambda>g. rg_area g = b) gs')"
    using Cons by auto
  have a: "\<forall>g \<in> set gs. rg_area g = a" using gs(2) by (auto simp: groups_cover_def serves_def)
  have "filter (\<lambda>g. rg_area g = b) gs = (if b = a then gs else [])" for b
    using a by (auto simp: filter_id_conv filter_empty_conv)
  moreover have "filter (\<lambda>g. rg_area g = a) gs' = []"
    using gs'(2) Cons.prems by (auto simp: filter_empty_conv)
  ultimately show ?case using gs gs' a Cons.prems by auto
qed simp

lemma read_groups_cover:
  assumes "list_all usable (fc_mappings cfg)" and "0 < unat (fc_max_words_per_request cfg)"
    and "unat (fc_max_words_per_request cfg) < 2 ^ 16"
  shows "\<exists>gs. FinsDriver_read_groups p cfg = Value gs \<and> rg_area ` set gs \<subseteq> tm_area ` set (fc_mappings cfg)
    \<and> (\<forall>a \<in> tm_area ` set (fc_mappings cfg). groups_cover (fc_max_words_per_request cfg) a
      (sorted_area (fc_mappings cfg) a) (filter (\<lambda>g. rg_area g = a) gs))"
  using all_area_groups_cover [OF assms(2,3,1) areas_of_facts(1) [of "fc_mappings cfg"], of p]
  by (auto simp: FinsDriver_read_groups_def areas_of_facts)

lemma groups_cover_serves:
  assumes "\<forall>a \<in> A. groups_cover mx a (sorted_area ms a) (filter (\<lambda>g. rg_area g = a) gs)"
    and "g \<in> set gs" and "rg_area g \<in> A"
  shows "serves mx (rg_area g) {m \<in> set ms. tm_area m = rg_area g} g"
proof -
  have "groups_cover mx (rg_area g) (sorted_area ms (rg_area g)) (filter (\<lambda>h. rg_area h = rg_area g) gs)"
    using assms(1,3) by blast
  then show ?thesis using assms(2) by (simp add: groups_cover_def sorted_area_facts)
qed

lemma groups_cover_sorted_list:
  assumes "groups_cover mx a ms gs"
  shows "concat (map group_words gs) = sorted_list_of_set (\<Union> (words_of ` set ms))"
proof -
  have "sorted (concat (map group_words gs))" "distinct (concat (map group_words gs))"
    using assms unfolding groups_cover_def by (simp_all only: strict_sorted_iff)
  then have "sorted_list_of_set (set (concat (map group_words gs))) = concat (map group_words gs)"
    by (rule sorted_list_of_set.idem_if_sorted_distinct)
  then show ?thesis using assms by (simp add: groups_cover_def)
qed

lemma area_groups_Loops:
  assumes "list_all usable ms" and "sorted (map (\<lambda>m. unat (tm_address m)) ms)" and "ms \<noteq> []"
  shows "area_groups p 0 area ms = Loops"
proof -
  obtain m ms' where ms: "ms = m # ms'" using assms(3) by (cases ms) auto
  then obtain n members rest where run: "take_run p m ms' = Some (n, members, rest)" "0 < unat n"
    using take_run_ok [of m ms' p] assms(1,2) by auto
  then have "n \<noteq> 0" by auto
  then show ?thesis using run(1) by (simp add: ms split_run_def split_loop_zero)
qed

section \<open>Properties\<close>

text \<open>C16: FINS validation accepts a configuration exactly when every mapping passes its own checks and no two
  mappings of one memory area share a word, in whatever order the map of areas is iterated; for
  mappings that end below the 32-bit address limit.\<close>

theorem fins_validate_iff:
  assumes "list_all fins_addressable (fc_mappings cfg)" and "set areas = tm_area ` set (fc_mappings cfg)"
  shows "fins_validate areas cfg = Inr () \<longleftrightarrow>
    list_all (\<lambda>m. fins_check_mapping m = None) (fc_mappings cfg)
    \<and> (\<forall>i j. i < j \<and> j < length (fc_mappings cfg)
        \<and> tm_area (fc_mappings cfg ! i) = tm_area (fc_mappings cfg ! j) \<longrightarrow>
        words_of (fc_mappings cfg ! i) \<inter> words_of (fc_mappings cfg ! j) = {})"
proof (cases "list_all (\<lambda>m. fins_check_mapping m = None) (fc_mappings cfg)")
  case True
  let ?ms = "fc_mappings cfg"
  have u: "list_all usable ?ms" using assms(1) True fins_check_pos by (auto simp: list_all_iff usable_def)
  have "first_some fins_check_mapping ?ms = None" using True by (simp add: first_some_None list_all_iff)
  then have "fins_validate areas cfg = Inr () \<longleftrightarrow>
      first_some (\<lambda>a. fins_overlap_scan a (sorted_area ?ms a)) areas = None"
    by (simp add: fins_validate_def split: option.split)
  also have "\<dots> \<longleftrightarrow> (\<forall>a \<in> set areas. fins_overlap_scan a (sorted_area ?ms a) = None)"
    by (simp add: first_some_None)
  also have "\<dots> \<longleftrightarrow> sorted_wrt (\<lambda>x y. tm_area x = tm_area y \<longrightarrow> words_of x \<inter> words_of y = {}) ?ms"
    using fins_ranges.accepts_all_keys [OF u assms(2), of "sorted_area ?ms"]
    by (simp add: sorted_area_facts by_area_def sorted_unat_area)
  finally show ?thesis using True by (simp add: sorted_wrt_iff_nth_less) blast
next
  case False
  then have "first_some fins_check_mapping (fc_mappings cfg) \<noteq> None"
    by (simp add: first_some_None list_all_iff)
  then show ?thesis using False by (auto simp: fins_validate_def)
qed

definition example_fins_config :: FinsConfig where
  "example_fins_config = FinsConfig_new ''omron'' ''10.0.0.2:9600'' 500
     [TagMapping_new ''a'' 0x82 100 0 1 True ABCD TUInt16, TagMapping_new ''b'' 0x82 101 0 2 False CDAB TFloat]"

lemma example_fins_facts:
  "list_all fins_addressable (fc_mappings example_fins_config)"
  "set [0x82] = tm_area ` set (fc_mappings example_fins_config)"
  "list_all usable (fc_mappings example_fins_config)"
  by (simp_all add: example_fins_config_def FinsConfig_new_def TagMapping_new_def fins_addressable_def usable_def)

theorem fins_validate_iff_witness:
  "fins_validate [0x82] example_fins_config = Inr ()"
proof -
  have "list_all (\<lambda>m. fins_check_mapping m = None) (fc_mappings example_fins_config)"
    by (simp add: example_fins_config_def FinsConfig_new_def TagMapping_new_def fins_check_mapping_def)
  moreover have "\<forall>i j. i < j \<and> j < length (fc_mappings example_fins_config)
        \<and> tm_area (fc_mappings example_fins_config ! i) = tm_area (fc_mappings example_fins_config ! j) \<longrightarrow>
        words_of (fc_mappings example_fins_config ! i) \<inter> words_of (fc_mappings example_fins_config ! j) = {}"
    by (auto simp: example_fins_config_def FinsConfig_new_def TagMapping_new_def words_of_def less_Suc_eq)
  ultimately show ?thesis using fins_validate_iff [OF example_fins_facts(1,2)] by blast
qed

text \<open>C14: For mappings of at least one word that end below the address limit, and a request maximum between 1 and
  65535 words, \<open>FinsDriver::new\<close> returns, and the read groups of every area read each mapped word of
  that area exactly once, in ascending order, and no other word; each group is within the maximum and
  carries every mapping that has a word in it.\<close>

theorem fins_read_groups_exact:
  assumes "list_all usable (fc_mappings cfg)" and "0 < unat (fc_max_words_per_request cfg)"
    and "unat (fc_max_words_per_request cfg) < 2 ^ 16"
  shows "\<exists>gs. FinsDriver_read_groups p cfg = Value gs
    \<and> (\<forall>a. concat (map group_words (filter (\<lambda>g. rg_area g = a) gs))
        = sorted_list_of_set (\<Union> (words_of ` {m \<in> set (fc_mappings cfg). tm_area m = a})))
    \<and> (\<forall>g \<in> set gs. serves (fc_max_words_per_request cfg) (rg_area g)
        {m \<in> set (fc_mappings cfg). tm_area m = rg_area g} g)"
proof -
  let ?ms = "fc_mappings cfg"
  obtain gs where gs: "FinsDriver_read_groups p cfg = Value gs" "rg_area ` set gs \<subseteq> tm_area ` set ?ms"
    and cov: "\<forall>a \<in> tm_area ` set ?ms. groups_cover (fc_max_words_per_request cfg) a (sorted_area ?ms a)
      (filter (\<lambda>g. rg_area g = a) gs)"
    using read_groups_cover [OF assms, of p] by blast
  have "concat (map group_words (filter (\<lambda>g. rg_area g = a) gs))
      = sorted_list_of_set (\<Union> (words_of ` {m \<in> set ?ms. tm_area m = a}))" for a
  proof (cases "a \<in> tm_area ` set ?ms")
    case True
    then show ?thesis using groups_cover_sorted_list cov by (fastforce simp: sorted_area_facts)
  next
    case False
    then have "filter (\<lambda>g. rg_area g = a) gs = []" "{m \<in> set ?ms. tm_area m = a} = {}"
      using gs(2) by (auto simp: filter_empty_conv)
    then show ?thesis by (simp only: list.map concat.simps image_empty Union_empty sorted_list_of_set_empty)
  qed
  moreover have "serves (fc_max_words_per_request cfg) (rg_area g) {m \<in> set ?ms. tm_area m = rg_area g} g"
    if "g \<in> set gs" for g
    using that gs(2) by (intro groups_cover_serves [OF cov]) auto
  ultimately show ?thesis using gs(1) by blast
qed

theorem fins_read_groups_exact_witness:
  "\<exists>gs. FinsDriver_read_groups Debug example_fins_config = Value gs
    \<and> concat (map group_words (filter (\<lambda>g. rg_area g = 0x82) gs)) = [100, 101, 102]"
proof -
  have max: "fc_max_words_per_request example_fins_config = 960"
    by (simp add: example_fins_config_def FinsConfig_new_def)
  obtain gs where gs: "FinsDriver_read_groups Debug example_fins_config = Value gs"
    "concat (map group_words (filter (\<lambda>g. rg_area g = 0x82) gs))
      = sorted_list_of_set (\<Union> (words_of ` {m \<in> set (fc_mappings example_fins_config). tm_area m = 0x82}))"
    using fins_read_groups_exact [OF example_fins_facts(3), of Debug] max by auto
  have "{m \<in> set (fc_mappings example_fins_config). tm_area m = 0x82} = set (fc_mappings example_fins_config)"
    by (auto simp: example_fins_config_def FinsConfig_new_def TagMapping_new_def)
  moreover have "\<Union> (words_of ` set (fc_mappings example_fins_config)) = {100..<101} \<union> {101..<103}"
    by (simp add: example_fins_config_def FinsConfig_new_def TagMapping_new_def words_of_def)
  moreover have "{100..<101} \<union> {101..<103} = set [100, 101, 102 :: nat]" by auto
  moreover have "sorted_list_of_set (set [100, 101, 102 :: nat]) = [100, 101, 102]"
    by (rule sorted_list_of_set.idem_if_sorted_distinct) simp_all
  ultimately show ?thesis using gs by (intro exI [of _ gs]) simp
qed

text \<open>C40: With \<open>max_words_per_request\<close> set to zero and at least one mapping, \<open>FinsDriver::new\<close> does not return:
  the chunk loop makes no progress (it pushes empty read groups for ever).\<close>

theorem fins_zero_max_never_returns:
  assumes "fc_max_words_per_request cfg = 0" and "list_all usable (fc_mappings cfg)" and "fc_mappings cfg \<noteq> []"
  shows "FinsDriver_read_groups p cfg = Loops"
proof -
  let ?ms = "fc_mappings cfg"
  have "areas_of ?ms \<noteq> []" using assms(3) areas_of_facts(2) [of ?ms] by (metis image_is_empty set_empty)
  then obtain a as where as: "areas_of ?ms = a # as" by (cases "areas_of ?ms") auto
  then have "a \<in> tm_area ` set ?ms" using areas_of_facts(2) [of ?ms] by (metis list.set_intros(1))
  then have "sorted_area ?ms a \<noteq> []" using sorted_area_facts(3) [of ?ms a] by (metis (mono_tags, lifting) empty_Collect_eq imageE set_empty)
  with area_groups_Loops [OF usable_sorted_area [OF assms(2)] sorted_unat_area] show ?thesis
    by (simp add: FinsDriver_read_groups_def as assms(1))
qed

theorem fins_zero_max_never_returns_witness:
  "FinsDriver_read_groups Release (example_fins_config\<lparr>fc_max_words_per_request := 0\<rparr>) = Loops"
  by (rule fins_zero_max_never_returns)
    (use example_fins_facts(3) in \<open>simp_all\<close>, simp add: example_fins_config_def FinsConfig_new_def)

end
