(* ===== verification/Fins_Cycle.thy ===== *)
theory Fins_Cycle
  imports Fins_Plan Protocol
begin

text \<open>
  \<open>src/driver/fins/src/driver.rs\<close>: one cycle of the FINS driver (\<open>run_read_cycle_impl\<close>): make sure there
  is a connection, drain the write queue, read every precomputed group, decode and publish.

  The TCP stream and the clock are a parameter, a record \<open>'e fins_io\<close> of functions over an environment
  \<open>'e\<close>.  The driver sets no timeout on the stream, so an operation may also never complete.  The
  state is that of \<open>Driver_State\<close> with the session counter; \<open>ds_conn\<close> tells whether the slot \<open>conn\<close> holds
  a stream.
\<close>

datatype 'a io_result = IoOk 'a | IoErr string | IoHang

record 'e fins_io =
  fio_connect :: "'e \<Rightarrow> bool \<times> 'e"
  fio_write_all :: "u8 list \<Rightarrow> 'e \<Rightarrow> unit io_result \<times> 'e"
  fio_read_exact :: "nat \<Rightarrow> 'e \<Rightarrow> u8 list io_result \<times> 'e"
  fio_now :: "'e \<Rightarrow> datetime \<times> 'e"

record 'e fins_state = "'e drv_state" +
  fs_sid :: u8

definition fins_connect_with_backoff :: "'e fins_io \<Rightarrow> FinsConfig \<Rightarrow> 'e fins_state \<Rightarrow> 'e fins_state option" where
  "fins_connect_with_backoff io cfg s = connect_loop (fio_connect io) (fc_max_backoff_secs cfg) 1 s"

text \<open>\<open>fetch_add\<close> returns the old count and wraps.\<close>

definition next_sid :: "'e fins_state \<Rightarrow> u8 \<times> 'e fins_state" where
  "next_sid s = (fs_sid s, s\<lparr>fs_sid := fs_sid s + 1\<rparr>)"

section \<open>One exchange on the stream\<close>

text \<open>An operation of the stream; \<open>None\<close>: it never completes.\<close>

definition on_stream ::
  "('e \<Rightarrow> 'a io_result \<times> 'e) \<Rightarrow> 'e fins_state \<Rightarrow> ((string + 'a) \<times> 'e fins_state) option" where
  "on_stream act s =
     (case act (ds_env s) of (r, e) \<Rightarrow>
        case r of
          IoOk x \<Rightarrow> Some (Inr x, s\<lparr>ds_env := e\<rparr>)
        | IoErr msg \<Rightarrow> Some (Inl msg, s\<lparr>ds_env := e\<rparr>)
        | IoHang \<Rightarrow> None)"

text \<open>The length field of the FINS/TCP header.\<close>

definition payload_len :: "crates \<Rightarrow> u8 list \<Rightarrow> nat" where
  "payload_len cr header =
     (case read_u32 cr (take 4 (drop 4 header)) of None \<Rightarrow> 0 | Some (n, _) \<Rightarrow> unat n)"

text \<open>The message is written, header and payload are read, and the stream is put back in its slot.  After
  an I/O error the slot stays empty and the text of the error is the result.\<close>

definition transact ::
  "'e fins_io \<Rightarrow> crates \<Rightarrow> u8 list \<Rightarrow> 'e fins_state \<Rightarrow> ((string + u8 list) \<times> 'e fins_state) option" where
  "transact io cr wrapped s =
     (case on_stream (fio_write_all io wrapped) s of
        None \<Rightarrow> None
      | Some (Inl msg, s) \<Rightarrow> Some (Inl msg, s)
      | Some (Inr _, s) \<Rightarrow>
          (case on_stream (fio_read_exact io 8) s of
             None \<Rightarrow> None
           | Some (Inl msg, s) \<Rightarrow> Some (Inl msg, s)
           | Some (Inr header, s) \<Rightarrow>
               (case on_stream (fio_read_exact io (payload_len cr header)) s of
                  None \<Rightarrow> None
                | Some (Inl msg, s) \<Rightarrow> Some (Inl msg, s)
                | Some (Inr payload, s) \<Rightarrow> Some (Inr payload, s\<lparr>ds_conn := True\<rparr>))))"

text \<open>The stream is taken out of its slot, or a new one is made; \<open>connect_with_backoff\<close> never returns an
  error, so its error branches have no counterpart.\<close>

definition exchange ::
  "'e fins_io \<Rightarrow> crates \<Rightarrow> FinsConfig \<Rightarrow> u8 list \<Rightarrow> 'e fins_state \<Rightarrow> ((string + u8 list) \<times> 'e fins_state) option" where
  "exchange io cr cfg wrapped s =
     (let taken = s\<lparr>ds_conn := False\<rparr>
      in case (if ds_conn s then Some taken else fins_connect_with_backoff io cfg taken) of
           None \<Rightarrow> None
         | Some s \<Rightarrow> transact io cr wrapped s)"

section \<open>Writes\<close>

definition end_code_text :: "u16 \<Rightarrow> string" where
  "end_code_text end_code = ''FINS end code: 0x'' @ hex4 end_code"

text \<open>The \<open>match parse_fins_response(&payload)\<close> of a write.\<close>

definition fins_after_write ::
  "'e fins_io \<Rightarrow> u8 \<Rightarrow> u8 list \<Rightarrow> 'e fins_state \<Rightarrow> WriteRequest \<Rightarrow> TagMapping \<Rightarrow> 'e fins_state" where
  "fins_after_write io sid payload s req m =
     (case parse_fins_response payload of
        Inr (resp_sid, end_code, _) \<Rightarrow>
          if resp_sid \<noteq> sid then
            drv_reply (drv_quality (fio_now io) s (tm_tag_id m) CommLost) req (Inl ''SID mismatch'')
          else if end_code \<noteq> 0 then
            drv_reply (drv_quality (fio_now io) s (tm_tag_id m) (QError (end_code_text end_code))) req
              (Inl (end_code_text end_code))
          else drv_reply (drv_value (fio_now io) s (tm_tag_id m) (wr_value req) Good) req (Inr ())
      | Inl e \<Rightarrow>
          drv_reply (drv_quality (fio_now io) s (tm_tag_id m)
              (QError (''parse_write_resp: '' @ FinsError_display e))) req
            (Inl (''Parse error: '' @ FinsError_display e)))"

definition fins_write_words ::
  "'e fins_io \<Rightarrow> crates \<Rightarrow> FinsConfig \<Rightarrow> 'e fins_state \<Rightarrow> WriteRequest \<Rightarrow> TagMapping \<Rightarrow> u16 list
   \<Rightarrow> ('e fins_state, FinsError) ctl" where
  "fins_write_words io cr cfg s req m words =
     (let ordered = apply_byte_order (registers_to_bytes words) (tm_byte_order m)
      in if length ordered mod 2 \<noteq> 0 then Next (drv_reply s req (Inl ''Ordered bytes length not even''))
         else
           (case next_sid s of (sid, s) \<Rightarrow>
              let params = build_memory_write cr (tm_area m) (tm_address m) (tm_bit_offset m) (read_words cr ordered);
                  wrapped = wrap_fins_tcp cr (build_fins_frame sid (0x01, 0x02) params)
              in case exchange io cr cfg wrapped s of
                   None \<Rightarrow> Diverges
                 | Some (Inl msg, s) \<Rightarrow>
                     Next (drv_reply (drv_quality (fio_now io) s (tm_tag_id m) CommLost) req
                       (Inl (''IO error: '' @ msg)))
                 | Some (Inr payload, s) \<Rightarrow> Next (fins_after_write io sid payload s req m)))"

definition fins_handle_write ::
  "'e fins_io \<Rightarrow> crates \<Rightarrow> FinsConfig \<Rightarrow> 'e fins_state \<Rightarrow> WriteRequest \<Rightarrow> ('e fins_state, FinsError) ctl" where
  "fins_handle_write io cr cfg s req =
     (case find_first (\<lambda>m. tm_tag_id m = wr_tag_id req) (fc_mappings cfg) of
        None \<Rightarrow> Next (drv_reply s req (Inl ''Unknown tag id''))
      | Some m \<Rightarrow>
          if \<not> tm_writable m then Next (drv_reply s req (Inl ''Not writable''))
          else case tagvalue_to_words_standard cr (wr_value req) of
              Inl e \<Rightarrow> Next (drv_reply s req (Inl (''Conversion error: '' @ FinsError_display e)))
            | Inr words \<Rightarrow> fins_write_words io cr cfg s req m words)"

definition fins_write_phase ::
  "'e fins_io \<Rightarrow> crates \<Rightarrow> FinsConfig \<Rightarrow> 'e fins_state \<Rightarrow> try_recv list \<Rightarrow> ('e fins_state, FinsError) ctl" where
  "fins_write_phase io cr cfg s recvs = drain (fins_handle_write io cr cfg) s recvs"

section \<open>Reads\<close>

definition fins_mark_all :: "'e fins_io \<Rightarrow> TagQuality \<Rightarrow> 'e fins_state \<Rightarrow> TagMapping list \<Rightarrow> 'e fins_state" where
  "fins_mark_all io q s ms = foldl (\<lambda>s m. drv_quality (fio_now io) s (tm_tag_id m) q) s ms"

text \<open>\<open>start + (n as u32) - 1\<close>.\<close>

definition last_word :: "profile \<Rightarrow> u32 \<Rightarrow> u16 \<Rightarrow> u32 option" where
  "last_word p start n = Option.bind (add_ck p start (ucast n)) (\<lambda>x. sub_ck p x 1)"

text \<open>Byte order, definition lookup, decoding by type, publication; the clock is read before decoding.
  A failure is turned into a quality by the caller, which is part of the definition.\<close>

definition decode_and_update_tag ::
  "profile \<Rightarrow> 'e fins_io \<Rightarrow> crates \<Rightarrow> 'e fins_state \<Rightarrow> TagMapping \<Rightarrow> u8 list \<Rightarrow> ('e fins_state, FinsError) ctl" where
  "decode_and_update_tag p io cr s m bytes =
     (let data_bytes = apply_byte_order bytes (tm_byte_order m);
          failed = (\<lambda>s e. Next (drv_quality (fio_now io) s (tm_tag_id m)
            (QError (''decode_failed: '' @ FinsError_display e))))
      in case get_definition (ds_registry s) (tm_tag_id m) of
           Inl _ \<Rightarrow> failed s (FMapping (''Tag id not found in registry: '' @ tm_tag_id m))
         | Inr _ \<Rightarrow>
             (case fins_decode p cr (tm_data_type m) (tm_bit_offset m) data_bytes of
                FDecoded v \<Rightarrow> Next (drv_value (fio_now io) s (tm_tag_id m) v Good)
              | FFailed e \<Rightarrow> failed (s\<lparr>ds_env := snd (fio_now io (ds_env s))\<rparr>) e
              | FPanic \<Rightarrow> Panicked (s\<lparr>ds_env := snd (fio_now io (ds_env s))\<rparr>)))"

definition short_payload :: "'e fins_io \<Rightarrow> 'e fins_state \<Rightarrow> TagMapping \<Rightarrow> 'e fins_state" where
  "short_payload io s m = drv_quality (fio_now io) s (tm_tag_id m) (QError ''short_payload'')"

text \<open>The two loops over the mappings of a group, on a response that is too short, and on one that is not.\<close>

definition fins_mark_short ::
  "profile \<Rightarrow> 'e fins_io \<Rightarrow> u32 \<Rightarrow> u32 \<Rightarrow> 'e fins_state \<Rightarrow> TagMapping \<Rightarrow> ('e fins_state, FinsError) ctl" where
  "fins_mark_short p io chunk_start chunk_end s m =
     (case last_word p (tm_address m) (tm_word_count m) of
        None \<Rightarrow> Panicked s
      | Some map_end \<Rightarrow>
          if \<not> (map_end < chunk_start \<or> tm_address m > chunk_end) then Next (short_payload io s m) else Next s)"

definition fins_process_mapping ::
  "profile \<Rightarrow> bool \<Rightarrow> 'e fins_io \<Rightarrow> crates \<Rightarrow> u32 \<Rightarrow> u32 \<Rightarrow> u8 list \<Rightarrow> 'e fins_state \<Rightarrow> TagMapping
   \<Rightarrow> ('e fins_state, FinsError) ctl" where
  "fins_process_mapping p warn_on io cr chunk_start chunk_end payload s m =
     (case last_word p (tm_address m) (tm_word_count m) of
        None \<Rightarrow> Panicked s
      | Some map_end \<Rightarrow>
          (case overlap_slice p warn_on chunk_start chunk_end payload (tm_address m) map_end of
             Outside \<Rightarrow> Next s
           | SlicePanic \<Rightarrow> Panicked s
           | Short \<Rightarrow> Next (short_payload io s m)
           | Slice bytes \<Rightarrow> decode_and_update_tag p io cr s m bytes))"

definition fins_process_response ::
  "profile \<Rightarrow> bool \<Rightarrow> 'e fins_io \<Rightarrow> crates \<Rightarrow> u8 \<Rightarrow> ReadGroup \<Rightarrow> u8 list \<Rightarrow> 'e fins_state
   \<Rightarrow> ('e fins_state, FinsError) ctl" where
  "fins_process_response p warn_on io cr sid g payload s =
     (case parse_fins_response payload of
        Inr (resp_sid, end_code, bytes) \<Rightarrow>
          if resp_sid \<noteq> sid then Next (fins_mark_all io CommLost s (rg_mappings g))
          else if end_code \<noteq> 0 then
            Break (fins_mark_all io (QError (end_code_text end_code)) s (rg_mappings g))
          else
            (case last_word p (rg_start_address g) (rg_word_count g) of
               None \<Rightarrow> Panicked s
             | Some chunk_end \<Rightarrow>
                 if length bytes < unat (rg_word_count g) * 2 then
                   for_each (fins_mark_short p io (rg_start_address g) chunk_end) s (rg_mappings g)
                 else
                   for_each (fins_process_mapping p warn_on io cr (rg_start_address g) chunk_end bytes)
                     s (rg_mappings g))
      | Inl e \<Rightarrow>
          Break (fins_mark_all io (QError (''parse_fins_resp: '' @ FinsError_display e)) s (rg_mappings g)))"

definition fins_read_group ::
  "profile \<Rightarrow> bool \<Rightarrow> 'e fins_io \<Rightarrow> crates \<Rightarrow> FinsConfig \<Rightarrow> 'e fins_state \<Rightarrow> ReadGroup
   \<Rightarrow> ('e fins_state, FinsError) ctl" where
  "fins_read_group p warn_on io cr cfg s g =
     (case next_sid s of (sid, s) \<Rightarrow>
        let params = build_memory_read cr (rg_area g) (rg_start_address g) 0 (rg_word_count g);
            wrapped = wrap_fins_tcp cr (build_fins_frame sid (0x01, 0x01) params)
        in case exchange io cr cfg wrapped s of
             None \<Rightarrow> Diverges
           | Some (Inl _, s) \<Rightarrow> Break (fins_mark_all io CommLost s (rg_mappings g))
           | Some (Inr payload, s) \<Rightarrow> fins_process_response p warn_on io cr sid g payload s)"

definition fins_ensure_conn :: "'e fins_io \<Rightarrow> FinsConfig \<Rightarrow> 'e fins_state \<Rightarrow> ('e fins_state, FinsError) ctl" where
  "fins_ensure_conn io cfg s =
     (if ds_conn s then Next s
      else case fins_connect_with_backoff io cfg s of
          None \<Rightarrow> Diverges
        | Some s \<Rightarrow> Next (s\<lparr>ds_conn := True\<rparr>))"

definition fins_run_read_cycle_impl ::
  "profile \<Rightarrow> bool \<Rightarrow> 'e fins_io \<Rightarrow> crates \<Rightarrow> FinsConfig \<Rightarrow> ReadGroup list \<Rightarrow> try_recv list \<Rightarrow> 'e fins_state
   \<Rightarrow> ('e fins_state, FinsError) ctl" where
  "fins_run_read_cycle_impl p warn_on io cr cfg read_groups recvs s =
     ctl_bind (fins_ensure_conn io cfg s) (\<lambda>s.
     ctl_bind (fins_write_phase io cr cfg s recvs) (\<lambda>s.
       for_each (fins_read_group p warn_on io cr cfg) s read_groups))"

section \<open>What an exchange changes\<close>

lemma on_stream_Some:
  assumes "on_stream act s = Some (x, s')"
  shows "\<exists>e. s' = s\<lparr>ds_env := e\<rparr>"
  using assms by (auto simp: on_stream_def split: prod.splits io_result.splits)

text \<open>An exchange touches neither registry nor replies; it leaves a stream in the slot exactly when it
  got an answer.\<close>

lemma transact_frame:
  assumes "transact io cr msg s = Some (x, s')" and "\<not> ds_conn s"
  shows "ds_registry s' = ds_registry s \<and> replies s' = replies s \<and> (ds_conn s' \<longleftrightarrow> \<not> isl x)"
  using assms
  by (auto simp: transact_def reply_simps split: option.splits prod.splits sum.splits dest!: on_stream_Some)

lemma exchange_frame:
  assumes "exchange io cr cfg msg s = Some (x, s')"
  shows "ds_registry s' = ds_registry s" and "replies s' = replies s" and "ds_conn s' \<longleftrightarrow> \<not> isl x"
proof -
  obtain s1 where s1: "(if ds_conn s then Some (s\<lparr>ds_conn := False\<rparr>)
      else fins_connect_with_backoff io cfg (s\<lparr>ds_conn := False\<rparr>)) = Some s1"
    and t: "transact io cr msg s1 = Some (x, s')"
    using assms by (auto simp: exchange_def Let_def split: option.splits)
  have frame: "ds_registry s1 = ds_registry s \<and> replies s1 = replies s \<and> \<not> ds_conn s1"
  proof (cases "ds_conn s")
    case True
    then show ?thesis using s1 by (auto simp: reply_simps)
  next
    case False
    with s1 have c: "connect_loop (fio_connect io) (fc_max_backoff_secs cfg) 1 (s\<lparr>ds_conn := False\<rparr>) = Some s1"
      by (simp add: fins_connect_with_backoff_def)
    show ?thesis using connect_loop_frame [OF c] replies_connect_loop [OF c] by (auto simp: reply_simps)
  qed
  with transact_frame [OF t]
  show "ds_registry s' = ds_registry s" "replies s' = replies s" "ds_conn s' \<longleftrightarrow> \<not> isl x"
    by (auto simp: reply_simps)
qed

lemma exchange_evolves: "exchange io cr cfg msg s = Some (x, s') \<Longrightarrow> reg_evolves r s \<Longrightarrow> reg_evolves r s'"
  by (simp add: reg_evolves_def exchange_frame(1))

section \<open>The registry changes only through its own operations\<close>

lemma fs_sid_frame [simp]:
  "reg_evolves r (s\<lparr>fs_sid := i\<rparr>) = reg_evolves r s" "replies (s\<lparr>fs_sid := i\<rparr>) = replies s"
  by (simp_all add: reg_evolves_def replies_def)

lemma reg_evolves_fins_mark_all [evolves]: "reg_evolves r s \<Longrightarrow> reg_evolves r (fins_mark_all io q s ms)"
  unfolding fins_mark_all_def by (rule foldl_invariant) (auto intro: evolves)

lemma fins_after_write_evolves [evolves]:
  "reg_evolves r s \<Longrightarrow> reg_evolves r (fins_after_write io sid payload s req m)"
  by (simp add: fins_after_write_def evolves split: sum.split)

lemma fins_handle_write_evolves:
  "reg_evolves r s \<Longrightarrow> ctl_all (reg_evolves r) (fins_handle_write io cr cfg s req)"
  by (auto simp: fins_handle_write_def fins_write_words_def next_sid_def Let_def evolves
      split: option.split sum.split dest!: exchange_evolves)

lemma decode_and_update_tag_evolves:
  "reg_evolves r s \<Longrightarrow> ctl_all (reg_evolves r) (decode_and_update_tag p io cr s m bytes)"
  by (auto simp: decode_and_update_tag_def Let_def evolves split: sum.split fins_decoded.split)

lemma fins_process_response_evolves:
  assumes "reg_evolves r s"
  shows "ctl_all (reg_evolves r) (fins_process_response p w io cr sid g payload s)"
proof -
  have "ctl_all (reg_evolves r) (fins_process_mapping p w io cr a b bytes s m)"
    "ctl_all (reg_evolves r) (fins_mark_short p io a b s m)" if "reg_evolves r s" for s a b bytes m
    using that by (auto simp: fins_process_mapping_def fins_mark_short_def short_payload_def evolves
        decode_and_update_tag_evolves split: option.split slice.split)
  then show ?thesis
    using assms unfolding fins_process_response_def
    by (auto simp: evolves split: sum.split option.split intro!: ctl_all_for_each)
qed

lemma fins_read_group_evolves:
  "reg_evolves r s \<Longrightarrow> ctl_all (reg_evolves r) (fins_read_group p w io cr cfg s g)"
  by (auto simp: fins_read_group_def next_sid_def Let_def split: option.split sum.split
      intro!: fins_process_response_evolves evolves dest!: exchange_evolves)

lemma fins_ensure_conn_evolves: "reg_evolves r s \<Longrightarrow> ctl_all (reg_evolves r) (fins_ensure_conn io cfg s)"
  by (auto simp: fins_ensure_conn_def fins_connect_with_backoff_def evolves split: option.split
      dest: reg_evolves_connect_loop)

lemma fins_cycle_evolves:
  "reg_evolves r s \<Longrightarrow> ctl_all (reg_evolves r) (fins_run_read_cycle_impl p w io cr cfg gs recvs s)"
  unfolding fins_run_read_cycle_impl_def fins_write_phase_def
  by (intro ctl_all_bind fins_ensure_conn_evolves drain_evolves fins_handle_write_evolves
      ctl_all_for_each fins_read_group_evolves)

interpretation fins: protocol_driver
  "fins_run_read_cycle_impl p warn_on io cr cfg gs" ds_registry
  for p warn_on io cr cfg gs
  using fins_cycle_evolves [of "ds_registry s" s for s]
  by unfold_locales (simp add: reg_evolves_def [abs_def])

section \<open>Replies and returns\<close>

lemma fins_handle_write_answers: "ctl_all (answered s req) (fins_handle_write io cr cfg s req)"
  by (auto simp: fins_handle_write_def fins_write_words_def fins_after_write_def next_sid_def Let_def
      answered_def reply_simps split: option.split sum.split dest!: exchange_frame(2))

lemma fins_handle_write_cases:
  "(\<exists>s'. fins_handle_write io cr cfg s req = Next s') \<or> fins_handle_write io cr cfg s req = Diverges"
  by (auto simp: fins_handle_write_def fins_write_words_def next_sid_def Let_def split: option.split sum.split)

interpretation fins_writes: write_handler "fins_handle_write io cr cfg"
  for io :: "'e fins_io" and cr cfg
proof
  show "ctl_all (answered s req) (fins_handle_write io cr cfg s req)" for s req
    by (rule fins_handle_write_answers)
  show "fins_handle_write io cr cfg s req \<noteq> Break s'" "fins_handle_write io cr cfg s req \<noteq> Panicked s'" for s req s'
    using fins_handle_write_cases [of io cr cfg s req] by auto
qed

definition health_events :: "('e, 'z) drv_state_scheme \<Rightarrow> drv_event list" where
  "health_events s = filter (\<lambda>ev. case ev of HealthSent _ \<Rightarrow> True | _ \<Rightarrow> False) (ds_out s)"

text \<open>Every statement of the cycle leaves the health events alone.\<close>

definition quiet :: "drv_event list \<Rightarrow> ('e, 'z) drv_state_scheme \<Rightarrow> bool" where
  "quiet hs s \<longleftrightarrow> health_events s = hs"

named_theorems quiet_intros \<open>statements that emit no health event\<close>

lemma quiet_frame [quiet_intros]:
  "quiet hs s \<Longrightarrow> quiet hs (s\<lparr>ds_conn := c\<rparr>)" "quiet hs s \<Longrightarrow> quiet hs (s\<lparr>ds_env := e\<rparr>)"
  "quiet hs s \<Longrightarrow> quiet hs (drv_quality clock s tid q)" "quiet hs s \<Longrightarrow> quiet hs (drv_value clock s tid v q)"
  "quiet hs s \<Longrightarrow> quiet hs (drv_reply s req res)"
  by (simp_all add: quiet_def health_events_def drv_quality_def drv_value_def drv_reply_def drv_emit_def
      case_prod_beta split: option.split)

lemma quiet_sid [simp]: "quiet hs (s\<lparr>fs_sid := i\<rparr>) = quiet hs s"
  by (simp add: quiet_def health_events_def)

lemma quiet_connect_loop:
  assumes "connect_loop connect mx b s = Some s'" and "quiet hs s"
  shows "quiet hs s'"
proof -
  obtain ts where "ds_out s' = ds_out s @ map Slept ts" using connect_loop_frame [OF assms(1)] by blast
  then show ?thesis using assms(2) by (simp add: quiet_def health_events_def filter_map comp_def)
qed

lemma quiet_exchange:
  assumes "exchange io cr cfg msg s = Some (x, s')" and "quiet hs s"
  shows "quiet hs s'"
proof -
  obtain s1 where s1: "(if ds_conn s then Some (s\<lparr>ds_conn := False\<rparr>)
      else fins_connect_with_backoff io cfg (s\<lparr>ds_conn := False\<rparr>)) = Some s1"
    and t: "transact io cr msg s1 = Some (x, s')"
    using assms by (auto simp: exchange_def Let_def split: option.splits)
  have "quiet hs s1"
    using s1 assms(2) by (auto simp: fins_connect_with_backoff_def split: if_splits
        intro: quiet_intros quiet_connect_loop)
  then show ?thesis using t
    by (auto simp: transact_def intro: quiet_intros split: option.splits prod.splits sum.splits
        dest!: on_stream_Some)
qed

lemma quiet_fins_mark_all [quiet_intros]: "quiet hs s \<Longrightarrow> quiet hs (fins_mark_all io q s ms)"
  unfolding fins_mark_all_def by (rule foldl_invariant) (auto intro: quiet_intros)

lemma quiet_handle_write:
  "quiet hs s \<Longrightarrow> ctl_all (quiet hs) (fins_handle_write io cr cfg s req)"
  by (auto simp: fins_handle_write_def fins_write_words_def fins_after_write_def next_sid_def Let_def
      quiet_intros split: option.split sum.split dest!: quiet_exchange)

lemma quiet_process_response:
  assumes "quiet hs s"
  shows "ctl_all (quiet hs) (fins_process_response p w io cr sid g payload s)"
proof -
  have "ctl_all (quiet hs) (fins_process_mapping p w io cr a b bytes s m)"
    "ctl_all (quiet hs) (fins_mark_short p io a b s m)" if "quiet hs s" for s a b bytes m
    using that by (auto simp: fins_process_mapping_def fins_mark_short_def short_payload_def
        decode_and_update_tag_def Let_def quiet_intros split: option.split slice.split sum.split fins_decoded.split)
  then show ?thesis
    using assms unfolding fins_process_response_def
    by (auto simp: quiet_intros split: sum.split option.split intro!: ctl_all_for_each)
qed

lemma quiet_cycle:
  assumes "quiet hs s"
  shows "ctl_all (quiet hs) (fins_run_read_cycle_impl p w io cr cfg gs recvs s)"
proof -
  have "ctl_all (quiet hs) (fins_read_group p w io cr cfg s g)" if "quiet hs s" for s g
    using that by (auto simp: fins_read_group_def next_sid_def Let_def split: option.split sum.split
        intro!: quiet_process_response quiet_intros dest!: quiet_exchange)
  moreover have "ctl_all (quiet hs) (fins_ensure_conn io cfg s)" if "quiet hs s" for s
    using that by (auto simp: fins_ensure_conn_def fins_connect_with_backoff_def quiet_intros
        split: option.split dest: quiet_connect_loop)
  moreover have "ctl_all (quiet hs) (fins_write_phase io cr cfg s recvs)" if "quiet hs s" for s
    unfolding fins_write_phase_def drain_def using that
    by (intro ctl_all_for_each) (auto intro: quiet_handle_write split: try_recv.split)
  ultimately show ?thesis
    using assms unfolding fins_run_read_cycle_impl_def by (intro ctl_all_bind ctl_all_for_each)
qed

lemma no_break_for_each [simp]: "for_each body s xs \<noteq> Break s'"
  by (induction xs arbitrary: s) (auto split: ctl.splits)

lemma fins_no_return: "ctl_ret R (fins_run_read_cycle_impl p w io cr cfg gs recvs s)"
proof -
  have "ctl_ret R (fins_process_mapping p w io cr a b bytes s m)" "ctl_ret R (fins_mark_short p io a b s m)"
    for s a b bytes m
    by (auto simp: fins_process_mapping_def fins_mark_short_def decode_and_update_tag_def Let_def
        split: option.split slice.split sum.split fins_decoded.split)
  then have "ctl_ret R (fins_process_response p w io cr sid g payload s)" for sid g payload s
    by (auto simp: fins_process_response_def split: sum.split option.split intro!: ctl_ret_for_each)
  then have "ctl_ret R (fins_read_group p w io cr cfg s g)" for s g
    by (auto simp: fins_read_group_def next_sid_def Let_def split: option.split sum.split)
  moreover have "ctl_ret R (fins_write_phase io cr cfg s recvs)" for s
    unfolding fins_write_phase_def
    by (rule drain_ret) (use fins_handle_write_cases in \<open>metis ctl_ret.simps(2,5)\<close>)
  moreover have "ctl_ret R (fins_ensure_conn io cfg s)" for s
    by (auto simp: fins_ensure_conn_def split: option.split)
  ultimately show ?thesis
    unfolding fins_run_read_cycle_impl_def by (intro ctl_ret_bind ctl_ret_for_each)
qed

section \<open>Marking the tags of a group\<close>

lemma tag_set_quality_again [simp]:
  "tag_set_quality now (tag_set_quality now' t q') q = tag_set_quality now t q"
  by (simp add: tag_set_quality_def)

lemma fins_mark_all_map:
  assumes "store_wf (reg_tags (ds_registry s))"
  shows "reg_map (ds_registry (fins_mark_all io q s ms)) tid = reg_map (ds_registry s) tid
    \<or> tid \<in> tm_tag_id ` set ms" (is ?other)
    and "tid \<in> tm_tag_id ` set ms \<Longrightarrow> reg_map (ds_registry s) tid = Some t \<Longrightarrow>
      \<exists>now. reg_map (ds_registry (fins_mark_all io q s ms)) tid = Some (tag_set_quality now t q)"
proof -
  have step: "fins_mark_all io q s (ms @ [m]) = drv_quality (fio_now io) (fins_mark_all io q s ms) (tm_tag_id m) q" for ms m
    by (simp add: fins_mark_all_def)
  have wf: "store_wf (reg_tags (ds_registry (fins_mark_all io q s ms)))" for ms
    by (induction ms rule: rev_induct) (use assms in \<open>simp_all add: step, simp add: fins_mark_all_def\<close>)
  have "(tid \<notin> tm_tag_id ` set ms \<longrightarrow> reg_map (ds_registry (fins_mark_all io q s ms)) tid = reg_map (ds_registry s) tid)
    \<and> (\<forall>t. tid \<in> tm_tag_id ` set ms \<longrightarrow> reg_map (ds_registry s) tid = Some t \<longrightarrow>
      (\<exists>now. reg_map (ds_registry (fins_mark_all io q s ms)) tid = Some (tag_set_quality now t q)))"
  proof (induction ms rule: rev_induct)
    case Nil
    then show ?case by (simp add: fins_mark_all_def)
  next
    case (snoc m ms)
    then show ?case
      by (cases "tid \<in> tm_tag_id ` set ms")
        (auto simp: step reg_map_upd_qual [OF wf] split: option.split, blast)
  qed
  then show ?other
    and "tid \<in> tm_tag_id ` set ms \<Longrightarrow> reg_map (ds_registry s) tid = Some t \<Longrightarrow>
      \<exists>now. reg_map (ds_registry (fins_mark_all io q s ms)) tid = Some (tag_set_quality now t q)"
    by auto
qed

section \<open>A device for evaluation\<close>

text \<open>A PLC that reads requests by their layout and answers them from its memory; writes are acknowledged
  and forgotten.  The environment is a clock and the bytes not yet read from the stream.\<close>

definition plc_frame :: "(u8 \<Rightarrow> nat \<Rightarrow> u16) \<Rightarrow> fins_request \<Rightarrow> u8 list" where
  "plc_frame mem rq =
     [0xC0, 0, 2, 0, 0, 0, 0, 0, 0, rq_sid rq, fst (rq_command rq), snd (rq_command rq), 0, 0]
     @ (if rq_command rq = (1, 1)
        then registers_to_bytes (map (mem (rq_area rq)) [rq_address rq..<rq_address rq + rq_count rq])
        else [])"

definition plc_header :: "u8 list \<Rightarrow> u8 list" where
  "plc_header frame =
     (let n = (word_of_nat (length frame) :: u32)
      in as_bytes ''FINS'' @ [ucast (drop_bit 24 n), ucast (drop_bit 16 n), ucast (drop_bit 8 n), ucast n])"

definition plc_answer :: "(u8 \<Rightarrow> nat \<Rightarrow> u16) \<Rightarrow> u8 list \<Rightarrow> u8 list" where
  "plc_answer mem msg =
     (case unwrap_message msg of
        None \<Rightarrow> []
      | Some frame \<Rightarrow>
          (case parse_request frame of
             None \<Rightarrow> []
           | Some rq \<Rightarrow> plc_header (plc_frame mem rq) @ plc_frame mem rq))"

definition example_fins_io :: "(u8 \<Rightarrow> nat \<Rightarrow> u16) \<Rightarrow> (nat \<times> u8 list) fins_io" where
  "example_fins_io mem =
     \<lparr>fio_connect = (\<lambda>e. (True, e)),
      fio_write_all = (\<lambda>msg (n, buf). (IoOk (), (n, plc_answer mem msg))),
      fio_read_exact = (\<lambda>k (n, buf). if length buf < k then (IoErr ''early eof'', (n, []))
        else (IoOk (take k buf), (n, drop k buf))),
      fio_now = (\<lambda>(n, buf). (int n, (Suc n, buf)))\<rparr>"

definition example_fins_state :: "(nat \<times> u8 list) fins_state" where
  "example_fins_state = \<lparr>ds_registry = example_registry, ds_conn = True, ds_health = True, ds_env = (0, []),
     ds_out = [], fs_sid = 1\<rparr>"

definition example_fins_config_a :: FinsConfig where
  "example_fins_config_a = FinsConfig_new ''omron'' ''10.0.0.2:9600'' 500
     [TagMapping_new ''a'' 0x82 100 0 1 True BADC TUInt16]"

definition example_group :: ReadGroup where
  "example_group = \<lparr>rg_area = 0x82, rg_start_address = 100, rg_word_count = 1,
     rg_mappings = fc_mappings example_fins_config_a\<rparr>"

section \<open>Properties\<close>

text \<open>However many cycles the FINS driver runs, on whatever stream behaviour, queue contents,
  configuration, groups and build profile, and however each cycle ends, every defined tag is still
  there with a value of its configured type, and the definitions are unchanged.\<close>

lemma fins_cycles_keep_registry_typed:
  assumes "from_definitions clk defs = Inr (ds_registry s)" and "d \<in> set defs"
  shows "\<exists>t. get_tag (ds_registry (run_cycles (fins_run_read_cycle_impl p warn_on io cr cfg gs) inputs s)) (td_id d)
      = Inr t \<and> data_type (tag_value t) = td_data_type d
    \<and> get_definition (ds_registry (run_cycles (fins_run_read_cycle_impl p warn_on io cr cfg gs) inputs s)) (td_id d)
      = Inr d"
proof -
  have wf: "reg_wf (ds_registry s)" using assms(1) by (rule from_definitions_wf)
  have d: "reg_def (ds_registry s) (td_id d) = Some d" using from_definitions_tag(1) [OF assms] .
  show ?thesis
    using fins.run_cycles_typed [OF wf d, of p warn_on io cr cfg gs inputs]
      fins.run_cycles_wf(2) [OF wf, of p warn_on io cr cfg gs inputs] d
    by (auto simp: get_tag_map get_definition_def_map reg_def_def)
qed

lemma fins_cycles_keep_registry_typed_witness:
  "\<exists>t. get_tag (ds_registry (run_cycles
      (fins_run_read_cycle_impl Debug True (example_fins_io (\<lambda>_ n. of_nat n)) example_crates
        example_fins_config_a [example_group]) [[], [RecvEmpty]] example_fins_state)) ''a'' = Inr t
    \<and> data_type (tag_value t) = TUInt16"
proof -
  have "from_definitions (\<lambda>_. 1) [example_definition] = Inr (ds_registry example_fins_state)"
    by (simp add: example_registry_eq example_fins_state_def)
  from fins_cycles_keep_registry_typed [OF this, of example_definition] show ?thesis
    unfolding example_definition_sel list.set by blast
qed

text \<open>C12: The FINS write phase answers every request it takes from the queue, each exactly once and in
  order, whatever happens on the stream; it never panics and never ends the cycle.\<close>

theorem fins_write_phase_replies:
  "case fins_write_phase io cr cfg s recvs of
     Next s' \<Rightarrow> map fst (replies s') = map fst (replies s) @ reply_ids (drained (take 64 recvs))
   | Diverges \<Rightarrow> True
   | _ \<Rightarrow> False"
proof -
  have "ctl_ret (\<lambda>_ _. False) (fins_write_phase io cr cfg s recvs)"
    unfolding fins_write_phase_def
    by (rule drain_ret) (use fins_handle_write_cases in \<open>metis ctl_ret.simps(2,5)\<close>)
  then show ?thesis
    using fins_writes.drain_answers [of s recvs io cr cfg]
    unfolding answers_prefix_def fins_write_phase_def by (auto split: ctl.splits)
qed

text \<open>A FINS cycle never returns an error and never emits a health event, whatever the device does:
  I/O errors, error codes and malformed responses only show as tag qualities.  The poll loop therefore
  sees every cycle that comes back as a success and never backs off.\<close>

lemma fins_cycle_swallows_errors:
  "case fins_run_read_cycle_impl p warn_on io cr cfg gs recvs s of
     Next s' \<Rightarrow> health_events s' = health_events s
   | Panicked s' \<Rightarrow> health_events s' = health_events s
   | Diverges \<Rightarrow> True
   | _ \<Rightarrow> False"
proof -
  let ?c = "fins_run_read_cycle_impl p warn_on io cr cfg gs recvs s"
  have "ctl_all (quiet (health_events s)) ?c" by (rule quiet_cycle) (simp add: quiet_def)
  moreover have "ctl_ret (\<lambda>_ _. False) ?c" by (rule fins_no_return)
  moreover have "?c \<noteq> Break s'" for s'
  proof -
    have "ctl_bind (fins_write_phase io cr cfg s recvs) (\<lambda>s. for_each (fins_read_group p warn_on io cr cfg) s gs) \<noteq> Break s'" for s
      by (cases "fins_write_phase io cr cfg s recvs") (auto simp: fins_write_phase_def drain_def)
    then show ?thesis
      unfolding fins_run_read_cycle_impl_def
      by (cases "fins_ensure_conn io cfg s") (auto simp: fins_ensure_conn_def split: if_splits option.splits)
  qed
  ultimately show ?thesis by (cases ?c) (auto simp: quiet_def)
qed

text \<open>C39: When the stream fails during the request for a read group, the cycle still succeeds, the stream is
  dropped, and exactly the tags of that group lose their quality: they keep their value and become
  \<open>CommLost\<close>.  The groups after it are neither read nor marked, so their tags keep the value and the
  quality, \<open>Good\<close> included, of an earlier cycle.\<close>

theorem fins_io_error_marks_one_group:
  assumes "store_wf (reg_tags (ds_registry s))" and "ds_conn s"
    and "exchange io cr cfg (wrap_fins_tcp cr (build_fins_frame (fs_sid s) (0x01, 0x01)
      (build_memory_read cr (rg_area g) (rg_start_address g) 0 (rg_word_count g)))) (s\<lparr>fs_sid := fs_sid s + 1\<rparr>)
      = Some (Inl msg, s1)"
  shows "\<exists>s'. fins_run_read_cycle_impl p warn_on io cr cfg (g # later) [] s = Next s' \<and> \<not> ds_conn s'
    \<and> (\<forall>tid t. reg_map (ds_registry s) tid = Some t \<longrightarrow>
        (if tid \<in> tm_tag_id ` set (rg_mappings g)
         then \<exists>now. reg_map (ds_registry s') tid = Some (tag_set_quality now t CommLost)
         else reg_map (ds_registry s') tid = Some t))"
proof -
  let ?s' = "fins_mark_all io CommLost s1 (rg_mappings g)"
  have reg: "ds_registry s1 = ds_registry s" and conn: "\<not> ds_conn s1"
    using exchange_frame [OF assms(3)] by simp_all
  have "ds_conn ?s' = ds_conn s1"
    unfolding fins_mark_all_def by (rule foldl_invariant [where I = "\<lambda>s. ds_conn s = ds_conn s1"]) auto
  moreover have "fins_run_read_cycle_impl p warn_on io cr cfg (g # later) [] s = Next ?s'"
    using assms(2,3) by (simp add: fins_run_read_cycle_impl_def fins_ensure_conn_def fins_write_phase_def
        drain_def fins_read_group_def next_sid_def)
  moreover have "if tid \<in> tm_tag_id ` set (rg_mappings g)
         then \<exists>now. reg_map (ds_registry ?s') tid = Some (tag_set_quality now t CommLost)
         else reg_map (ds_registry ?s') tid = Some t" if "reg_map (ds_registry s) tid = Some t" for tid t
    using fins_mark_all_map [where s = s1 and io = io and q = CommLost and ms = "rg_mappings g" and tid = tid]
      assms(1) that unfolding reg by auto
  ultimately show ?thesis using conn by blast
qed

definition dead_fins_io :: "nat fins_io" where
  "dead_fins_io = \<lparr>fio_connect = (\<lambda>e. (True, e)), fio_write_all = (\<lambda>_ e. (IoErr ''Broken pipe'', e)),
     fio_read_exact = (\<lambda>_ e. (IoHang, e)), fio_now = (\<lambda>e. (int e, Suc e))\<rparr>"

theorem fins_io_error_marks_one_group_witness:
  "\<exists>s' now. fins_run_read_cycle_impl Debug True dead_fins_io example_crates example_fins_config_a
      [example_group, example_group]
      [] \<lparr>ds_registry = example_registry, ds_conn = True, ds_health = True, ds_env = 0, ds_out = [], fs_sid = 255\<rparr>
    = Next s' \<and> reg_map (ds_registry s') ''a'' = Some (tag_set_quality now (Tag_new 1 (VUInt16 0)) CommLost)"
proof -
  let ?s = "\<lparr>ds_registry = example_registry, ds_conn = True, ds_health = True, ds_env = 0, ds_out = [], fs_sid = 255\<rparr>
    :: nat fins_state"
  have wf: "store_wf (reg_tags (ds_registry ?s))" using example_registry_wf by (simp add: reg_wf_def)
  have ex: "exchange dead_fins_io example_crates example_fins_config_a msg (?s\<lparr>fs_sid := fs_sid ?s + 1\<rparr>)
      = Some (Inl ''Broken pipe'', (?s\<lparr>fs_sid := fs_sid ?s + 1\<rparr>)\<lparr>ds_conn := False\<rparr>)" for msg
    by (simp add: exchange_def transact_def on_stream_def dead_fins_io_def)
  have t: "reg_map (ds_registry ?s) ''a'' = Some (Tag_new 1 (VUInt16 0))"
    by (simp add: reg_map_def store_map_def example_registry_def)
  have g: "''a'' \<in> tm_tag_id ` set (rg_mappings example_group)"
    by (simp add: example_group_def example_fins_config_a_def FinsConfig_new_def TagMapping_new_def)
  show ?thesis
    using fins_io_error_marks_one_group [OF wf _ ex, of Debug True example_group "[example_group]"] t g by fastforce
qed

end
