(* ===== verification/Fins_Read.thy ===== *)
theory Fins_Read
  imports Fins_Cycle
begin

text \<open>
  The FINS driver against a PLC that answers.  The PLC is known only by how it reads messages: it finds
  the request by the layout of the message and answers a memory read with its memory.  Shown: an
  acknowledged write, and a whole cycle, which publishes for every mapping the value that decodes from
  the PLC's own words.
\<close>

section \<open>Acknowledged writes\<close>

text \<open>A write to a writable mapping sends a memory write with the value's words in the mapping's byte order.
  When the peer acknowledges it, the caller gets \<open>Ok\<close>, the stream stays in use, and the value is
  published with quality \<open>Good\<close> when it has the tag's configured type; when it has another type the PLC
  was written and \<open>Ok\<close> answered, but the registry keeps the old value.\<close>

lemma fins_accepted_write_effect:
  assumes "store_wf (reg_tags (ds_registry s))"
    and "find_first (\<lambda>m. tm_tag_id m = wr_tag_id req) (fc_mappings cfg) = Some m" and "tm_writable m"
    and "tagvalue_to_words_standard cr (wr_value req) = Inr words"
    and "exchange io cr cfg (wrap_fins_tcp cr (build_fins_frame (fs_sid s) (0x01, 0x02)
        (build_memory_write cr (tm_area m) (tm_address m) (tm_bit_offset m)
          (ordered_write_words cr (tm_byte_order m) words)))) (s\<lparr>fs_sid := fs_sid s + 1\<rparr>) = Some (Inr payload, s1)"
    and "parse_fins_response payload = Inr (fs_sid s, 0, data)"
    and "reg_def (ds_registry s) (wr_tag_id req) = Some d"
    and "reg_map (ds_registry s) (wr_tag_id req) = Some t"
  shows "\<exists>s' t'. fins_handle_write io cr cfg s req = Next s' \<and> ds_conn s'
    \<and> replies s' = replies s @ reply_to req (Inr ())
    \<and> reg_map (ds_registry s') = (reg_map (ds_registry s))(wr_tag_id req \<mapsto> t')
    \<and> (if data_type (wr_value req) = td_data_type d
       then tag_value t' = wr_value req \<and> tag_quality t' = Good else t' = t)"
proof -
  have tid: "tm_tag_id m = wr_tag_id req" using find_first_Some(2) [OF assms(2)] by simp
  note ex = exchange_frame [OF assms(5)]
  let ?s' = "drv_reply (drv_value (fio_now io) s1 (wr_tag_id req) (wr_value req) Good) req (Inr ())"
  have hw: "fins_handle_write io cr cfg s req = Next ?s'"
    using assms(2-6) tid
    by (simp add: fins_handle_write_def fins_write_words_def next_sid_def Let_def fins_after_write_def
        ordered_write_words_def)
  obtain now ts where reg: "ds_registry ?s' = upd_val now (ds_registry s) (wr_tag_id req) (wr_value req) Good ts"
    using ex(1) by simp
  let ?t' = "if data_type (wr_value req) = td_data_type d then apply_read now t (wr_value req) Good ts else t"
  have "reg_map (ds_registry ?s') = (reg_map (ds_registry s))(wr_tag_id req \<mapsto> ?t')"
    unfolding reg reg_map_upd_val [OF assms(1)] using assms(7,8) by (auto simp: fun_eq_iff)
  moreover have "replies ?s' = replies s @ reply_to req (Inr ())" using ex(2) by (simp add: reply_simps)
  moreover have "ds_conn ?s'" using ex(3) by simp
  ultimately show ?thesis
    unfolding hw by (intro exI [of _ ?s'] exI [of _ ?t']) (simp add: apply_read_def)
qed

section \<open>A PLC that answers\<close>

text \<open>The PLC answers every well-formed message, byte for byte on the stream, from a memory that does not
  change meanwhile.\<close>

definition plc_replies :: "'e fins_io \<Rightarrow> (u8 \<Rightarrow> nat \<Rightarrow> u16) \<Rightarrow> bool" where
  "plc_replies io mem \<longleftrightarrow>
     (\<forall>msg rq e. Option.bind (unwrap_message msg) parse_request = Some rq \<longrightarrow>
        (\<exists>e1 e2 e3. fio_write_all io msg e = (IoOk (), e1)
          \<and> fio_read_exact io 8 e1 = (IoOk (plc_header (plc_frame mem rq)), e2)
          \<and> fio_read_exact io (length (plc_frame mem rq)) e2 = (IoOk (plc_frame mem rq), e3)))"

lemma be32_bytes:
  "be32 (be16 (ucast (drop_bit 24 n)) (ucast (drop_bit 16 n))) (be16 (ucast (drop_bit 8 n)) (ucast (n :: u32))) = n"
  unfolding be32_def be16_def
proof (rule bit_word_eqI)
  fix k assume "k < LENGTH(32)"
  then show "bit (push_bit 16 (ucast (push_bit 8 (ucast (ucast (drop_bit 24 n) :: u8)) OR
      ucast (ucast (drop_bit 16 n) :: u8) :: u16)) OR
    ucast (push_bit 8 (ucast (ucast (drop_bit 8 n) :: u8)) OR ucast (ucast n :: u8) :: u16) :: u32) k = bit n k"
    by (cases "k < 16"; cases "k < 24") (auto simp: bit_simps)
qed

lemma payload_len_header:
  assumes "byteorder_laws cr" and "length frame < 2 ^ 32"
  shows "payload_len cr (plc_header frame) = length frame"
proof -
  define n :: u32 where "n = word_of_nat (length frame)"
  have "payload_len cr (plc_header frame) = unat n"
    by (simp add: payload_len_def plc_header_def Let_def as_bytes_def byteorder_laws_simps [OF assms(1)]
        be32_bytes flip: n_def)
  also have "\<dots> = length frame"
    using assms(2) by (simp add: n_def unsigned_of_nat take_bit_nat_eq_self_iff)
  finally show ?thesis .
qed

lemma exchange_answered:
  assumes "plc_replies io mem" and "byteorder_laws cr" and "ds_conn s"
    and "Option.bind (unwrap_message msg) parse_request = Some rq" and "rq_count rq < 2 ^ 16"
  shows "\<exists>e. exchange io cr cfg msg s = Some (Inr (plc_frame mem rq), s\<lparr>ds_env := e\<rparr>)"
proof -
  let ?f = "plc_frame mem rq"
  obtain e1 e2 e3 where io: "fio_write_all io msg (ds_env s) = (IoOk (), e1)"
    "fio_read_exact io 8 e1 = (IoOk (plc_header ?f), e2)" "fio_read_exact io (length ?f) e2 = (IoOk ?f, e3)"
    using assms(1,4) unfolding plc_replies_def by blast
  have "length ?f < 2 ^ 32" using assms(5) by (simp add: plc_frame_def)
  then have "payload_len cr (plc_header ?f) = length ?f" by (rule payload_len_header [OF assms(2)])
  then have "exchange io cr cfg msg s = Some (Inr ?f, s\<lparr>ds_conn := False, ds_env := e3, ds_conn := True\<rparr>)"
    using assms(3) io by (simp add: exchange_def transact_def on_stream_def)
  moreover have "s\<lparr>ds_conn := False, ds_env := e3, ds_conn := True\<rparr> = s\<lparr>ds_env := e3\<rparr>"
    using assms(3) by simp
  ultimately show ?thesis by metis
qed

section \<open>One mapping\<close>

definition fins_device_value ::
  "profile \<Rightarrow> crates \<Rightarrow> (u8 \<Rightarrow> nat \<Rightarrow> u16) \<Rightarrow> TagMapping \<Rightarrow> TagValue option" where
  "fins_device_value p cr mem m =
     (case fins_decode p cr (tm_data_type m) (tm_bit_offset m)
        (apply_byte_order (registers_to_bytes (map (mem (tm_area m))
          [unat (tm_address m)..<unat (tm_address m) + unat (tm_word_count m)])) (tm_byte_order m)) of
        FDecoded v \<Rightarrow> Some v
      | _ \<Rightarrow> None)"

text \<open>A mapping that the driver can serve: within the 24-bit address field, over a tag of its type, and
  with words that decode.\<close>

definition fins_readable :: "profile \<Rightarrow> crates \<Rightarrow> (u8 \<Rightarrow> nat \<Rightarrow> u16) \<Rightarrow> TagRegistry \<Rightarrow> TagMapping \<Rightarrow> bool" where
  "fins_readable p cr mem r m \<longleftrightarrow>
     usable m \<and> unat (tm_address m) + unat (tm_word_count m) \<le> 2 ^ 24
     \<and> fins_device_value p cr mem m \<noteq> None
     \<and> (case reg_def r (tm_tag_id m) of None \<Rightarrow> False | Some d \<Rightarrow> td_data_type d = tm_data_type m)"

abbreviation fins_shown where
  "fins_shown p cr mem r \<equiv> publishes (reg_definitions r) tm_tag_id (fins_device_value p cr mem)"

lemma fins_decode_type: "fins_decode p cr dt b bytes = FDecoded v \<Longrightarrow> data_type v = dt"
  by (cases dt) (auto simp: fins_decode_def decode_fixed_def Let_def split: if_splits option.splits)

lemma last_word_exact:
  assumes "0 < unat n" and "unat start + unat n < 2 ^ 32"
  shows "\<exists>e. last_word p start n = Some e \<and> unat e = unat start + unat n - 1"
proof -
  have "unat (start + ucast n) = unat start + unat n"
    using assms(2) by (simp add: unat_plus_exact unat_ucast_u16_u32)
  then show ?thesis
    using assms by (simp add: last_word_def panic_simps unat_ucast_u16_u32 unat_minus_exact)
qed

lemma fins_process_inside:
  assumes sh: "fins_shown p cr mem r U s M" and m: "fins_readable p cr mem r m" "m \<in> U"
    and inj: "inj_on tm_tag_id U"
    and g: "unat e = unat a + unat n - 1" "unat a + unat n < 2 ^ 32"
    and ins: "unat a \<le> unat (tm_address m)" "unat (tm_address m) + unat (tm_word_count m) \<le> unat a + unat n"
  shows "\<exists>s'. fins_process_mapping p w io cr a e
      (registers_to_bytes (map (mem (tm_area m)) [unat a..<unat a + unat n])) s m = Next s'
    \<and> fins_shown p cr mem r U s' (M \<union> {m})"
proof -
  let ?a = "unat (tm_address m)" and ?n = "unat (tm_word_count m)"
  have u: "0 < ?n" "?a + ?n < 2 ^ 32" using m(1) by (simp_all add: fins_readable_def usable_def fins_addressable_def)
  obtain E where E: "last_word p (tm_address m) (tm_word_count m) = Some E" "unat E = ?a + ?n - 1"
    using last_word_exact [OF u] by blast
  let ?raw = "registers_to_bytes (map (mem (tm_area m)) [unat a..<unat a + unat n])"
  let ?own = "registers_to_bytes (map (mem (tm_area m)) [?a..<?a + ?n])"
  have mx: "max ?a (unat a) = ?a" and mn: "min (?a + ?n - 1) (unat a + unat n - 1) + 1 - ?a = ?n"
    using u ins by auto
  have "take (2 * ?n) (drop (2 * (?a - unat a)) ?raw) = ?own"
    using ins by (simp add: drop_registers_to_bytes take_registers_to_bytes drop_map take_map)
  moreover have "\<not> 2 * (?a - unat a) + 2 * ?n > length ?raw" using ins by simp
  moreover have "\<not> (?a + ?n - 1 < unat a \<or> unat a + unat n - 1 < ?a)" using u ins by auto
  ultimately have sl: "overlap_slice p w a e ?raw (tm_address m) E = Slice ?own"
    using overlap_slice_nat [OF refl E(2) refl g(1), of "tm_address m" a p w ?raw] u ins g(2) unfolding mx mn
    by (simp add: Let_def)
  obtain v where v: "fins_device_value p cr mem m = Some v" using m(1) by (auto simp: fins_readable_def)
  then have dec: "fins_decode p cr (tm_data_type m) (tm_bit_offset m) (apply_byte_order ?own (tm_byte_order m)) = FDecoded v"
    by (simp add: fins_device_value_def split: fins_decoded.splits)
  obtain d where d: "reg_def (ds_registry s) (tm_tag_id m) = Some d" "td_data_type d = tm_data_type m"
    using sh m(1) by (auto simp: publishes_def over_def fins_readable_def reg_def_def split: option.splits)
  have "fins_process_mapping p w io cr a e ?raw s m = Next (drv_value (fio_now io) s (tm_tag_id m) v Good)"
    using d(1) dec by (simp add: fins_process_mapping_def E(1) sl decode_and_update_tag_def Let_def get_definition_def_map)
  moreover have "td_data_type d = data_type v" using d(2) fins_decode_type [OF dec] by simp
  ultimately show ?thesis using publishes_value [OF sh inj m(2) v d(1)] by blast
qed

lemma fins_process_outside:
  assumes "usable m" and "words_of m \<inter> {unat a..<unat a + unat n} = {}" and "0 < unat n"
    and "unat e = unat a + unat n - 1"
  shows "fins_process_mapping p w io cr a e raw s m = Next s"
proof -
  let ?a = "unat (tm_address m)" and ?n = "unat (tm_word_count m)"
  have u: "0 < ?n" "?a + ?n < 2 ^ 32" using assms(1) by (simp_all add: usable_def fins_addressable_def)
  obtain E where E: "last_word p (tm_address m) (tm_word_count m) = Some E" "unat E = ?a + ?n - 1"
    using last_word_exact [OF u] by blast
  have "?a + ?n \<le> unat a \<or> unat a + unat n \<le> ?a"
  proof (rule ccontr)
    assume "\<not> ?thesis"
    then have "max ?a (unat a) \<in> words_of m \<inter> {unat a..<unat a + unat n}"
      using assms(3) u by (auto simp: words_of_def)
    with assms(2) show False by blast
  qed
  then have "E < a \<or> tm_address m > e" using E(2) assms(3,4) u by (auto simp: word_less_nat_alt)
  then show ?thesis by (simp add: fins_process_mapping_def E(1) overlap_slice_def)
qed

section \<open>Groups\<close>

lemma parse_plc_frame:
  "rq_command rq = (1, 1) \<Longrightarrow> parse_fins_response (plc_frame mem rq) =
    Inr (rq_sid rq, 0, registers_to_bytes (map (mem (rq_area rq)) [rq_address rq..<rq_address rq + rq_count rq]))"
  by (simp add: plc_frame_def parse_fins_response_def be16_def)

text \<open>What holds between the groups of a cycle: the stream is in its slot, and the mappings of \<open>M\<close> are shown.\<close>

definition connected_and_shown ::
  "profile \<Rightarrow> crates \<Rightarrow> (u8 \<Rightarrow> nat \<Rightarrow> u16) \<Rightarrow> TagRegistry \<Rightarrow> TagMapping set \<Rightarrow> 'e fins_state \<Rightarrow> TagMapping set \<Rightarrow> bool" where
  "connected_and_shown p cr mem r U s M \<longleftrightarrow> ds_conn s \<and> fins_shown p cr mem r U s M"

definition group_served :: "profile \<Rightarrow> crates \<Rightarrow> (u8 \<Rightarrow> nat \<Rightarrow> u16) \<Rightarrow> TagRegistry \<Rightarrow> TagMapping set \<Rightarrow> ReadGroup \<Rightarrow> bool" where
  "group_served p cr mem r U g \<longleftrightarrow>
     0 < unat (rg_word_count g) \<and> unat (rg_start_address g) + unat (rg_word_count g) \<le> 2 ^ 24
     \<and> (\<forall>m \<in> set (rg_mappings g). m \<in> U \<and> fins_readable p cr mem r m \<and> tm_area m = rg_area g
         \<and> (words_of m \<subseteq> set (group_words g) \<or> words_of m \<inter> set (group_words g) = {}))"

lemma fins_process_one:
  assumes g: "group_served p cr mem r U g" and inj: "inj_on tm_tag_id U" and m: "m \<in> set (rg_mappings g)"
    and e: "unat e = unat (rg_start_address g) + unat (rg_word_count g) - 1"
    and sh: "connected_and_shown p cr mem r U s M"
  shows "\<exists>s'. fins_process_mapping p w io cr (rg_start_address g) e (registers_to_bytes (map (mem (rg_area g))
      [unat (rg_start_address g)..<unat (rg_start_address g) + unat (rg_word_count g)])) s m = Next s'
    \<and> connected_and_shown p cr mem r U s' (M \<union> (if words_of m \<subseteq> set (group_words g) then {m} else {}))"
proof -
  let ?a = "rg_start_address g" and ?n = "rg_word_count g"
  let ?raw = "registers_to_bytes (map (mem (rg_area g)) [unat ?a..<unat ?a + unat ?n])"
  have n: "0 < unat ?n" "unat ?a + unat ?n < 2 ^ 32" and m': "m \<in> U" "fins_readable p cr mem r m" "tm_area m = rg_area g"
    using g m by (auto simp: group_served_def)
  have gw: "set (group_words g) = {unat ?a..<unat ?a + unat ?n}" by (simp add: group_words_def request_words_def)
  have sh': "ds_conn s" "fins_shown p cr mem r U s M" using sh by (simp_all add: connected_and_shown_def)
  show ?thesis
  proof (cases "words_of m \<subseteq> set (group_words g)")
    case True
    have "unat ?a \<le> unat (tm_address m)" "unat (tm_address m) + unat (tm_word_count m) \<le> unat ?a + unat ?n"
      using interval_subset [of "unat (tm_address m)" "unat (tm_address m) + unat (tm_word_count m)"
          "unat ?a" "unat ?a + unat ?n"] True m'(2) unfolding gw words_of_def
      by (auto simp: fins_readable_def usable_def)
    from fins_process_inside [OF sh'(2) m'(2,1) inj e n(2) this, of w io] obtain s'
      where s': "fins_process_mapping p w io cr ?a e ?raw s m = Next s'" "fins_shown p cr mem r U s' (M \<union> {m})"
      unfolding m'(3) by blast
    have "ctl_all (\<lambda>s. ds_conn s) (fins_process_mapping p w io cr ?a e ?raw s m)"
      using sh'(1) by (auto simp: fins_process_mapping_def short_payload_def decode_and_update_tag_def Let_def
          split: option.split slice.split sum.split fins_decoded.split)
    then show ?thesis using s' True by (simp add: connected_and_shown_def)
  next
    case False
    then have "words_of m \<inter> {unat ?a..<unat ?a + unat ?n} = {}" using g m gw by (auto simp: group_served_def)
    then have "fins_process_mapping p w io cr ?a e ?raw s m = Next s"
      using m'(2) by (intro fins_process_outside [OF _ _ n(1) e]) (auto simp: fins_readable_def)
    then show ?thesis using sh False by simp
  qed
qed

lemma fins_read_group_ok:
  assumes plc: "plc_replies io mem" and laws: "byteorder_laws cr" and g: "group_served p cr mem r U g"
    and inj: "inj_on tm_tag_id U" and sh: "connected_and_shown p cr mem r U s M"
  shows "\<exists>s'. fins_read_group p w io cr cfg s g = Next s'
    \<and> connected_and_shown p cr mem r U s' (M \<union> {m \<in> set (rg_mappings g). words_of m \<subseteq> set (group_words g)})"
proof -
  let ?a = "rg_start_address g" and ?n = "rg_word_count g"
  let ?rq = "\<lparr>rq_sid = fs_sid s, rq_command = (0x01, 0x01), rq_area = rg_area g, rq_address = unat ?a,
    rq_bit = 0, rq_count = unat ?n, rq_data = []\<rparr>"
  let ?msg = "wrap_fins_tcp cr (build_fins_frame (fs_sid s) (0x01, 0x01)
    (build_memory_read cr (rg_area g) ?a 0 ?n))"
  let ?raw = "registers_to_bytes (map (mem (rg_area g)) [unat ?a..<unat ?a + unat ?n])"
  have n: "0 < unat ?n" "unat ?a + unat ?n \<le> 2 ^ 24" using g by (auto simp: group_served_def)
  have rq: "Option.bind (unwrap_message ?msg) parse_request = Some ?rq"
    using request_fields(1) [OF laws, of "[]" "fs_sid s" "rg_area g" ?a 0 ?n] n by simp
  have "unat ?n < 2 ^ 16" using unat_u16_less [of ?n] by simp
  then obtain e where ex: "exchange io cr cfg ?msg (s\<lparr>fs_sid := fs_sid s + 1\<rparr>)
      = Some (Inr (plc_frame mem ?rq), s\<lparr>fs_sid := fs_sid s + 1, ds_env := e\<rparr>)"
    using exchange_answered [OF plc laws _ rq, of "s\<lparr>fs_sid := fs_sid s + 1\<rparr>" cfg] sh
    by (auto simp: connected_and_shown_def)
  let ?s = "s\<lparr>fs_sid := fs_sid s + 1, ds_env := e\<rparr>"
  obtain l where l: "last_word p ?a ?n = Some l" "unat l = unat ?a + unat ?n - 1"
    using last_word_exact [of ?n ?a p] n by auto
  have "fins_read_group p w io cr cfg s g = for_each (fins_process_mapping p w io cr ?a l ?raw) ?s (rg_mappings g)"
    using ex l(1) by (simp add: fins_read_group_def next_sid_def fins_process_response_def parse_plc_frame)
  moreover have "connected_and_shown p cr mem r U ?s M"
    using sh by (simp add: connected_and_shown_def publishes_def over_def shows_tag_def)
  then have "\<exists>s'. for_each (fins_process_mapping p w io cr ?a l ?raw) ?s (rg_mappings g) = Next s'
    \<and> connected_and_shown p cr mem r U s' (M \<union> (\<Union>m \<in> set (rg_mappings g).
        if words_of m \<subseteq> set (group_words g) then {m} else {}))"
    by (intro for_each_collect) (use fins_process_one [OF g inj _ l(2)] in blast)
  moreover have "(\<Union>m \<in> set (rg_mappings g). if words_of m \<subseteq> set (group_words g) then {m} else {})
      = {m \<in> set (rg_mappings g). words_of m \<subseteq> set (group_words g)}" by auto
  ultimately show ?thesis by simp
qed

section \<open>A cycle\<close>

text \<open>No request boundary runs through a mapping.\<close>

definition fins_unsplit :: "ReadGroup list \<Rightarrow> bool" where
  "fins_unsplit gs =
     list_all (\<lambda>g. list_all (\<lambda>m. words_of m \<subseteq> set (group_words g) \<or> words_of m \<inter> set (group_words g) = {})
       (rg_mappings g)) gs"

lemma planned_groups:
  assumes "0 < unat (fc_max_words_per_request cfg)" and "unat (fc_max_words_per_request cfg) < 2 ^ 16"
    and gs: "FinsDriver_read_groups p cfg = Value gs" and "fins_unsplit gs"
    and ok: "\<forall>m \<in> set (fc_mappings cfg). fins_readable p cr mem r m"
  shows "g \<in> set gs \<Longrightarrow> group_served p cr mem r (set (fc_mappings cfg)) g"
    and "m \<in> set (fc_mappings cfg) \<Longrightarrow> \<exists>g \<in> set gs. m \<in> set (rg_mappings g) \<and> words_of m \<subseteq> set (group_words g)"
proof -
  let ?ms = "fc_mappings cfg" and ?mx = "fc_max_words_per_request cfg"
  have "list_all usable ?ms" using ok by (simp add: list_all_iff fins_readable_def)
  then have area: "rg_area ` set gs \<subseteq> tm_area ` set ?ms"
    and cov: "\<forall>a \<in> tm_area ` set ?ms. groups_cover ?mx a (sorted_area ?ms a) (filter (\<lambda>g. rg_area g = a) gs)"
    using read_groups_cover [OF _ assms(1,2), of p] gs by auto
  have sv: "serves ?mx (rg_area g) {m \<in> set ?ms. tm_area m = rg_area g} g" if "g \<in> set gs" for g
    using that area by (intro groups_cover_serves [OF cov]) auto
  have words: "set (concat (map group_words (filter (\<lambda>g. rg_area g = a) gs))) = \<Union> (words_of ` {m \<in> set ?ms. tm_area m = a})"
    if "a \<in> tm_area ` set ?ms" for a
  proof -
    have "groups_cover ?mx a (sorted_area ?ms a) (filter (\<lambda>g. rg_area g = a) gs)" using cov that by blast
    then show ?thesis unfolding groups_cover_def sorted_area_facts by blast
  qed
  show "group_served p cr mem r (set ?ms) g" if g: "g \<in> set gs" for g
  proof -
    let ?last = "unat (rg_start_address g) + unat (rg_word_count g) - 1"
    have pos: "0 < unat (rg_word_count g)" and sub: "set (rg_mappings g) \<subseteq> {m \<in> set ?ms. tm_area m = rg_area g}"
      using sv [OF g] by (simp_all add: serves_def)
    then have "?last \<in> set (group_words g)" by (auto simp: group_words_def request_words_def)
    then have "?last \<in> \<Union> (words_of ` {m \<in> set ?ms. tm_area m = rg_area g})"
      using words [of "rg_area g"] g area by auto
    then obtain m where "m \<in> set ?ms" "?last \<in> words_of m" by blast
    then have "?last < 2 ^ 24" using ok by (auto simp: words_of_def fins_readable_def)
    with pos sub ok assms(4) g show ?thesis by (auto simp: group_served_def fins_unsplit_def list_all_iff)
  qed
  show "\<exists>g \<in> set gs. m \<in> set (rg_mappings g) \<and> words_of m \<subseteq> set (group_words g)" if m: "m \<in> set ?ms" for m
  proof -
    have "unat (tm_address m) \<in> words_of m" using ok m by (auto simp: words_of_def fins_readable_def usable_def)
    moreover from this have "unat (tm_address m) \<in> set (concat (map group_words (filter (\<lambda>g. rg_area g = tm_area m) gs)))"
      using words [of "tm_area m"] m by blast
    then obtain g where g: "g \<in> set gs" "rg_area g = tm_area m" "unat (tm_address m) \<in> set (group_words g)" by auto
    ultimately have "m \<in> set (rg_mappings g)" using sv [OF g(1)] m by (auto simp: serves_def)
    with g \<open>unat (tm_address m) \<in> words_of m\<close> assms(4) show ?thesis by (fastforce simp: fins_unsplit_def list_all_iff)
  qed
qed


section \<open>Witnesses\<close>

lemma length_plc_header [simp]: "length (plc_header f) = 8"
  by (simp add: plc_header_def Let_def as_bytes_def)

lemma example_plc_replies: "plc_replies (example_fins_io mem) mem"
proof -
  have "\<exists>e1 e2 e3. fio_write_all (example_fins_io mem) msg e = (IoOk (), e1)
      \<and> fio_read_exact (example_fins_io mem) 8 e1 = (IoOk (plc_header (plc_frame mem rq)), e2)
      \<and> fio_read_exact (example_fins_io mem) (length (plc_frame mem rq)) e2 = (IoOk (plc_frame mem rq), e3)"
    if rq: "Option.bind (unwrap_message msg) parse_request = Some rq" for msg rq e
  proof -
    obtain n b where e: "e = (n, b)" by (cases e)
    have "plc_answer mem msg = plc_header (plc_frame mem rq) @ plc_frame mem rq"
      using rq by (auto simp: plc_answer_def bind_eq_Some_conv)
    then show ?thesis by (simp add: example_fins_io_def e)
  qed
  then show ?thesis unfolding plc_replies_def by blast
qed

lemma example_groups: "FinsDriver_read_groups Debug example_fins_config_a = Value [example_group]"
  by (simp add: FinsDriver_read_groups_def example_fins_config_a_def FinsConfig_new_def TagMapping_new_def
      example_group_def areas_of_def sorted_area_def by_area_def take_run_def add_ck_def sub_ck_def split_run_def
      split_loop.simps Let_def saturating_sub_def)


end
