(* ===== verification/Opcua_Config.thy ===== *)
theory Opcua_Config
  imports Rust_Std
begin

text \<open>
  \<open>src/opcua-server/src/config.rs\<close> and \<open>error.rs\<close>: the server's configuration with its validation, and
  the error type of the crate.  The validation parses the bind address with the standard library's
  socket address parser, which is modelled here as a recursive-descent parser that returns the rest
  of its input.
\<close>

section \<open>Socket addresses\<close>

datatype SocketAddr = SocketAddrV4 "nat list" nat | SocketAddrV6 "nat list" nat nat

type_synonym 'a reader = "string \<Rightarrow> ('a \<times> string) option"

text \<open>\<open>char::to_digit\<close>.\<close>

definition to_digit :: "nat \<Rightarrow> char \<Rightarrow> nat option" where
  "to_digit radix c =
     (let n = of_char c :: nat;
          d = (if 48 \<le> n \<and> n \<le> 57 then Some (n - 48)
               else if 97 \<le> n \<and> n \<le> 122 then Some (n - 87)
               else if 65 \<le> n \<and> n \<le> 90 then Some (n - 55) else None)
      in case d of None \<Rightarrow> None | Some k \<Rightarrow> if k < radix then Some k else None)"

definition radix_val :: "nat \<Rightarrow> string \<Rightarrow> nat" where
  "radix_val radix s = foldl (\<lambda>n c. radix * n + the (to_digit radix c)) 0 s"

text \<open>\<open>read_number\<close>: the longest run of digits, at most \<open>max_digits\<close> of them, whose value is below \<open>limit\<close>
  (the size of the integer type).\<close>

definition read_number :: "nat \<Rightarrow> nat option \<Rightarrow> bool \<Rightarrow> nat \<Rightarrow> nat reader" where
  "read_number radix max_digits allow_zero_prefix limit s =
     (let ds = takeWhile (\<lambda>c. to_digit radix c \<noteq> None) s
      in if ds = [] \<or> (case max_digits of None \<Rightarrow> False | Some m \<Rightarrow> m < length ds)
            \<or> limit \<le> radix_val radix ds
            \<or> \<not> allow_zero_prefix \<and> hd ds = CHR ''0'' \<and> 1 < length ds
         then None
         else Some (radix_val radix ds, drop (length ds) s))"

definition read_given_char :: "char \<Rightarrow> unit reader" where
  "read_given_char c s = (case s of [] \<Rightarrow> None | d # r \<Rightarrow> if d = c then Some ((), r) else None)"

text \<open>\<open>read_separator\<close>: the separator comes before every element but the first.\<close>

definition read_separator :: "char \<Rightarrow> nat \<Rightarrow> 'a reader \<Rightarrow> 'a reader" where
  "read_separator sep index inner s =
     (if 0 < index then
        (case read_given_char sep s of None \<Rightarrow> None | Some (_, r) \<Rightarrow> inner r)
      else inner s)"

fun read_octets :: "nat \<Rightarrow> nat \<Rightarrow> nat list reader" where
  "read_octets i 0 s = Some ([], s)"
| "read_octets i (Suc n) s =
     (case read_separator CHR ''.'' i (read_number 10 (Some 3) False 256) s of
        None \<Rightarrow> None
      | Some (o1, r) \<Rightarrow>
          (case read_octets (Suc i) n r of None \<Rightarrow> None | Some (os, r') \<Rightarrow> Some (o1 # os, r')))"

definition read_ipv4_addr :: "nat list reader" where
  "read_ipv4_addr s = read_octets 0 4 s"

text \<open>\<open>read_groups\<close> of an IPv6 address: the groups read, whether an IPv4 address ended them, and the
  rest of the input.  \<open>n\<close> groups are left to read.\<close>

fun read_groups :: "nat \<Rightarrow> nat \<Rightarrow> string \<Rightarrow> nat list \<times> bool \<times> string" where
  "read_groups i 0 s = ([], False, s)"
| "read_groups i (Suc n) s =
     (case (if 0 < n then read_separator CHR '':'' i read_ipv4_addr s else None) of
        Some (os, r) \<Rightarrow> ([256 * os ! 0 + os ! 1, 256 * os ! 2 + os ! 3], True, r)
      | None \<Rightarrow>
          (case read_separator CHR '':'' i (read_number 16 (Some 4) True 65536) s of
             None \<Rightarrow> ([], False, s)
           | Some (g, r) \<Rightarrow> let (gs, v4, r') = read_groups (Suc i) n r in (g # gs, v4, r')))"

definition read_ipv6_addr :: "nat list reader" where
  "read_ipv6_addr s =
     (let (front, front_ipv4, r) = read_groups 0 8 s
      in if length front = 8 then Some (front, r)
         else if front_ipv4 then None
         else case read_given_char CHR '':'' r of
             None \<Rightarrow> None
           | Some (_, r1) \<Rightarrow>
               (case read_given_char CHR '':'' r1 of
                  None \<Rightarrow> None
                | Some (_, r2) \<Rightarrow>
                    let (back, _, r3) = read_groups 0 (8 - (length front + 1)) r2
                    in Some (front @ replicate (8 - length front - length back) 0 @ back, r3)))"

definition read_port :: "nat reader" where
  "read_port s =
     (case read_given_char CHR '':'' s of None \<Rightarrow> None | Some (_, r) \<Rightarrow> read_number 10 None True 65536 r)"

definition read_scope_id :: "nat reader" where
  "read_scope_id s =
     (case read_given_char CHR ''%'' s of None \<Rightarrow> None | Some (_, r) \<Rightarrow> read_number 10 None True (2 ^ 32) r)"

definition read_socket_addr_v4 :: "SocketAddr reader" where
  "read_socket_addr_v4 s =
     (case read_ipv4_addr s of
        None \<Rightarrow> None
      | Some (ip, r) \<Rightarrow>
          (case read_port r of None \<Rightarrow> None | Some (port, r') \<Rightarrow> Some (SocketAddrV4 ip port, r')))"

definition read_socket_addr_v6 :: "SocketAddr reader" where
  "read_socket_addr_v6 s =
     (case read_given_char CHR ''['' s of
        None \<Rightarrow> None
      | Some (_, r) \<Rightarrow>
          (case read_ipv6_addr r of
             None \<Rightarrow> None
           | Some (ip, r1) \<Rightarrow>
               let (scope_id, r2) = (case read_scope_id r1 of None \<Rightarrow> (0, r1) | Some x \<Rightarrow> x)
               in case read_given_char CHR '']'' r2 of
                    None \<Rightarrow> None
                  | Some (_, r3) \<Rightarrow>
                      (case read_port r3 of
                         None \<Rightarrow> None
                       | Some (port, r4) \<Rightarrow> Some (SocketAddrV6 ip port scope_id, r4))))"

text \<open>\<open>SocketAddr::from_str\<close>: the whole input has to be read.\<close>

definition SocketAddr_from_str :: "string \<Rightarrow> SocketAddr option" where
  "SocketAddr_from_str s =
     (case (case read_socket_addr_v4 s of None \<Rightarrow> read_socket_addr_v6 s | r \<Rightarrow> r) of
        Some (addr, []) \<Rightarrow> Some addr
      | _ \<Rightarrow> None)"

section \<open>Errors\<close>

datatype ServerError = SrvIo string | SrvConfig string | SrvBackend string | SrvBadRequest string | SrvOther string

fun ServerError_display :: "ServerError \<Rightarrow> string" where
  "ServerError_display (SrvIo s) = ''IO error: '' @ s"
| "ServerError_display (SrvConfig s) = ''Configuration error: '' @ s"
| "ServerError_display (SrvBackend s) = ''OPC UA backend error: '' @ s"
| "ServerError_display (SrvBadRequest s) = ''Invalid request: '' @ s"
| "ServerError_display (SrvOther s) = ''Other: '' @ s"

datatype ConfigError = MissingField string | InvalidPort u16 | InvalidAddress string string | ConfigOther string

fun ConfigError_display :: "ConfigError \<Rightarrow> string" where
  "ConfigError_display (MissingField f) = ''missing required field: '' @ f"
| "ConfigError_display (InvalidPort p) = ''invalid port: '' @ dec_str (unat p)"
| "ConfigError_display (InvalidAddress addr reason) =
     ''invalid bind address '' @ [CHR 0x60] @ addr @ [CHR 0x60] @ '': '' @ reason"
| "ConfigError_display (ConfigOther s) = ''configuration error: '' @ s"

section \<open>Configuration\<close>

datatype WriteMode = QueuedAck | ConfirmedAck

definition WriteMode_default :: WriteMode where
  "WriteMode_default = ConfirmedAck"

datatype SecurityMode = SecNone | Sign | SignAndEncrypt

datatype SecurityPolicy = PolicyNone | Basic128Rsa15 | Basic256 | Basic256Sha256

definition policy_uri :: "SecurityPolicy \<Rightarrow> string" where
  "policy_uri p =
     (case p of
        PolicyNone \<Rightarrow> ''http://opcfoundation.org/UA/SecurityPolicy#None''
      | Basic128Rsa15 \<Rightarrow> ''http://opcfoundation.org/UA/SecurityPolicy#Basic128Rsa15''
      | Basic256 \<Rightarrow> ''http://opcfoundation.org/UA/SecurityPolicy#Basic256''
      | Basic256Sha256 \<Rightarrow> ''http://opcfoundation.org/UA/SecurityPolicy#Basic256Sha256'')"

record CertificateConfig =
  cert_server_certificate_path :: "string option"
  cert_server_private_key_path :: "string option"
  cert_trust_store_dir :: "string option"
  cert_reject_store_dir :: "string option"
  cert_min_key_length :: u32

definition default_min_key_length :: u32 where
  "default_min_key_length = 2048"

definition CertificateConfig_default :: CertificateConfig where
  "CertificateConfig_default =
     \<lparr>cert_server_certificate_path = None, cert_server_private_key_path = None, cert_trust_store_dir = None,
      cert_reject_store_dir = None, cert_min_key_length = default_min_key_length\<rparr>"

record OpcUaConfig =
  oc_bind_addr :: string
  oc_port :: u16
  oc_application_name :: string
  oc_application_uri :: string
  oc_namespace_uri :: string
  oc_anonymous_enabled :: bool
  oc_username_password_enabled :: bool
  oc_max_sessions :: u32
  oc_max_subscriptions :: u32
  oc_write_mode :: WriteMode
  oc_security_mode :: SecurityMode
  oc_security_policy :: SecurityPolicy
  oc_certificates :: CertificateConfig

definition default_local :: OpcUaConfig where
  "default_local =
     \<lparr>oc_bind_addr = ''0.0.0.0'', oc_port = 4840, oc_application_name = ''opcua-plc-bridge'',
      oc_application_uri = ''urn:opcua:plc:bridge'', oc_namespace_uri = ''urn:opcua:plc:bridge:ns'',
      oc_anonymous_enabled = True, oc_username_password_enabled = False, oc_max_sessions = 100,
      oc_max_subscriptions = 1000, oc_write_mode = ConfirmedAck, oc_security_mode = SecNone,
      oc_security_policy = PolicyNone, oc_certificates = CertificateConfig_default\<rparr>"

definition endpoint_url :: "OpcUaConfig \<Rightarrow> string" where
  "endpoint_url cfg = ''opc.tcp://'' @ oc_bind_addr cfg @ '':'' @ dec_str (unat (oc_port cfg))"

definition bind_socket_addr :: "OpcUaConfig \<Rightarrow> ConfigError + SocketAddr" where
  "bind_socket_addr cfg =
     (let s = oc_bind_addr cfg @ '':'' @ dec_str (unat (oc_port cfg))
      in case SocketAddr_from_str s of
           Some addr \<Rightarrow> Inr addr
         | None \<Rightarrow> Inl (InvalidAddress s ''invalid socket address syntax''))"

definition validate_opcua_config :: "OpcUaConfig \<Rightarrow> ConfigError + unit" where
  "validate_opcua_config cfg =
     (if trim (oc_application_name cfg) = [] then Inl (MissingField ''application_name'')
      else if trim (oc_application_uri cfg) = [] then Inl (MissingField ''application_uri'')
      else if trim (oc_namespace_uri cfg) = [] then Inl (MissingField ''namespace_uri'')
      else if oc_port cfg = 0 then Inl (InvalidPort (oc_port cfg))
      else case bind_socket_addr cfg of Inl e \<Rightarrow> Inl e | Inr _ \<Rightarrow> Inr ())"

section \<open>Dotted addresses are accepted, host names are not\<close>

lemma to_digit_10: "to_digit 10 c = (if is_ascii_digit c then Some (digit_val c) else None)"
  by (auto simp: to_digit_def is_ascii_digit_def digit_val_def Let_def)

lemma radix_val_10:
  assumes "list_all is_ascii_digit s"
  shows "radix_val 10 s = digits_val s"
proof -
  have "foldl (\<lambda>n c. 10 * n + the (to_digit 10 c)) k s = foldl (\<lambda>n c. 10 * n + digit_val c) k s" for k
    using assms by (induction s arbitrary: k) (simp_all add: to_digit_10)
  then show ?thesis by (simp add: radix_val_def digits_val_def)
qed

text \<open>A printed number has no leading zero.\<close>

lemma dec_str_hd: "1 < length (dec_str n) \<Longrightarrow> hd (dec_str n) \<noteq> CHR ''0''"
proof (induction n rule: dec_str.induct)
  case (1 n)
  show ?case
  proof (cases "n < 10")
    case True
    then show ?thesis using "1.prems" by (simp add: dec_str.simps [of n])
  next
    case n: False
    show ?thesis
    proof (cases "n div 10 < 10")
      case True
      have "digit_val (char_of (48 + n div 10)) \<noteq> digit_val CHR ''0''"
        using n True by (simp only: digit_val_char) (simp add: digit_val_def)
      then have "char_of (48 + n div 10) \<noteq> CHR ''0''" by metis
      then show ?thesis using n True by (simp add: dec_str.simps [of n] dec_str.simps [of "n div 10"])
    next
      case False
      then have "1 < length (dec_str (n div 10))"
        using dec_str_digits [of "n div 10 div 10"] by (simp add: dec_str.simps [of "n div 10"] Suc_lessI)
      then show ?thesis
        using "1.IH" n dec_str_digits [of "n div 10"] by (simp add: dec_str.simps [of n])
    qed
  qed
qed

lemma dec_str_length: "n < 256 \<Longrightarrow> length (dec_str n) \<le> 3"
  by (simp add: dec_str.simps [of n] dec_str.simps [of "n div 10"] dec_str.simps [of "n div 10 div 10"])

lemma read_number_dec_str:
  assumes "n < limit" and "case max_digits of None \<Rightarrow> True | Some m \<Rightarrow> length (dec_str n) \<le> m"
    and "r = [] \<or> \<not> is_ascii_digit (hd r)"
  shows "read_number 10 max_digits z limit (dec_str n @ r) = Some (n, r)"
proof -
  have d: "list_all is_ascii_digit (dec_str n)" "dec_str n \<noteq> []" using dec_str_digits by auto
  have "takeWhile (\<lambda>c. to_digit 10 c \<noteq> None) (dec_str n @ r) = dec_str n"
    using d(1) assms(3)
    by (cases r) (auto simp: takeWhile_append to_digit_10 list_all_iff)
  then show ?thesis
    using assms(1,2) d dec_str_hd [of n]
    by (auto simp: read_number_def Let_def radix_val_10 digits_val_dec_str split: option.splits)
qed

definition dotted :: "nat list \<Rightarrow> string" where
  "dotted os = concat (map (\<lambda>(i, n). (if 0 < i then ''.'' else []) @ dec_str n) (enumerate 0 os))"

lemma not_digits [simp]: "\<not> is_ascii_digit CHR ''.''" "\<not> is_ascii_digit CHR '':''"
  by (simp_all add: is_ascii_digit_def)

lemma read_ipv4_unfold: "read_ipv4_addr s = read_octets 0 (Suc (Suc (Suc (Suc 0)))) s"
  by (simp add: read_ipv4_addr_def numeral_eq_Suc)

lemma SocketAddr_from_str_v4:
  assumes "a < 256" and "b < 256" and "c < 256" and "d < 256" and "p < 65536"
  shows "SocketAddr_from_str (dotted [a, b, c, d] @ '':'' @ dec_str p) = Some (SocketAddrV4 [a, b, c, d] p)"
proof -
  have n: "read_number 10 (Some 3) False 256 (dec_str k @ x # r) = Some (k, x # r)"
    if "k < 256" "\<not> is_ascii_digit x" for k x r
    using that dec_str_length [of k] by (intro read_number_dec_str) auto
  have p: "read_number 10 None True 65536 (dec_str p) = Some (p, [])"
    using read_number_dec_str [of p 65536 None "[]" True] assms(5) by simp
  show ?thesis
    using assms(1-4)
    by (simp add: dotted_def SocketAddr_from_str_def read_socket_addr_v4_def read_ipv4_unfold
        read_separator_def read_given_char_def n read_port_def p)
qed

lemma SocketAddr_from_str_name:
  assumes "\<not> is_ascii_digit c" and "c \<noteq> CHR ''[''"
  shows "SocketAddr_from_str (c # s) = None"
proof -
  have "read_number 10 (Some 3) False 256 (c # s) = None"
    using assms(1) by (simp add: read_number_def to_digit_10)
  then show ?thesis
    using assms(2)
    by (simp add: SocketAddr_from_str_def read_socket_addr_v4_def read_socket_addr_v6_def read_ipv4_unfold
        read_separator_def read_given_char_def)
qed

section \<open>Properties\<close>

text \<open>The configuration is accepted exactly when its three names are not blank, its port is not zero and
  the bind address with the port is a socket address, and the first of these that fails is reported;
  every dotted IPv4 address is accepted with every port but zero, and a bind address that starts with
  a letter, as a host name does, never is.\<close>

lemma validate_opcua_config_spec:
  "(validate_opcua_config cfg = Inr () \<longleftrightarrow>
     trim (oc_application_name cfg) \<noteq> [] \<and> trim (oc_application_uri cfg) \<noteq> []
     \<and> trim (oc_namespace_uri cfg) \<noteq> [] \<and> oc_port cfg \<noteq> 0
     \<and> SocketAddr_from_str (oc_bind_addr cfg @ '':'' @ dec_str (unat (oc_port cfg))) \<noteq> None)
   \<and> (if a < 256 \<and> b < 256 \<and> c < 256 \<and> d < 256
      then bind_socket_addr (cfg\<lparr>oc_bind_addr := dotted [a, b, c, d]\<rparr>)
        = Inr (SocketAddrV4 [a, b, c, d] (unat (oc_port cfg))) else True)
   \<and> (if \<not> is_ascii_digit x \<and> x \<noteq> CHR ''[''
      then \<exists>e. bind_socket_addr (cfg\<lparr>oc_bind_addr := x # name\<rparr>) = Inl e else True)"
proof -
  have "unat (oc_port cfg) < 65536" using unsigned_less [of "oc_port cfg"] by simp
  then show ?thesis
    using SocketAddr_from_str_v4 SocketAddr_from_str_name
    by (auto simp: validate_opcua_config_def bind_socket_addr_def Let_def split: sum.splits option.splits)
qed

lemma default_local_valid: "validate_opcua_config default_local = Inr ()"
proof -
  have "dotted [0, 0, 0, 0] = ''0.0.0.0''" by code_simp
  then have "SocketAddr_from_str (''0.0.0.0'' @ '':'' @ dec_str 4840) = Some (SocketAddrV4 [0, 0, 0, 0] 4840)"
    using SocketAddr_from_str_v4 [of 0 0 0 0 4840] by simp
  moreover have "trim ''opcua-plc-bridge'' \<noteq> []" "trim ''urn:opcua:plc:bridge'' \<noteq> []"
    "trim ''urn:opcua:plc:bridge:ns'' \<noteq> []"
    by code_simp+
  ultimately show ?thesis by (simp add: validate_opcua_config_def bind_socket_addr_def default_local_def)
qed

end
