(* ===== verification/Runtime_Config.thy ===== *)
theory Runtime_Config
  imports Modbus_Plan Fins_Plan Opcua_Config
begin

text \<open>
  \<open>src/runtime/src/config.rs\<close> and \<open>src/runtime/src/tags.rs\<close>: the configuration file's data, its loader with
  the strict parsers of its textual options, and the conversion of a tag's configuration into a
  definition and into the drivers' mappings.

  The TOML and YAML parsers are third-party code and a parameter: functions from the text to a
  configuration or an error text.  An \<open>anyhow\<close> error is its outermost message.
\<close>

section \<open>Configuration data\<close>

record TagConfig =
  tc_id :: string
  tc_name :: string
  tc_address :: string
  tc_data_type :: string
  tc_writable :: bool
  tc_byte_order :: "string option"
  tc_word_count :: "u16 option"
  tc_area :: "u8 option"

record PlcConfig =
  pc_name :: string
  pc_protocol :: string
  pc_endpoint :: string
  pc_unit_id :: "u8 option"
  pc_cycle_ms :: u64
  pc_tags :: "TagConfig list"
  pc_max_words_per_request :: "u32 option"
  pc_keepalive_secs :: "u64 option"
  pc_max_backoff_secs :: "u64 option"
  pc_io_timeout_ms :: "u64 option"

record RtOpcUaConfig =
  ro_bind_addr :: string
  ro_port :: u16
  ro_application_name :: string
  ro_application_uri :: string
  ro_namespace_uri :: string
  ro_anonymous_enabled :: bool
  ro_username_password_enabled :: bool
  ro_max_sessions :: u32
  ro_max_subscriptions :: u32
  ro_write_mode :: string
  ro_security_mode :: "string option"
  ro_security_policy :: "string option"
  ro_server_certificate_path :: "string option"
  ro_server_private_key_path :: "string option"
  ro_trust_store_dir :: "string option"
  ro_reject_store_dir :: "string option"
  ro_min_key_length :: "u32 option"

record RuntimeConfig =
  rc_opcua :: RtOpcUaConfig
  rc_plcs :: "PlcConfig list"
  rc_health_channel_capacity :: "nat option"
  rc_driver_write_send_timeout_ms :: "u64 option"
  rc_write_confirm_timeout_ms :: "u64 option"

definition parse_write_mode :: "string \<Rightarrow> string + WriteMode" where
  "parse_write_mode s =
     (if s = ''QueuedAck'' then Inr QueuedAck
      else if s = ''ConfirmedAck'' then Inr ConfirmedAck
      else if s = '''' then Inr WriteMode_default
      else Inl (''Invalid write_mode '' @ quoted s @ ''; must be QueuedAck or ConfirmedAck''))"

definition parse_security_mode :: "string option \<Rightarrow> string + SecurityMode" where
  "parse_security_mode s =
     (if s = None \<or> s = Some '''' \<or> s = Some ''None'' then Inr SecNone
      else if s = Some ''Sign'' then Inr Sign
      else if s = Some ''SignAndEncrypt'' then Inr SignAndEncrypt
      else Inl (''Invalid security_mode '' @ quoted (the s) @ ''; must be None, Sign, or SignAndEncrypt''))"

definition parse_security_policy :: "string option \<Rightarrow> string + SecurityPolicy" where
  "parse_security_policy s =
     (if s = None \<or> s = Some '''' \<or> s = Some ''None'' then Inr PolicyNone
      else if s = Some ''Basic128Rsa15'' then Inr Basic128Rsa15
      else if s = Some ''Basic256'' then Inr Basic256
      else if s = Some ''Basic256Sha256'' then Inr Basic256Sha256
      else Inl (''Invalid security_policy '' @ quoted (the s)
        @ ''; must be None, Basic128Rsa15, Basic256, or Basic256Sha256''))"

section \<open>Loading\<close>

text \<open>\<open>Path::extension\<close> on a Unix path: of the last component that is not empty or \<open>.\<close>, unless that is
  \<open>..\<close>, what follows the last dot that is not its first character.\<close>

fun path_components :: "string \<Rightarrow> string \<Rightarrow> string list" where
  "path_components acc [] = [rev acc]"
| "path_components acc (c # cs) =
     (if c = CHR ''/'' then rev acc # path_components [] cs else path_components (c # acc) cs)"

definition path_extension :: "string \<Rightarrow> string option" where
  "path_extension path =
     (case rev (filter (\<lambda>c. c \<noteq> '''' \<and> c \<noteq> ''.'') (path_components [] path)) of
        [] \<Rightarrow> None
      | file # _ \<Rightarrow>
          let after = rev (takeWhile (\<lambda>c. c \<noteq> CHR ''.'') (rev file));
              before = length file - length after
          in if file = ''..'' \<or> before \<le> 1 then None else Some after)"

fun check_cycles :: "PlcConfig list \<Rightarrow> string option" where
  "check_cycles [] = None"
| "check_cycles (plc # rest) =
     (if pc_cycle_ms plc < 10 then
        Some (''Invalid cycle_ms for '' @ pc_name plc @ '': '' @ dec_str (unat (pc_cycle_ms plc)) @ '' (must be >= 10)'')
      else check_cycles rest)"

definition load_runtime_config ::
  "(string \<Rightarrow> string + RuntimeConfig) \<Rightarrow> (string \<Rightarrow> string + RuntimeConfig) \<Rightarrow> string \<Rightarrow> string
   \<Rightarrow> string + RuntimeConfig" where
  "load_runtime_config toml yaml path text =
     (let ext = map_option to_lowercase (path_extension path);
          parsed =
            (if ext = Some ''toml'' then
               (case toml text of Inl e \<Rightarrow> Inl (''TOML parse error: '' @ e) | Inr cfg \<Rightarrow> Inr cfg)
             else if ext = Some ''yaml'' \<or> ext = Some ''yml'' then
               (case yaml text of Inl e \<Rightarrow> Inl (''YAML parse error: '' @ e) | Inr cfg \<Rightarrow> Inr cfg)
             else
               (case toml text of
                  Inr cfg \<Rightarrow> Inr cfg
                | Inl toml_err \<Rightarrow>
                    (case yaml text of
                       Inr cfg \<Rightarrow> Inr cfg
                     | Inl yaml_err \<Rightarrow>
                         Inl (''Config parse failed: TOML error: '' @ toml_err @ ''; YAML error: '' @ yaml_err))))
      in case parsed of
           Inl e \<Rightarrow> Inl e
         | Inr cfg \<Rightarrow> (case check_cycles (rc_plcs cfg) of Some e \<Rightarrow> Inl e | None \<Rightarrow> Inr cfg))"

section \<open>Tags\<close>

definition parse_byte_order :: "string option \<Rightarrow> string \<Rightarrow> string + WordOrder" where
  "parse_byte_order s context =
     (case s of
        None \<Rightarrow> Inr ABCD
      | Some t \<Rightarrow>
          if t = ''ABCD'' \<or> t = ''abcd'' then Inr ABCD
          else if t = ''BADC'' \<or> t = ''badc'' then Inr BADC
          else if t = ''CDAB'' \<or> t = ''cdab'' then Inr CDAB
          else if t = ''DCBA'' \<or> t = ''dcba'' then Inr DCBA
          else Inl (''Unknown byte_order '' @ quoted t @ '' for '' @ context
            @ ''; expected one of ABCD, BADC, CDAB, DCBA''))"

definition data_type_names :: "(string \<times> TagDataType) list" where
  "data_type_names =
     [(''bool'', TBool), (''int16'', TInt16), (''uint16'', TUInt16), (''int32'', TInt32),
      (''uint32'', TUInt32), (''int64'', TInt64), (''uint64'', TUInt64), (''float'', TFloat),
      (''double'', TDouble), (''string'', TString), (''datetime'', TDateTime),
      (''bytestring'', TByteString), (''byte_string'', TByteString)]"

definition parse_data_type :: "string \<Rightarrow> string + TagDataType" where
  "parse_data_type s =
     (case map_of data_type_names (to_lowercase s) of
        Some dt \<Rightarrow> Inr dt
      | None \<Rightarrow> Inl (''Unsupported data type: '' @ to_lowercase s))"

text \<open>The \<open>?\<close> operator.\<close>

definition result_bind :: "'e + 'a \<Rightarrow> ('a \<Rightarrow> 'e + 'b) \<Rightarrow> 'e + 'b" where
  "result_bind r f = (case r of Inl e \<Rightarrow> Inl e | Inr x \<Rightarrow> f x)"

lemma result_bind_simps [simp]: "result_bind (Inl e) f = Inl e" "result_bind (Inr x) f = f x"
  by (simp_all add: result_bind_def)

lemma result_bind_Inr_iff: "result_bind r f = Inr y \<longleftrightarrow> (\<exists>x. r = Inr x \<and> f x = Inr y)"
  by (cases r) auto

lemma result_bind_Inl_iff: "result_bind r f = Inl e \<longleftrightarrow> r = Inl e \<or> (\<exists>x. r = Inr x \<and> f x = Inl e)"
  by (cases r) auto

definition tagconfig_to_definition :: "TagConfig \<Rightarrow> string \<Rightarrow> string + TagDefinition" where
  "tagconfig_to_definition t plc_name =
     result_bind (parse_data_type (tc_data_type t)) (\<lambda>dt.
     result_bind (parse_byte_order (tc_byte_order t) ''tag definition'') (\<lambda>byte_order.
       Inr ((TagDefinition_new (tc_id t) (tc_name t) (tc_address t) dt plc_name)
         \<lparr>td_writable := tc_writable t, td_byte_order := byte_order, td_metadata := None\<rparr>)))"

text \<open>The check of the declared type against the number of words, which both conversions make.\<close>

definition check_words :: "TagDataType \<Rightarrow> u16 \<Rightarrow> string \<Rightarrow> string + unit" where
  "check_words dt n type_text =
     (if dt \<in> {TFloat, TInt32, TUInt32} \<and> n < 2 then
        Inl (''Incompatible word_count '' @ dec_str (unat n) @ '' for data_type '' @ quoted type_text @ '' (needs >=2)'')
      else if dt = TDouble \<and> n < 4 then
        Inl (''Incompatible word_count '' @ dec_str (unat n) @ '' for data_type '' @ quoted ''double'' @ '' (needs >=4)'')
      else Inr ())"

definition parse_fins_number :: "string \<Rightarrow> string \<Rightarrow> string + u32" where
  "parse_fins_number number_str addr =
     (case parse_u32 number_str of None \<Rightarrow> Inl (''Invalid FINS address '' @ quoted addr) | Some n \<Rightarrow> Inr n)"

definition parse_fins_address :: "u8 option \<Rightarrow> string \<Rightarrow> string + u8 \<times> u32" where
  "parse_fins_address explicit_area addr =
     (case explicit_area of
        Some area \<Rightarrow> result_bind (parse_fins_number addr addr) (\<lambda>n. Inr (area, n))
      | None \<Rightarrow>
          if starts_with addr ''D'' \<or> starts_with addr ''d'' then
            (if tl addr = [] \<or> \<not> list_all is_ascii_digit (tl addr)
             then Inl (''Invalid FINS D-address '' @ quoted addr @ ''; expected '' @ quoted ''D<digits>'')
             else result_bind (parse_fins_number (tl addr) addr) (\<lambda>n. Inr (0x82, n)))
          else if list_all is_ascii_digit addr then
            result_bind (parse_fins_number addr addr) (\<lambda>n. Inr (0x82, n))
          else Inl (''Unsupported FINS address pattern '' @ quoted addr @ ''; expected ''
            @ quoted ''D<number>'' @ '' or '' @ quoted ''<number>''))"

definition tagconfig_to_fins_mapping :: "TagConfig \<Rightarrow> string + TagMapping" where
  "tagconfig_to_fins_mapping t =
     (let addr = trim (tc_address t)
      in if addr = [] then Inl ''Empty address for FINS mapping''
         else
           result_bind (parse_fins_address (tc_area t) addr) (\<lambda>(area, address).
             let word_count = (case tc_word_count t of None \<Rightarrow> 1 | Some n \<Rightarrow> n)
             in result_bind (parse_data_type (tc_data_type t)) (\<lambda>dt.
                result_bind (check_words dt word_count (tc_data_type t)) (\<lambda>_.
                result_bind (parse_byte_order (tc_byte_order t) ''FINS mapping'') (\<lambda>byte_order.
                  Inr \<lparr>tm_tag_id = tc_id t, tm_area = area, tm_address = address, tm_bit_offset = 0,
                    tm_word_count = word_count, tm_writable = tc_writable t, tm_byte_order = byte_order,
                    tm_data_type = dt\<rparr>)))))"

definition parse_modbus_address :: "string \<Rightarrow> string + u16" where
  "parse_modbus_address addr =
     (case parse_u32 addr of
        None \<Rightarrow> Inl (''Invalid Modbus address '' @ quoted addr)
      | Some raw \<Rightarrow>
          let normalized = (if raw \<ge> 40001 then raw - 40001 else raw)
          in if normalized > 0xFFFF
             then Inl (''Modbus address '' @ quoted addr @ '' normalized to '' @ dec_str (unat normalized)
               @ '' exceeds u16 range'')
             else Inr (ucast normalized))"

definition tagconfig_to_modbus_mapping :: "TagConfig \<Rightarrow> string + ModbusMapping" where
  "tagconfig_to_modbus_mapping t =
     result_bind (parse_modbus_address (trim (tc_address t))) (\<lambda>address.
       let quantity = (case tc_word_count t of None \<Rightarrow> 1 | Some n \<Rightarrow> n)
       in result_bind (parse_data_type (tc_data_type t)) (\<lambda>dt.
          let func = (if dt = TBool then Coils else HoldingRegisters)
          in result_bind (check_words dt quantity (tc_data_type t)) (\<lambda>_.
             result_bind (parse_byte_order (tc_byte_order t) ''Modbus mapping'') (\<lambda>byte_order.
               Inr \<lparr>mm_tag_id = tc_id t, mm_data_type = dt, mm_address = address, mm_quantity = quantity,
                 mm_function = func, mm_bit_offset = 0, mm_writable = tc_writable t, mm_byte_order = byte_order\<rparr>))))"

section \<open>Numbers as addresses\<close>

lemma strip_len_digit:
  assumes "s \<noteq> []" and "is_ascii_digit (hd s)" and "list_all (\<lambda>w. w \<noteq> [] \<and> \<not> is_ascii_digit (hd w)) ws"
  shows "strip_len ws s = 0"
proof -
  have "\<not> starts_with s w" if "w \<noteq> []" "\<not> is_ascii_digit (hd w)" for w
    using that assms(1,2) by (cases s; cases w) auto
  then have "find_first (starts_with s) ws = None"
    using assms(3) by (induction ws) auto
  then show ?thesis by (simp add: strip_len_def)
qed

lemma trim_digits:
  assumes "list_all is_ascii_digit s"
  shows "trim s = s"
proof (cases "s = []")
  case True
  have "trim_front ws [] = []" for ws by (simp add: trim_front.simps Let_def)
  then show ?thesis using True by (simp add: trim_def)
next
  case False
  have "list_all (\<lambda>w. w \<noteq> [] \<and> \<not> is_ascii_digit (hd w)) white_space"
    "list_all (\<lambda>w. w \<noteq> [] \<and> \<not> is_ascii_digit (hd w)) (map rev white_space)"
    by code_simp+
  moreover have "is_ascii_digit (hd s)" "is_ascii_digit (hd (rev s))"
    using assms False by (auto simp: list_all_iff hd_rev)
  ultimately have "strip_len white_space s = 0" "strip_len (map rev white_space) (rev s) = 0"
    using False by (simp_all add: strip_len_digit)
  then show ?thesis by (simp add: trim_def trim_front.simps Let_def)
qed

lemma trim_dec_str [simp]: "trim (dec_str n) = dec_str n"
  using trim_digits dec_str_digits by blast

section \<open>What the conversions produce\<close>

lemmas result_iff = result_bind_Inr_iff result_bind_Inl_iff

lemma check_words_iff:
  "check_words dt n text = Inr () \<longleftrightarrow>
     \<not> (dt \<in> {TFloat, TInt32, TUInt32} \<and> n < 2) \<and> \<not> (dt = TDouble \<and> n < 4)"
  by (auto simp: check_words_def)

lemma parse_byte_order_context:
  "parse_byte_order s c = Inr ord \<longleftrightarrow> parse_byte_order s c' = Inr ord"
  by (simp add: parse_byte_order_def split: option.split)

lemma to_modbus_mapping_iff:
  "tagconfig_to_modbus_mapping t = Inr m \<longleftrightarrow>
     parse_modbus_address (trim (tc_address t)) = Inr (mm_address m)
     \<and> parse_data_type (tc_data_type t) = Inr (mm_data_type m)
     \<and> parse_byte_order (tc_byte_order t) ''Modbus mapping'' = Inr (mm_byte_order m)
     \<and> mm_quantity m = (case tc_word_count t of None \<Rightarrow> 1 | Some n \<Rightarrow> n)
     \<and> check_words (mm_data_type m) (mm_quantity m) (tc_data_type t) = Inr ()
     \<and> mm_function m = (if mm_data_type m = TBool then Coils else HoldingRegisters)
     \<and> mm_tag_id m = tc_id t \<and> mm_writable m = tc_writable t \<and> mm_bit_offset m = 0"
  unfolding tagconfig_to_modbus_mapping_def Let_def
  by (cases m) (auto simp: result_iff)

lemma to_fins_mapping_iff:
  "tagconfig_to_fins_mapping t = Inr m \<longleftrightarrow>
     trim (tc_address t) \<noteq> [] \<and> parse_fins_address (tc_area t) (trim (tc_address t)) = Inr (tm_area m, tm_address m)
     \<and> parse_data_type (tc_data_type t) = Inr (tm_data_type m)
     \<and> parse_byte_order (tc_byte_order t) ''FINS mapping'' = Inr (tm_byte_order m)
     \<and> tm_word_count m = (case tc_word_count t of None \<Rightarrow> 1 | Some n \<Rightarrow> n)
     \<and> check_words (tm_data_type m) (tm_word_count m) (tc_data_type t) = Inr ()
     \<and> tm_tag_id m = tc_id t \<and> tm_writable m = tc_writable t \<and> tm_bit_offset m = 0"
  unfolding tagconfig_to_fins_mapping_def Let_def
  by (cases m) (auto simp: result_iff)

lemma to_definition_iff:
  "tagconfig_to_definition t plc = Inr d \<longleftrightarrow>
     parse_data_type (tc_data_type t) = Inr (td_data_type d)
     \<and> parse_byte_order (tc_byte_order t) ''tag definition'' = Inr (td_byte_order d)
     \<and> td_id d = tc_id t \<and> td_name d = tc_name t \<and> td_address d = tc_address t \<and> td_plc_name d = plc
     \<and> td_writable d = tc_writable t \<and> td_metadata d = None \<and> td_stale_after_ms d = None"
  unfolding tagconfig_to_definition_def
  by (cases d) (auto simp: result_iff TagDefinition_new_def)

text \<open>The definition of a configured tag and the mapping of its driver agree.\<close>

lemma conversions_agree:
  assumes "tagconfig_to_definition t plc = Inr d"
  shows "tagconfig_to_modbus_mapping t = Inr m \<Longrightarrow>
      mm_tag_id m = td_id d \<and> mm_data_type m = td_data_type d \<and> mm_byte_order m = td_byte_order d
      \<and> mm_writable m = td_writable d"
    and "tagconfig_to_fins_mapping t = Inr m' \<Longrightarrow>
      tm_tag_id m' = td_id d \<and> tm_data_type m' = td_data_type d \<and> tm_byte_order m' = td_byte_order d
      \<and> tm_writable m' = td_writable d"
  using assms parse_byte_order_context [of "tc_byte_order t" "''tag definition''"]
  by (auto simp: to_definition_iff to_modbus_mapping_iff to_fins_mapping_iff)

section \<open>Properties\<close>

definition example_tag_config :: TagConfig where
  "example_tag_config = \<lparr>tc_id = ''t'', tc_name = ''Level'', tc_address = ''40011'', tc_data_type = ''Float'',
     tc_writable = True, tc_byte_order = Some ''cdab'', tc_word_count = Some 2, tc_area = None\<rparr>"

lemma example_tag_mapping:
  "tagconfig_to_modbus_mapping example_tag_config =
     Inr (ModbusMapping_new ''t'' 10 2 HoldingRegisters TFloat 0 True CDAB)"
proof -
  have "trim ''40011'' = ''40011''" by (rule trim_digits) (simp add: is_ascii_digit_def)
  moreover have "parse_modbus_address ''40011'' = Inr 10"
    by (simp add: parse_modbus_address_def parse_u32_def digits_val_def digit_val_def is_ascii_digit_def)
  moreover have "parse_data_type ''Float'' = Inr TFloat" by code_simp
  ultimately show ?thesis
    by (simp add: to_modbus_mapping_iff example_tag_config_def ModbusMapping_new_def check_words_def
        parse_byte_order_def)
qed

text \<open>A Modbus mapping made from a tag's configuration passes the driver's own check of single mappings
  exactly when its quantity is not zero and a byte order that swaps words has at least two registers;
  a FINS mapping likewise.  The other conditions of \<open>validate\<close> are established by the conversion.\<close>

lemma converted_mappings_pass_check:
  "(\<forall>m. tagconfig_to_modbus_mapping t = Inr m \<longrightarrow>
      (check_mapping m = None \<longleftrightarrow> mm_quantity m \<noteq> 0 \<and> (mm_byte_order m \<in> {CDAB, DCBA} \<longrightarrow> 2 \<le> mm_quantity m)))
   \<and> (\<forall>m. tagconfig_to_fins_mapping t = Inr m \<longrightarrow>
      (fins_check_mapping m = None \<longleftrightarrow> tm_word_count m \<noteq> 0 \<and> (tm_byte_order m \<in> {CDAB, DCBA} \<longrightarrow> 2 \<le> tm_word_count m)))"
proof -
  have "check_mapping m = None \<longleftrightarrow> mm_quantity m \<noteq> 0 \<and> (mm_byte_order m \<in> {CDAB, DCBA} \<longrightarrow> 2 \<le> mm_quantity m)"
    if "tagconfig_to_modbus_mapping t = Inr m" for m
  proof -
    have "check_words (mm_data_type m) (mm_quantity m) (tc_data_type t) = Inr ()"
      using that unfolding to_modbus_mapping_iff by blast
    then have c: "\<not> (mm_data_type m \<in> {TFloat, TInt32, TUInt32} \<and> mm_quantity m < 2)"
      "\<not> (mm_data_type m = TDouble \<and> mm_quantity m < 4)"
      unfolding check_words_iff by blast+
    moreover have "\<not> mm_bit_offset m \<ge> 16" "mm_function m \<notin> {InputRegisters, DiscreteInputs}"
      using that by (simp_all add: to_modbus_mapping_iff)
    ultimately show ?thesis by (simp only: check_mapping_def c) (auto simp: linorder_not_less)
  qed
  moreover have "fins_check_mapping m = None \<longleftrightarrow>
      tm_word_count m \<noteq> 0 \<and> (tm_byte_order m \<in> {CDAB, DCBA} \<longrightarrow> 2 \<le> tm_word_count m)"
    if "tagconfig_to_fins_mapping t = Inr m" for m
  proof -
    have "check_words (tm_data_type m) (tm_word_count m) (tc_data_type t) = Inr ()"
      using that unfolding to_fins_mapping_iff by blast
    then have c: "\<not> (tm_data_type m \<in> {TFloat, TInt32, TUInt32} \<and> tm_word_count m < 2)"
      "\<not> (tm_data_type m = TDouble \<and> tm_word_count m < 4)"
      unfolding check_words_iff by blast+
    moreover have "\<not> tm_bit_offset m \<ge> 16" using that by (simp add: to_fins_mapping_iff)
    ultimately show ?thesis by (simp only: fins_check_mapping_def c) (auto simp: linorder_not_less)
  qed
  ultimately show ?thesis by blast
qed

lemma converted_mappings_pass_check_witness:
  "case tagconfig_to_modbus_mapping example_tag_config of Inr m \<Rightarrow> check_mapping m = None | Inl _ \<Rightarrow> False"
  using converted_mappings_pass_check [of example_tag_config]
  by (simp add: example_tag_mapping) (simp add: ModbusMapping_new_def)

text \<open>A decimal address below 40001 is a register offset, one from 40001 on is the human notation of the offset
  40001 lower, and one whose offset does not fit 16 bits is rejected.  So the offsets from 40001 on have
  no plain notation, and the addresses \<open>n\<close> and \<open>n + 40001\<close> name the same register.\<close>

lemma modbus_address_notation:
  assumes "n < 2 ^ 32"
  shows "parse_modbus_address (trim (dec_str n)) =
    (let offset = (if 40001 \<le> n then n - 40001 else n)
     in if offset < 2 ^ 16 then Inr (word_of_nat offset)
        else Inl (''Modbus address '' @ quoted (dec_str n) @ '' normalized to '' @ dec_str offset @ '' exceeds u16 range''))"
proof -
  define raw :: u32 where "raw = word_of_nat n"
  have raw: "unat raw = n" using assms by (simp add: raw_def unsigned_of_nat take_bit_nat_eq_self_iff)
  define norm where "norm = (if raw \<ge> 40001 then raw - 40001 else raw)"
  have norm: "unat norm = (if 40001 \<le> n then n - 40001 else n)"
    using raw by (simp add: norm_def word_le_nat_alt unat_minus_exact)
  have p: "parse_modbus_address (trim (dec_str n)) =
      (if norm > 0xFFFF then Inl (''Modbus address '' @ quoted (dec_str n) @ '' normalized to '' @ dec_str (unat norm)
          @ '' exceeds u16 range'') else Inr (ucast norm))"
    using assms by (simp add: parse_modbus_address_def parse_u32_dec_str norm_def Let_def flip: raw_def)
  have "norm > 0xFFFF \<longleftrightarrow> \<not> unat norm < 2 ^ 16" by (auto simp: word_less_nat_alt)
  moreover have "(ucast norm :: u16) = word_of_nat (unat norm)" by simp
  ultimately show ?thesis unfolding p Let_def using norm by simp
qed

lemma modbus_address_notation_witness:
  "parse_modbus_address (trim (dec_str 0)) = parse_modbus_address (trim (dec_str 40001))
   \<and> parse_modbus_address (trim (dec_str 50000)) = Inr 9999"
  using modbus_address_notation [of 0] modbus_address_notation [of 40001] modbus_address_notation [of 50000] by simp

end
