(* ===== verification/Runtime_Driver.thy ===== *)
theory Runtime_Driver
  imports Protocol Driver_State
begin

text \<open>
  \<open>src/runtime/src/runtime_driver.rs\<close>: the task that polls a protocol driver.  The \<open>select!\<close> loop is a
  state machine over events: the ticker fires, the backoff elapses, the shutdown flag is seen.  Which of
  several enabled events comes first is the scheduler's choice, so the theorems are about every
  sequence of events.  A cycle runs inside one event, since the loop does not look at the shutdown flag
  while \<open>read_cycle\<close> is awaited; a cycle that does not come back leaves the task in the phase \<open>InCycle\<close>,
  where no event is enabled.

  A driver is a record of its operations on its state: the cycle, the registry it shares, the clock
  and the health probe.  The locale \<open>polled_driver\<close> states what the loop relies on.
\<close>

record ('i, 's, 'err) driver_ops =
  op_cycle :: "'i \<Rightarrow> 's \<Rightarrow> ('s, 'err) ctl"
  op_registry :: "'s \<Rightarrow> TagRegistry"
  op_put_registry :: "TagRegistry \<Rightarrow> 's \<Rightarrow> 's"
  op_now :: "'s \<Rightarrow> datetime \<times> 's"
  op_health :: "'s \<Rightarrow> string + json option"
  op_error_text :: "'err \<Rightarrow> string"

section \<open>Stale tags\<close>

text \<open>\<open>ChronoDuration::milliseconds(timeout_ms as i64)\<close> in nanoseconds; the cast wraps, and the
  conversion panics on \<open>i64::MIN\<close>.\<close>

definition stale_timeout :: "u64 \<Rightarrow> int option" where
  "stale_timeout ms = (if sint ms = - (2 ^ 63) then None else Some (sint ms * 1000000))"

definition check_stale_tag ::
  "('i, 's, 'err) driver_ops \<Rightarrow> string \<Rightarrow> 's \<Rightarrow> TagDefinition \<Rightarrow> ('s, 'err) ctl" where
  "check_stale_tag ops plc_name s d =
     (if td_plc_name d \<noteq> plc_name then Next s
      else case td_stale_after_ms d of
          None \<Rightarrow> Next s
        | Some timeout_ms \<Rightarrow>
            (case get_tag (op_registry ops s) (td_id d) of
               Inl _ \<Rightarrow> Next s
             | Inr tag \<Rightarrow>
                 (case stale_timeout timeout_ms of
                    None \<Rightarrow> Panicked s
                  | Some timeout \<Rightarrow>
                      (case op_now ops s of (now, s) \<Rightarrow>
                         if is_stale now tag timeout \<and> tag_quality tag \<noteq> Stale then
                           (case op_now ops s of (now', s) \<Rightarrow>
                              Next (op_put_registry ops (upd_qual now' (op_registry ops s) (td_id d) Stale) s))
                         else Next s))))"

definition check_stale_tags :: "('i, 's, 'err) driver_ops \<Rightarrow> string \<Rightarrow> 's \<Rightarrow> ('s, 'err) ctl" where
  "check_stale_tags ops plc_name s =
     for_each (check_stale_tag ops plc_name) s (reg_all_definitions_sorted (op_registry ops s))"

section \<open>The poll loop\<close>

datatype poll_phase = Idle | BackingOff | InCycle | Exited | Crashed

record 's poll_state =
  po_phase :: poll_phase
  po_backoff :: u64
  po_driver :: 's
  po_sent :: "json list"

datatype 'i poll_event = Tick 'i | Elapsed 'i | ShutdownSeen

definition health_event :: "string \<Rightarrow> string \<Rightarrow> string \<Rightarrow> json \<Rightarrow> json" where
  "health_event name status message data =
     JObject [(''plc'', JString name), (''status'', JString status),
              (''detail'', JObject [(''message'', JString message), (''data'', data)])]"

text \<open>\<open>let _ = tx.try_send(...)\<close>, when there is a sender.\<close>

definition poll_send :: "bool \<Rightarrow> json \<Rightarrow> 's poll_state \<Rightarrow> 's poll_state" where
  "poll_send health_tx ev st = (if health_tx then st\<lparr>po_sent := po_sent st @ [ev]\<rparr> else st)"

definition next_backoff :: "u64 \<Rightarrow> u64 \<Rightarrow> u64" where
  "next_backoff max_backoff backoff =
     (if backoff = 0 then 1 else min (saturating_mul backoff 2) max_backoff)"

definition after_success ::
  "('i, 's, 'err) driver_ops \<Rightarrow> string \<Rightarrow> bool \<Rightarrow> 's poll_state \<Rightarrow> 's poll_state" where
  "after_success ops name health_tx st =
     (case check_stale_tags ops name (po_driver st) of
        Panicked s \<Rightarrow> st\<lparr>po_phase := Crashed, po_backoff := 0, po_driver := s\<rparr>
      | c \<Rightarrow>
          let st1 = st\<lparr>po_phase := Idle, po_backoff := 0,
            po_driver := (case ctl_state c of Some s \<Rightarrow> s | None \<Rightarrow> po_driver st)\<rparr>
          in case op_health ops (po_driver st1) of
               Inr (Some h) \<Rightarrow> poll_send health_tx (health_event name ''ok'' ''ok'' h) st1
             | _ \<Rightarrow> st1)"

definition after_failure ::
  "('i, 's, 'err) driver_ops \<Rightarrow> string \<Rightarrow> bool \<Rightarrow> u64 \<Rightarrow> 'err \<Rightarrow> 's poll_state \<Rightarrow> 's poll_state" where
  "after_failure ops name health_tx max_backoff e st =
     (poll_send health_tx (health_event name ''error'' (op_error_text ops e) JNull) st)
       \<lparr>po_phase := Idle, po_backoff := next_backoff max_backoff (po_backoff st)\<rparr>"

definition run_cycle ::
  "('i, 's, 'err) driver_ops \<Rightarrow> string \<Rightarrow> bool \<Rightarrow> u64 \<Rightarrow> 'i \<Rightarrow> 's poll_state \<Rightarrow> 's poll_state" where
  "run_cycle ops name health_tx max_backoff i st =
     (case op_cycle ops i (po_driver st) of
        Next s \<Rightarrow> after_success ops name health_tx (st\<lparr>po_driver := s\<rparr>)
      | Break s \<Rightarrow> after_success ops name health_tx (st\<lparr>po_driver := s\<rparr>)
      | Return s e \<Rightarrow> after_failure ops name health_tx max_backoff e (st\<lparr>po_driver := s\<rparr>)
      | Panicked s \<Rightarrow> st\<lparr>po_phase := Crashed, po_driver := s\<rparr>
      | Diverges \<Rightarrow> st\<lparr>po_phase := InCycle\<rparr>)"

text \<open>\<open>None\<close>: the event is not enabled.\<close>

fun poll_step ::
  "('i, 's, 'err) driver_ops \<Rightarrow> string \<Rightarrow> bool \<Rightarrow> u64 \<Rightarrow> bool \<Rightarrow> 'i poll_event \<Rightarrow> 's poll_state \<Rightarrow> 's poll_state option" where
  "poll_step ops name htx mx shutdown (Tick i) st =
     (if po_phase st \<noteq> Idle then None
      else if po_backoff st > 0 then Some (st\<lparr>po_phase := BackingOff\<rparr>)
      else Some (run_cycle ops name htx mx i st))"
| "poll_step ops name htx mx shutdown (Elapsed i) st =
     (if po_phase st \<noteq> BackingOff then None else Some (run_cycle ops name htx mx i st))"
| "poll_step ops name htx mx shutdown ShutdownSeen st =
     (if shutdown \<and> (po_phase st = Idle \<or> po_phase st = BackingOff) then Some (st\<lparr>po_phase := Exited\<rparr>) else None)"

inductive poll_reach ::
  "('i, 's, 'err) driver_ops \<Rightarrow> string \<Rightarrow> bool \<Rightarrow> u64 \<Rightarrow> bool \<Rightarrow> 's poll_state \<Rightarrow> 's poll_state \<Rightarrow> bool"
  for ops name htx mx shutdown where
  start: "poll_reach ops name htx mx shutdown st st"
| step: "poll_reach ops name htx mx shutdown st st' \<Longrightarrow> poll_step ops name htx mx shutdown ev st' = Some st''
    \<Longrightarrow> poll_reach ops name htx mx shutdown st st''"

section \<open>Start and stop\<close>

text \<open>The runtime driver: its maximum backoff is fixed by \<open>new\<close>; \<open>rd_shutdown\<close> is whether the watch
  channel was ever set, which every task spawned later sees as well, since each clones the receiver
  that has not seen the change.\<close>

record 's runtime_driver =
  rd_name :: string
  rd_poll_ms :: u64
  rd_health_tx :: bool
  rd_shutdown :: bool
  rd_max_backoff_secs :: u64
  rd_task :: "'s poll_state option"

definition RuntimeDriver_new :: "string \<Rightarrow> u64 \<Rightarrow> 's runtime_driver" where
  "RuntimeDriver_new name poll_interval =
     \<lparr>rd_name = name, rd_poll_ms = poll_interval, rd_health_tx = False, rd_shutdown = False,
      rd_max_backoff_secs = 30, rd_task = None\<rparr>"

definition rd_set_health_sender :: "'s runtime_driver \<Rightarrow> 's runtime_driver" where
  "rd_set_health_sender rd = rd\<lparr>rd_health_tx := True\<rparr>"

text \<open>\<open>s\<close> is the state of the driver when the task is spawned.\<close>

definition rd_start :: "'s \<Rightarrow> 's runtime_driver \<Rightarrow> 's runtime_driver" where
  "rd_start s rd =
     (case rd_task rd of
        Some _ \<Rightarrow> rd
      | None \<Rightarrow> rd\<lparr>rd_task := Some \<lparr>po_phase = Idle, po_backoff = 0, po_driver = s, po_sent = []\<rparr>\<rparr>)"

text \<open>\<open>stop\<close> sets the flag and awaits the task: it returns once the task has ended.\<close>

definition rd_request_stop :: "'s runtime_driver \<Rightarrow> 's runtime_driver" where
  "rd_request_stop rd = rd\<lparr>rd_shutdown := True\<rparr>"

definition rd_stop_returns :: "'s runtime_driver \<Rightarrow> 's runtime_driver option" where
  "rd_stop_returns rd =
     (case rd_task rd of
        None \<Rightarrow> Some rd
      | Some st \<Rightarrow> if po_phase st = Exited \<or> po_phase st = Crashed then Some (rd\<lparr>rd_task := None\<rparr>) else None)"

section \<open>The backoff\<close>

text \<open>The number of failures since the last success determines the backoff.\<close>

fun backoff_after :: "u64 \<Rightarrow> nat \<Rightarrow> u64" where
  "backoff_after mx 0 = 0"
| "backoff_after mx (Suc n) = next_backoff mx (backoff_after mx n)"

lemma unat_min: "unat (min a b) = min (unat (a :: 'a::len word)) (unat b)"
  by (simp add: min_def word_le_nat_alt)

lemma unat_backoff_after:
  assumes "1 \<le> mx"
  shows "unat (backoff_after mx (Suc n)) = min (2 ^ n) (unat mx)"
proof (induction n)
  case 0
  then show ?case using assms by (simp add: next_backoff_def word_le_nat_alt)
next
  case (Suc n)
  have pos: "0 < unat mx" using assms by (simp add: word_le_nat_alt)
  then have "0 < unat (backoff_after mx (Suc n))" unfolding Suc by (rule min_less_iff_conj [THEN iffD2, OF conjI, rotated]) simp
  then have "backoff_after mx (Suc n) \<noteq> 0" by auto
  then have "unat (backoff_after mx (Suc (Suc n))) = min (min (2 * unat (backoff_after mx (Suc n))) (2 ^ 64 - 1)) (unat mx)"
    unfolding backoff_after.simps(2) [of mx "Suc n"] next_backoff_def
    by (simp only: if_False unat_min unat_saturating_mul_2)
  also have "\<dots> = min (2 * min (2 ^ n) (unat mx)) (unat mx)"
    unfolding Suc using unsigned_less [of mx, where 'a = nat] by (simp add: min_def)
  also have "\<dots> = min (2 ^ Suc n) (unat mx)" using capped_double [of 1 "2 ^ n" "unat mx"] by (auto simp: min_def)
  finally show ?case .
qed

text \<open>One round of a failing driver, from waiting for the ticker to waiting again.\<close>

definition round_events :: "'i \<Rightarrow> 's poll_state \<Rightarrow> 'i poll_event list" where
  "round_events i st = (if po_backoff st > 0 then [Tick i, Elapsed i] else [Tick i])"

fun run_events ::
  "('i, 's, 'err) driver_ops \<Rightarrow> string \<Rightarrow> bool \<Rightarrow> u64 \<Rightarrow> bool \<Rightarrow> 'i poll_event list \<Rightarrow> 's poll_state \<Rightarrow> 's poll_state option" where
  "run_events ops name htx mx sd [] st = Some st"
| "run_events ops name htx mx sd (ev # evs) st =
     (case poll_step ops name htx mx sd ev st of
        None \<Rightarrow> None
      | Some st' \<Rightarrow> run_events ops name htx mx sd evs st')"

lemma run_events_reach:
  assumes "run_events ops name htx mx sd evs st = Some st'"
  shows "poll_reach ops name htx mx sd st st'"
proof -
  have "run_events ops name htx mx sd evs st' = Some st'' \<Longrightarrow> poll_reach ops name htx mx sd st st' \<Longrightarrow>
    poll_reach ops name htx mx sd st st''" for st' st''
    by (induction evs arbitrary: st') (auto split: option.splits intro: poll_reach.step)
  then show ?thesis using assms poll_reach.start by metis
qed

fun run_rounds ::
  "('i, 's, 'err) driver_ops \<Rightarrow> string \<Rightarrow> bool \<Rightarrow> u64 \<Rightarrow> bool \<Rightarrow> 'i list \<Rightarrow> 's poll_state \<Rightarrow> 's poll_state option" where
  "run_rounds ops name htx mx sd [] st = Some st"
| "run_rounds ops name htx mx sd (i # is) st =
     (case run_events ops name htx mx sd (round_events i st) st of
        None \<Rightarrow> None
      | Some st' \<Rightarrow> run_rounds ops name htx mx sd is st')"

lemma run_round:
  assumes "po_phase st = Idle"
  shows "run_events ops name htx mx sd (round_events i st) st =
    Some (run_cycle ops name htx mx i (if po_backoff st > 0 then st\<lparr>po_phase := BackingOff\<rparr> else st))"
  using assms by (simp add: round_events_def)

lemma failing_rounds:
  assumes "\<forall>i \<in> set is. \<forall>s. \<exists>s' e. op_cycle ops i s = Return s' e"
    and "po_phase st = Idle" and "po_backoff st = backoff_after mx n"
  shows "\<exists>st'. run_rounds ops name htx mx sd is st = Some st' \<and> po_phase st' = Idle
    \<and> po_backoff st' = backoff_after mx (n + length is)"
  using assms
proof (induction "is" arbitrary: st n)
  case (Cons i "is")
  let ?st = "if po_backoff st > 0 then st\<lparr>po_phase := BackingOff\<rparr> else st"
  obtain s' e where "op_cycle ops i (po_driver ?st) = Return s' e" using Cons.prems(1) by fastforce
  then have "po_phase (run_cycle ops name htx mx i ?st) = Idle"
    "po_backoff (run_cycle ops name htx mx i ?st) = backoff_after mx (Suc n)"
    using Cons.prems(3) by (simp_all add: run_cycle_def after_failure_def poll_send_def)
  from Cons.IH [OF _ this] show ?case using Cons.prems(1) by (simp add: run_round [OF Cons.prems(2)])
qed simp

section \<open>What the loop keeps of the registry\<close>

locale polled_driver = protocol_driver "op_cycle ops" "op_registry ops"
  for ops :: "('i, 's, 'err) driver_ops" +
  assumes put: "op_registry ops (op_put_registry ops r s) = r"
    and now: "op_registry ops (snd (op_now ops s)) = op_registry ops s"
begin

lemma check_stale_tag_updates:
  "ctl_all (\<lambda>s'. reg_step\<^sup>*\<^sup>* (op_registry ops s) (op_registry ops s')) (check_stale_tag ops plc s d)"
  by (auto simp: check_stale_tag_def put now case_prod_beta split: option.split sum.split
      intro: reg_step.set_quality)

lemma check_stale_tags_updates:
  "ctl_all (\<lambda>s'. reg_step\<^sup>*\<^sup>* (op_registry ops s) (op_registry ops s')) (check_stale_tags ops plc s)"
  unfolding check_stale_tags_def
proof (rule ctl_all_for_each)
  fix s' d assume r: "reg_step\<^sup>*\<^sup>* (op_registry ops s) (op_registry ops s')"
  show "ctl_all (\<lambda>s'. reg_step\<^sup>*\<^sup>* (op_registry ops s) (op_registry ops s')) (check_stale_tag ops plc s' d)"
    using check_stale_tag_updates [of s' plc d] by (rule ctl_all_mono) (rule rtranclp_trans [OF r])
qed simp

lemma after_success_updates:
  "reg_step\<^sup>*\<^sup>* (op_registry ops (po_driver st)) (op_registry ops (po_driver (after_success ops name htx st)))"
  using check_stale_tags_updates [of "po_driver st" name]
  by (cases "check_stale_tags ops name (po_driver st)")
    (auto simp: after_success_def poll_send_def Let_def split: sum.split option.split)

lemma run_cycle_updates:
  "reg_step\<^sup>*\<^sup>* (op_registry ops (po_driver st)) (op_registry ops (po_driver (run_cycle ops name htx mx i st)))"
  using cycle_updates [of "po_driver st" i] after_success_updates [of "st\<lparr>po_driver := s\<rparr>" name htx for s]
  by (cases "op_cycle ops i (po_driver st)")
    (auto simp: run_cycle_def after_failure_def poll_send_def intro: rtranclp_trans)

lemma poll_step_updates:
  "poll_step ops name htx mx sd ev st = Some st' \<Longrightarrow>
   reg_step\<^sup>*\<^sup>* (op_registry ops (po_driver st)) (op_registry ops (po_driver st'))"
  using run_cycle_updates by (cases ev) (auto split: if_splits)

lemma poll_reach_updates:
  "poll_reach ops name htx mx sd st st' \<Longrightarrow>
   reg_step\<^sup>*\<^sup>* (op_registry ops (po_driver st)) (op_registry ops (po_driver st'))"
  by (induction rule: poll_reach.induct) (auto intro: rtranclp_trans poll_step_updates)

end

section \<open>Stale marks, tag by tag\<close>

definition is_due :: "string \<Rightarrow> datetime \<Rightarrow> TagDefinition \<Rightarrow> Tag \<Rightarrow> bool" where
  "is_due plc now d t \<longleftrightarrow>
     td_plc_name d = plc \<and> tag_quality t \<noteq> Stale
     \<and> (case Option.bind (td_stale_after_ms d) stale_timeout of None \<Rightarrow> False | Some timeout \<Rightarrow> is_stale now t timeout)"

text \<open>What the check makes of one tag, looked at when the clock showed a time that satisfies \<open>P\<close>.\<close>

definition stale_outcome :: "(datetime \<Rightarrow> bool) \<Rightarrow> string \<Rightarrow> TagDefinition \<Rightarrow> Tag \<Rightarrow> Tag \<Rightarrow> bool" where
  "stale_outcome P plc d t t' \<longleftrightarrow>
     (\<exists>now now'. P now \<and> P now' \<and> t' = (if is_due plc now d t then tag_set_quality now' t Stale else t))"

context polled_driver
begin

lemma check_stale_tag_map:
  assumes "store_wf (reg_tags (op_registry ops s))" and "check_stale_tag ops plc s d = Next s'"
    and "\<And>s. P (fst (op_now ops s))"
  shows "store_wf (reg_tags (op_registry ops s'))"
    and "tid \<noteq> td_id d \<Longrightarrow> reg_map (op_registry ops s') tid = reg_map (op_registry ops s) tid"
    and "reg_map (op_registry ops s) (td_id d) = Some t \<Longrightarrow>
      \<exists>t'. reg_map (op_registry ops s') (td_id d) = Some t' \<and> stale_outcome P plc d t t'"
proof -
  let ?r = "op_registry ops s" and ?now = "fst (op_now ops s)" and ?now' = "fst (op_now ops (snd (op_now ops s)))"
  have *: "op_registry ops s' = ?r \<and> (\<forall>t. reg_map ?r (td_id d) = Some t \<longrightarrow> \<not> is_due plc ?now d t)
    \<or> op_registry ops s' = upd_qual ?now' ?r (td_id d) Stale \<and> (\<forall>t. reg_map ?r (td_id d) = Some t \<longrightarrow> is_due plc ?now d t)"
    using assms(2)
    by (auto simp: check_stale_tag_def put now case_prod_beta get_tag_map is_due_def
        split: if_splits option.splits sum.splits)
  show "store_wf (reg_tags (op_registry ops s'))" using * assms(1) by auto
  show "reg_map (op_registry ops s') tid = reg_map ?r tid" if "tid \<noteq> td_id d"
    using * that by (auto simp: reg_map_upd_qual [OF assms(1)] split: option.split)
  show "\<exists>t'. reg_map (op_registry ops s') (td_id d) = Some t' \<and> stale_outcome P plc d t t'" if "reg_map ?r (td_id d) = Some t"
  proof -
    let ?t' = "if is_due plc ?now d t then tag_set_quality ?now' t Stale else t"
    have "reg_map (op_registry ops s') (td_id d) = Some ?t'"
      using * that by (auto simp: reg_map_upd_qual [OF assms(1)])
    then show ?thesis using assms(3) unfolding stale_outcome_def by blast
  qed
qed

lemma check_stale_tag_cases:
  "(\<exists>s'. check_stale_tag ops plc s d = Next s') \<or> (\<exists>s'. check_stale_tag ops plc s d = Panicked s')"
  by (auto simp: check_stale_tag_def case_prod_beta split: option.split sum.split)

lemma check_stale_loop:
  assumes "store_wf (reg_tags (op_registry ops s))" and "for_each (check_stale_tag ops plc) s ds = Next s'"
    and "distinct (map td_id ds)" and P: "\<And>s. P (fst (op_now ops s))"
  shows "(\<forall>tid. tid \<notin> td_id ` set ds \<longrightarrow> reg_map (op_registry ops s') tid = reg_map (op_registry ops s) tid)
    \<and> (\<forall>d \<in> set ds. \<forall>t. reg_map (op_registry ops s) (td_id d) = Some t \<longrightarrow>
      (\<exists>t'. reg_map (op_registry ops s') (td_id d) = Some t' \<and> stale_outcome P plc d t t'))"
  using assms(1-3)
proof (induction ds arbitrary: s)
  case (Cons d ds)
  have "\<exists>s1. check_stale_tag ops plc s d = Next s1 \<and> for_each (check_stale_tag ops plc) s1 ds = Next s'"
    using Cons.prems(2) check_stale_tag_cases [of plc s d] by auto
  then obtain s1 where s1: "check_stale_tag ops plc s d = Next s1" "for_each (check_stale_tag ops plc) s1 ds = Next s'" by blast
  note one = check_stale_tag_map [where P = P, OF Cons.prems(1) s1(1) P]
  have fresh: "distinct (map td_id ds)" "td_id d \<notin> td_id ` set ds" using Cons.prems(3) by auto
  note rest = Cons.IH [OF one(1) s1(2) fresh(1)]
  have "\<exists>t'. reg_map (op_registry ops s') (td_id d') = Some t' \<and> stale_outcome P plc d' t t'"
    if d': "d' \<in> set (d # ds)" and t: "reg_map (op_registry ops s) (td_id d') = Some t" for d' t
  proof (cases "d' = d")
    case True
    then show ?thesis using one(3) t rest fresh(2) by simp
  next
    case False
    then have "d' \<in> set ds" using d' by simp
    moreover from this fresh(2) have "td_id d' \<noteq> td_id d" by (metis imageI)
    ultimately show ?thesis using rest one(2) t by simp
  qed
  moreover have "reg_map (op_registry ops s') tid = reg_map (op_registry ops s) tid"
    if "tid \<notin> td_id ` set (d # ds)" for tid
    using rest one(2) [of tid] that by simp
  ultimately show ?case by blast
qed simp

text \<open>The whole check: a tag of a well-formed registry is changed exactly when it is due.\<close>

lemma check_stale_tags_map:
  assumes "reg_wf (op_registry ops s)" and "check_stale_tags ops plc s = Next s'" and "\<And>s. P (fst (op_now ops s))"
    and "reg_def (op_registry ops s) tid = Some d" and "reg_map (op_registry ops s) tid = Some t"
  shows "\<exists>t'. reg_map (op_registry ops s') tid = Some t' \<and> stale_outcome P plc d t t'"
proof -
  let ?ds = "all_definitions_sorted (reg_definitions (op_registry ops s))"
  have wf: "defstore_wf (reg_definitions (op_registry ops s))" "store_wf (reg_tags (op_registry ops s))"
    using assms(1) by (simp_all add: reg_wf_def)
  have "td_id d = tid" using wf(1) assms(4) by (simp add: defstore_wf_id reg_def_def)
  moreover have "d \<in> set ?ds"
    using assms(4) by (force simp: set_all_definitions_sorted reg_def_def dest: map_of_SomeD)
  ultimately show ?thesis
    using check_stale_loop [where P = P, OF wf(2) assms(2) [unfolded check_stale_tags_def reg_all_definitions_sorted_def]
        all_definitions_sorted_ids(2) [OF wf(1)] assms(3)] assms(5) by blast
qed

end

end
