(* ===== verification/Runtime_Poll.thy ===== *)
theory Runtime_Poll
  imports Runtime_Driver Modbus_Cycle Fins_Cycle
begin

text \<open>
  The poll loop over the two drivers: each implements \<open>ProtocolDriver\<close> by its cycle, with no synchronous
  health probe, and its records of operations satisfy the contract of the loop.  The properties hold
  for every sequence of ticks, elapsed backoffs and shutdown requests.
\<close>

definition modbus_ops ::
  "profile \<Rightarrow> bool \<Rightarrow> 'e modbus_io \<Rightarrow> crates \<Rightarrow> ModbusFunction list \<Rightarrow> ModbusConfig
   \<Rightarrow> (try_recv list, 'e drv_state, DriverError) driver_ops" where
  "modbus_ops p warn_on io cr funcs cfg =
     \<lparr>op_cycle = run_read_cycle_impl p warn_on io cr funcs cfg, op_registry = ds_registry,
      op_put_registry = (\<lambda>r s. s\<lparr>ds_registry := r\<rparr>),
      op_now = (\<lambda>s. case io_now io (ds_env s) of (now, e) \<Rightarrow> (now, s\<lparr>ds_env := e\<rparr>)),
      op_health = (\<lambda>_. Inr None), op_error_text = DriverError_display\<rparr>"

definition fins_ops ::
  "profile \<Rightarrow> bool \<Rightarrow> 'e fins_io \<Rightarrow> crates \<Rightarrow> FinsConfig \<Rightarrow> ReadGroup list
   \<Rightarrow> (try_recv list, 'e fins_state, FinsError) driver_ops" where
  "fins_ops p warn_on io cr cfg gs =
     \<lparr>op_cycle = fins_run_read_cycle_impl p warn_on io cr cfg gs, op_registry = ds_registry,
      op_put_registry = (\<lambda>r s. s\<lparr>ds_registry := r\<rparr>),
      op_now = (\<lambda>s. case fio_now io (ds_env s) of (now, e) \<Rightarrow> (now, s\<lparr>ds_env := e\<rparr>)),
      op_health = (\<lambda>_. Inr None), op_error_text = FinsError_display\<rparr>"

interpretation modbus_poll: polled_driver "modbus_ops p warn_on io cr funcs cfg"
  for p warn_on and io :: "'e modbus_io" and cr funcs cfg
  using modbus.cycle_updates
  by unfold_locales (simp_all add: modbus_ops_def case_prod_beta)

interpretation fins_poll: polled_driver "fins_ops p warn_on io cr cfg gs"
  for p warn_on and io :: "'e fins_io" and cr cfg gs
  using fins.cycle_updates
  by unfold_locales (simp_all add: fins_ops_def case_prod_beta)

section \<open>A device that is never reached\<close>

lemma connect_loop_unreachable:
  assumes "\<And>e. \<not> fst (connect e)"
  shows "connect_loop connect mx b s = None"
proof (rule ccontr)
  assume "connect_loop connect mx b s \<noteq> None"
  then obtain s' where s': "connect_loop connect mx b s = Some s'" by blast
  have "\<exists>e. fst (connect e)"
  proof (rule connect_loop.raw_induct [where P = "\<lambda>connect mx b s s'. \<exists>e. fst (connect e)", OF _ s'])
    fix rec :: "('e \<Rightarrow> bool \<times> 'e) \<Rightarrow> u64 \<Rightarrow> u64 \<Rightarrow> ('e, 'z) drv_state_scheme \<Rightarrow> ('e, 'z) drv_state_scheme option"
      and connect mx b s s'
    assume IH: "\<And>connect mx b s s'. rec connect mx b s = Some s' \<Longrightarrow> \<exists>e. fst (connect e)"
      and step: "(case connect (ds_env s) of (ok, e) \<Rightarrow>
        if ok then Some (s\<lparr>ds_env := e\<rparr>)
        else rec connect mx (min mx (saturating_mul b 2)) (drv_emit (s\<lparr>ds_env := e\<rparr>) (Slept b))) = Some s'"
    show "\<exists>e. fst (connect e)"
    proof (cases "connect (ds_env s)")
      case (Pair ok e)
      then show ?thesis using step IH by (cases ok) (auto intro: exI [of _ "ds_env s"])
    qed
  qed
  with assms show False by blast
qed

text \<open>In the phase of a cycle that does not come back no event is enabled.\<close>

lemma stuck_in_cycle:
  assumes "poll_reach ops name htx mx sd st st'" and "po_phase st = InCycle"
  shows "st' = st"
  using assms
proof (induction rule: poll_reach.induct)
  case (step st st' ev st'')
  then show ?case by (cases ev) (auto split: if_splits)
qed simp

lemma stop_blocked:
  assumes "poll_reach ops name htx mx sd st st'" and "po_phase st = InCycle"
  shows "rd_stop_returns (rd_request_stop (rd\<lparr>rd_task := Some st'\<rparr>)) = None"
  using stuck_in_cycle [OF assms] assms(2) by (simp add: rd_stop_returns_def rd_request_stop_def)

section \<open>Properties\<close>

text \<open>While the cycles of a driver keep failing, the poll loop keeps running and waits before each retry: after
  \<open>n\<close> failures in a row the backoff is \<open>2^(n-1)\<close> seconds, capped at the maximum.\<close>

lemma poll_backoff_sequence:
  assumes "\<forall>i \<in> set inputs. \<forall>s. \<exists>s' e. op_cycle ops i s = Return s' e" and "1 \<le> mx"
    and "po_phase st = Idle" and "po_backoff st = 0"
  shows "\<exists>st'. run_rounds ops name htx mx shutdown inputs st = Some st' \<and> po_phase st' = Idle
    \<and> unat (po_backoff st') = (if inputs = [] then 0 else min (2 ^ (length inputs - 1)) (unat mx))"
proof -
  obtain st' where "run_rounds ops name htx mx shutdown inputs st = Some st'" "po_phase st' = Idle"
    "po_backoff st' = backoff_after mx (length inputs)"
    using failing_rounds [OF assms(1,3), of mx 0 name htx shutdown] assms(4) by auto
  then show ?thesis using unat_backoff_after [OF assms(2), of "length inputs - 1"] by (cases inputs) auto
qed

definition failing_ops :: "(unit, TagRegistry, string) driver_ops" where
  "failing_ops = \<lparr>op_cycle = (\<lambda>_ s. Return s ''down''), op_registry = (\<lambda>s. s), op_put_registry = (\<lambda>r _. r),
     op_now = (\<lambda>s. (0, s)), op_health = (\<lambda>_. Inr None), op_error_text = (\<lambda>e. e)\<rparr>"

lemma poll_backoff_sequence_example:
  "\<exists>st'. run_rounds failing_ops ''plc'' True 30 False (replicate 6 ())
      \<lparr>po_phase = Idle, po_backoff = 0, po_driver = example_registry, po_sent = []\<rparr> = Some st'
    \<and> unat (po_backoff st') = 30"
  using poll_backoff_sequence [of "replicate 6 ()" failing_ops 30
      "\<lparr>po_phase = Idle, po_backoff = 0, po_driver = example_registry, po_sent = []\<rparr>" "''plc''" True False]
  by (auto simp: failing_ops_def)

text \<open>In whatever order ticks, elapsed backoffs and shutdown requests reach the poller of a Modbus or a FINS
  driver, and whatever the device does, no defined tag is lost and every value keeps its configured
  type; the stale check included.\<close>

lemma pollers_keep_registry_typed:
  assumes "from_definitions clk defs = Inr r" and "d \<in> set defs"
  shows "(ds_registry (po_driver st) = r \<longrightarrow> poll_reach (modbus_ops p w io cr funcs cfg) name htx mx sd st st' \<longrightarrow>
      (\<exists>t. get_tag (ds_registry (po_driver st')) (td_id d) = Inr t \<and> data_type (tag_value t) = td_data_type d))
    \<and> (ds_registry (po_driver ft) = r \<longrightarrow> poll_reach (fins_ops p w fio cr fcfg gs) name htx mx sd ft ft' \<longrightarrow>
      (\<exists>t. get_tag (ds_registry (po_driver ft')) (td_id d) = Inr t \<and> data_type (tag_value t) = td_data_type d))"
proof -
  have typed: "\<exists>t. get_tag r' (td_id d) = Inr t \<and> data_type (tag_value t) = td_data_type d"
    if steps: "reg_step\<^sup>*\<^sup>* r r'" for r'
  proof -
    have wf: "reg_wf r'" "reg_definitions r' = reg_definitions r"
      using reg_steps_wf [OF steps from_definitions_wf [OF assms(1)]] by auto
    then have "reg_def r' (td_id d) = Some d" using from_definitions_tag(1) [OF assms] by (simp add: reg_def_def)
    with wf(1) show ?thesis unfolding reg_wf_def reg_typed_def get_tag_map by fastforce
  qed
  show ?thesis
    using typed modbus_poll.poll_reach_updates [of p w io cr funcs cfg name htx mx sd st st']
      fins_poll.poll_reach_updates [of p w fio cr fcfg gs name htx mx sd ft ft']
    by (auto simp: modbus_ops_def fins_ops_def)
qed

lemma pollers_keep_registry_typed_example:
  "\<exists>st' t. run_events (fins_ops Debug True (example_fins_io (\<lambda>_ n. of_nat n)) example_crates example_fins_config_a [])
      ''plc'' True 30 True [Tick [], Tick [], ShutdownSeen]
      \<lparr>po_phase = Idle, po_backoff = 0, po_driver = example_fins_state, po_sent = []\<rparr> = Some st'
    \<and> po_phase st' = Exited
    \<and> get_tag (ds_registry (po_driver st')) ''a'' = Inr t \<and> data_type (tag_value t) = TUInt16"
proof -
  let ?ops = "fins_ops Debug True (example_fins_io (\<lambda>_ n. of_nat n)) example_crates example_fins_config_a []"
  let ?st = "\<lparr>po_phase = Idle, po_backoff = 0, po_driver = example_fins_state, po_sent = []\<rparr>"
  have cyc: "op_cycle ?ops [] example_fins_state = Next example_fins_state"
    by (simp add: fins_ops_def fins_run_read_cycle_impl_def fins_ensure_conn_def example_fins_state_def
        fins_write_phase_def drain_def)
  have stale: "check_stale_tags ?ops ''plc'' example_fins_state = Next example_fins_state"
    by (simp add: check_stale_tags_def reg_all_definitions_sorted_def all_definitions_sorted_def fins_ops_def
        example_fins_state_def example_registry_def check_stale_tag_def example_definition_def TagDefinition_new_def)
  have "op_health ?ops example_fins_state = Inr None" by (simp add: fins_ops_def)
  then have run: "run_events ?ops ''plc'' True 30 True [Tick [], Tick [], ShutdownSeen] ?st = Some (?st\<lparr>po_phase := Exited\<rparr>)"
    by (simp add: run_cycle_def cyc after_success_def stale)
  have "from_definitions (\<lambda>_. 1) [example_definition] = Inr (ds_registry (po_driver ?st))"
    by (simp add: example_registry_eq example_fins_state_def)
  from pollers_keep_registry_typed [OF this, of example_definition] run_events_reach [OF run]
  show ?thesis unfolding example_definition_sel run by fastforce
qed

text \<open>C36: When a device accepts no connection, the first tick of a Modbus or FINS poller that has no connection and
  no queued write starts a cycle that never comes back.  The loop looks at the shutdown flag only
  between cycles, so from then on the task never exits and \<open>stop\<close> does not return.\<close>

theorem unreachable_device_blocks_stop:
  assumes "\<And>e. \<not> fst (io_connect io e)" and "\<And>e. \<not> fst (fio_connect fio e)"
    and "po_phase st = Idle" and "po_backoff st = 0" and "\<not> ds_conn (po_driver st)"
    and "po_phase ft = Idle" and "po_backoff ft = 0" and "\<not> ds_conn (po_driver ft)"
    and "poll_step (modbus_ops p w io cr funcs cfg) name htx mx sd (Tick []) st = Some st1"
    and "poll_step (fins_ops p w fio cr fcfg gs) name htx mx sd (Tick []) ft = Some ft1"
  shows "(poll_reach (modbus_ops p w io cr funcs cfg) name htx mx True st1 st2 \<longrightarrow>
      rd_stop_returns (rd_request_stop (rd\<lparr>rd_task := Some st2\<rparr>)) = None)
    \<and> (poll_reach (fins_ops p w fio cr fcfg gs) name htx mx True ft1 ft2 \<longrightarrow>
      rd_stop_returns (rd_request_stop (rd'\<lparr>rd_task := Some ft2\<rparr>)) = None)"
proof -
  have "run_read_cycle_impl p w io cr funcs cfg [] (po_driver st) = Diverges"
    using assms(5) by (simp add: run_read_cycle_impl_def write_phase_def drain_def ensure_client_def
        connect_with_backoff_def connect_loop_unreachable [OF assms(1)])
  then have "po_phase st1 = InCycle" using assms(3,4,9) by (auto simp: modbus_ops_def run_cycle_def)
  moreover have "fins_run_read_cycle_impl p w fio cr fcfg gs [] (po_driver ft) = Diverges"
    using assms(8) by (simp add: fins_run_read_cycle_impl_def fins_ensure_conn_def
        fins_connect_with_backoff_def connect_loop_unreachable [OF assms(2)])
  then have "po_phase ft1 = InCycle" using assms(6,7,10) by (auto simp: fins_ops_def run_cycle_def)
  ultimately show ?thesis by (auto intro: stop_blocked)
qed

definition unreachable_io :: "nat modbus_io" where
  "unreachable_io = (example_io (\<lambda>n. of_nat n))\<lparr>io_connect := (\<lambda>e. (False, e))\<rparr>"

definition unreachable_fio :: "nat fins_io" where
  "unreachable_fio = dead_fins_io\<lparr>fio_connect := (\<lambda>e. (False, e))\<rparr>"

theorem unreachable_device_blocks_stop_witness:
  "\<exists>st1. poll_step (modbus_ops Debug True unreachable_io example_crates [] example_config_a) ''plc'' True 30 False (Tick [])
      \<lparr>po_phase = Idle, po_backoff = 0, po_driver = example_state\<lparr>ds_conn := False\<rparr>, po_sent = []\<rparr> = Some st1
    \<and> rd_stop_returns (rd_request_stop ((RuntimeDriver_new ''plc'' 100)\<lparr>rd_task := Some st1\<rparr>)) = None"
proof -
  let ?st = "\<lparr>po_phase = Idle, po_backoff = 0, po_driver = example_state\<lparr>ds_conn := False\<rparr>, po_sent = []\<rparr>"
  let ?ft = "\<lparr>po_phase = Idle, po_backoff = 0, po_driver = \<lparr>ds_registry = example_registry, ds_conn = False,
    ds_health = True, ds_env = 0, ds_out = [], fs_sid = 1\<rparr> :: nat fins_state, po_sent = []\<rparr>"
  let ?m = "modbus_ops Debug True unreachable_io example_crates [] example_config_a"
  let ?f = "fins_ops Debug True unreachable_fio example_crates example_fins_config_a []"
  obtain st1 where st1: "poll_step ?m ''plc'' True 30 False (Tick []) ?st = Some st1" by simp
  obtain ft1 where ft1: "poll_step ?f ''plc'' True 30 False (Tick []) ?ft = Some ft1" by simp
  have un: "\<not> fst (io_connect unreachable_io e)" "\<not> fst (fio_connect unreachable_fio e)" for e
    by (simp_all add: unreachable_io_def unreachable_fio_def)
  have "poll_reach ?m ''plc'' True 30 True st1 st1 \<longrightarrow>
      rd_stop_returns (rd_request_stop ((RuntimeDriver_new ''plc'' 100)\<lparr>rd_task := Some st1\<rparr>)) = None"
    by (rule unreachable_device_blocks_stop [OF un _ _ _ _ _ _ st1 ft1, THEN conjunct1]) simp_all
  with st1 show ?thesis using poll_reach.start by blast
qed

text \<open>C33: The stale check of a poller changes a tag exactly when the tag belongs to the poller's PLC, its
  definition has a timeout, it is not yet marked, and its source timestamp lies in the future or further
  back than the timeout when the clock is read; then it keeps its value and becomes \<open>Stale\<close>.  \<open>P\<close> is any
  property of the clock's readings.\<close>

theorem stale_check_marks_due_tags:
  assumes "reg_wf (ds_registry s)" and "check_stale_tags (modbus_ops p w io cr funcs cfg) plc s = Next s'"
    and "\<And>e. P (fst (io_now io e))"
    and "reg_def (ds_registry s) tid = Some d" and "reg_map (ds_registry s) tid = Some t"
  shows "\<exists>now now'. P now \<and> P now' \<and> reg_map (ds_registry s') tid =
    Some (if is_due plc now d t then tag_set_quality now' t Stale else t)"
proof -
  have sel: "op_registry (modbus_ops p w io cr funcs cfg) = ds_registry"
    "fst (op_now (modbus_ops p w io cr funcs cfg) s) = fst (io_now io (ds_env s))" for s
    by (simp_all add: modbus_ops_def case_prod_beta)
  show ?thesis
    using modbus_poll.check_stale_tags_map [of p w io cr funcs cfg s plc s' P tid d t] assms
    unfolding sel stale_outcome_def by blast
qed

definition example_stale_state :: "nat drv_state" where
  "example_stale_state = example_state\<lparr>ds_registry := example_registry\<lparr>reg_definitions :=
     [(''a'', example_definition\<lparr>td_stale_after_ms := Some 5\<rparr>)]\<rparr>\<rparr>"

theorem stale_check_marks_due_tags_witness:
  "\<exists>s' now'. check_stale_tags (modbus_ops Debug True ((example_io (\<lambda>n. of_nat n))\<lparr>io_now := (\<lambda>e. (10000000, e))\<rparr>)
      example_crates [] example_config_a) ''plc'' example_stale_state = Next s'
    \<and> reg_map (ds_registry s') ''a'' = Some (tag_set_quality now' (Tag_new 1 (VUInt16 0)) Stale)"
proof -
  let ?io = "(example_io (\<lambda>n. of_nat n))\<lparr>io_now := (\<lambda>e. (10000000, e))\<rparr>" and ?s = example_stale_state
  let ?ops = "modbus_ops Debug True ?io example_crates [] example_config_a"
  let ?d = "example_definition\<lparr>td_stale_after_ms := Some 5\<rparr>" and ?t = "Tag_new 1 (VUInt16 0)"
  have defs: "reg_definitions (ds_registry ?s) = [(''a'', ?d)]" "reg_tags (ds_registry ?s) = reg_tags example_registry"
    by (simp_all add: example_stale_state_def)
  have map: "reg_def (ds_registry ?s) = [''a'' \<mapsto> ?d]" "reg_map (ds_registry ?s) = [''a'' \<mapsto> ?t]"
    by (auto simp: reg_def_def reg_map_def store_map_def defs example_registry_def fun_eq_iff)
  have d: "td_id ?d = ''a''" "td_data_type ?d = TUInt16" "td_plc_name ?d = ''plc''" "td_stale_after_ms ?d = Some 5"
    by (simp_all add: example_definition_def TagDefinition_new_def)
  have wf: "reg_wf (ds_registry ?s)"
    using example_registry_wf unfolding reg_wf_def reg_typed_def map defs defstore_wf_def
    by (auto simp: d Tag_new_def)
  have due: "is_due ''plc'' 10000000 ?d ?t"
    by (simp add: is_due_def d stale_timeout_def is_stale_def Tag_new_def)
  have "check_stale_tag ?ops ''plc'' ?s ?d \<noteq> Panicked x" for x
    by (simp add: check_stale_tag_def example_definition_def TagDefinition_new_def stale_timeout_def
        case_prod_beta split: sum.split)
  then obtain s' where "check_stale_tag ?ops ''plc'' ?s ?d = Next s'"
    using modbus_poll.check_stale_tag_cases by blast
  then have s': "check_stale_tags ?ops ''plc'' ?s = Next s'"
    by (simp add: check_stale_tags_def reg_all_definitions_sorted_def all_definitions_sorted_def)
      (simp add: modbus_ops_def defs)
  from stale_check_marks_due_tags [where P = "\<lambda>n. n = 10000000", OF wf s'] due s' map show ?thesis by auto
qed

end
