(* ===== verification/Runtime_Write.thy ===== *)
theory Runtime_Write
  imports Modbus_Cycle Fins_Cycle Opcua_Config
begin

text \<open>
  \<open>src/runtime/src/write_handler.rs\<close>: the runtime's write handler, which validates a client's write
  against the registry, routes it to the driver of the tag and waits for the driver's confirmation; and
  \<open>submit_write\<close> of the two drivers.  The channels are known by the outcomes of their operations: an
  enqueueing succeeds, finds the queue closed (with the channel library's error text) or times out; a confirmation arrives, is dropped or times
  out.
\<close>

datatype send_outcome = Enqueued | QueueClosed string | EnqueueTimedOut

datatype confirm_outcome = Answered "string + unit" | ReplyDropped | ConfirmTimedOut

text \<open>A driver's queue is named by a number.\<close>

datatype DriverSender = FinsSender nat | ModbusSender nat

record RuntimeWriteHandler =
  wh_routing :: "(string \<times> DriverSender) list"
  wh_confirm_timeout_ms :: u64
  wh_driver_send_timeout_ms :: u64

definition RuntimeWriteHandler_new :: "u64 \<Rightarrow> RuntimeWriteHandler" where
  "RuntimeWriteHandler_new confirm_timeout =
     \<lparr>wh_routing = [], wh_confirm_timeout_ms = confirm_timeout, wh_driver_send_timeout_ms = 2000\<rparr>"

definition with_driver_send_timeout :: "RuntimeWriteHandler \<Rightarrow> u64 \<Rightarrow> RuntimeWriteHandler" where
  "with_driver_send_timeout h timeout = h\<lparr>wh_driver_send_timeout_ms := timeout\<rparr>"

definition add_route_for_fins :: "RuntimeWriteHandler \<Rightarrow> string \<Rightarrow> nat \<Rightarrow> RuntimeWriteHandler" where
  "add_route_for_fins h tid queue = h\<lparr>wh_routing := AList.update tid (FinsSender queue) (wh_routing h)\<rparr>"

definition add_route_for_modbus :: "RuntimeWriteHandler \<Rightarrow> string \<Rightarrow> nat \<Rightarrow> RuntimeWriteHandler" where
  "add_route_for_modbus h tid queue = h\<lparr>wh_routing := AList.update tid (ModbusSender queue) (wh_routing h)\<rparr>"

text \<open>The \<open>matches!\<close> over the pair of values.\<close>

definition same_kind :: "TagValue \<Rightarrow> TagValue \<Rightarrow> bool" where
  "same_kind v w =
     (case v of
        VBool _ \<Rightarrow> (case w of VBool _ \<Rightarrow> True | _ \<Rightarrow> False)
      | VInt16 _ \<Rightarrow> (case w of VInt16 _ \<Rightarrow> True | _ \<Rightarrow> False)
      | VUInt16 _ \<Rightarrow> (case w of VUInt16 _ \<Rightarrow> True | _ \<Rightarrow> False)
      | VInt32 _ \<Rightarrow> (case w of VInt32 _ \<Rightarrow> True | _ \<Rightarrow> False)
      | VUInt32 _ \<Rightarrow> (case w of VUInt32 _ \<Rightarrow> True | _ \<Rightarrow> False)
      | VInt64 _ \<Rightarrow> (case w of VInt64 _ \<Rightarrow> True | _ \<Rightarrow> False)
      | VUInt64 _ \<Rightarrow> (case w of VUInt64 _ \<Rightarrow> True | _ \<Rightarrow> False)
      | VFloat _ \<Rightarrow> (case w of VFloat _ \<Rightarrow> True | _ \<Rightarrow> False)
      | VDouble _ \<Rightarrow> (case w of VDouble _ \<Rightarrow> True | _ \<Rightarrow> False)
      | VString _ \<Rightarrow> (case w of VString _ \<Rightarrow> True | _ \<Rightarrow> False)
      | VDateTime _ \<Rightarrow> (case w of VDateTime _ \<Rightarrow> True | _ \<Rightarrow> False)
      | VByteString _ \<Rightarrow> (case w of VByteString _ \<Rightarrow> True | _ \<Rightarrow> False))"

definition rt_validate :: "TagRegistry \<Rightarrow> string \<Rightarrow> TagValue \<Rightarrow> ServerError + unit" where
  "rt_validate r tid v =
     (case store_get (reg_tags r) tid of
        Inl e \<Rightarrow> Inl (SrvOther (''Runtime tag not found '' @ tid @ '': '' @ CoreError_display e))
      | Inr tag \<Rightarrow>
          if \<not> same_kind (tag_value tag) v then Inl (SrvOther (''Type mismatch for tag '' @ tid))
          else case get_definition r tid of
              Inl _ \<Rightarrow> Inl (SrvOther (''Tag definition not found for '' @ tid))
            | Inr d \<Rightarrow>
                if \<not> td_writable d then Inl (SrvOther (''Tag '' @ tid @ '' is not writable'')) else Inr ())"

definition protocol_name :: "DriverSender \<Rightarrow> string" where
  "protocol_name sender = (case sender of FinsSender _ \<Rightarrow> ''FINS'' | ModbusSender _ \<Rightarrow> ''Modbus'')"

definition rt_await_confirm :: "confirm_outcome \<Rightarrow> ServerError + unit" where
  "rt_await_confirm confirm =
     (case confirm of
        Answered (Inr u) \<Rightarrow> Inr u
      | Answered (Inl err_msg) \<Rightarrow> Inl (SrvOther (''Driver reported write failure: '' @ err_msg))
      | ReplyDropped \<Rightarrow> Inl (SrvOther ''Write confirmation channel closed'')
      | ConfirmTimedOut \<Rightarrow> Inl (SrvOther ''Write confirmation timed out''))"

text \<open>The answer to the client and what was put into which queue.  \<open>tx\<close> names the reply channel,
  \<open>send\<close> and \<open>confirm\<close> are the outcomes of the channel operations.\<close>

definition rt_handle_write ::
  "RuntimeWriteHandler \<Rightarrow> TagRegistry \<Rightarrow> nat \<Rightarrow> send_outcome \<Rightarrow> confirm_outcome \<Rightarrow> string \<Rightarrow> TagValue
   \<Rightarrow> (ServerError + unit) \<times> (DriverSender \<times> WriteRequest) option" where
  "rt_handle_write h r tx send confirm tid v =
     (case rt_validate r tid v of
        Inl e \<Rightarrow> (Inl e, None)
      | Inr _ \<Rightarrow>
          (case map_of (wh_routing h) tid of
             None \<Rightarrow> (Inl (SrvOther (''No driver route for tag '' @ tid)), None)
           | Some sender \<Rightarrow>
               let drv_req = \<lparr>wr_tag_id = tid, wr_value = v, wr_reply = Some tx\<rparr>
               in case send of
                    QueueClosed e \<Rightarrow>
                      (Inl (SrvOther (''Failed to enqueue '' @ protocol_name sender @ '' write: '' @ e)), None)
                  | EnqueueTimedOut \<Rightarrow>
                      (Inl (SrvOther (''Timed out enqueuing '' @ protocol_name sender @ '' write'')), None)
                  | Enqueued \<Rightarrow>
                      (rt_await_confirm confirm, Some (sender, drv_req))))"

section \<open>Submitting to a driver directly\<close>

text \<open>\<open>submit_write\<close> of both drivers; sending waits for room in the queue without a bound, so it enqueues the
  request or finds the queue closed (with the channel library's error text).\<close>

definition submit_write ::
  "nat \<Rightarrow> string option \<Rightarrow> confirm_outcome \<Rightarrow> string \<Rightarrow> TagValue \<Rightarrow> (string + unit) \<times> WriteRequest option" where
  "submit_write tx closed confirm tid v =
     (let req = \<lparr>wr_tag_id = tid, wr_value = v, wr_reply = Some tx\<rparr>
      in case closed of
           Some e \<Rightarrow> (Inl e, None)
         | None \<Rightarrow>
             ((case confirm of
                 Answered (Inr u) \<Rightarrow> Inr u
               | Answered (Inl msg) \<Rightarrow> Inl msg
               | ReplyDropped \<Rightarrow> Inl ''reply channel closed''
               | ConfirmTimedOut \<Rightarrow> Inl ''write confirmation timed out''),
              Some req))"

section \<open>What reaches a driver\<close>

lemma same_kind_data_type: "same_kind v w \<longleftrightarrow> data_type v = data_type w"
  by (cases v; cases w) (simp_all add: same_kind_def)

lemma rt_validate_iff:
  "rt_validate r tid v = Inr () \<longleftrightarrow>
     (\<exists>t d. reg_map r tid = Some t \<and> data_type (tag_value t) = data_type v
        \<and> reg_def r tid = Some d \<and> td_writable d)"
proof -
  have "store_get (reg_tags r) tid = (case reg_map r tid of None \<Rightarrow> Inl (TagNotFound tid) | Some t \<Rightarrow> Inr t)"
    using get_tag_map [of r tid] by (simp add: get_tag_def)
  then show ?thesis
    by (auto simp: rt_validate_def same_kind_data_type get_definition_def_map split: option.splits)
qed

lemma rt_await_confirm_iff: "rt_await_confirm confirm = Inr () \<longleftrightarrow> confirm = Answered (Inr ())"
  by (simp add: rt_await_confirm_def split: confirm_outcome.split sum.split)

lemma rt_handle_write_cases:
  obtains e where "rt_handle_write h r tx send confirm tid v = (Inl e, None)"
      "rt_validate r tid v \<noteq> Inr () \<or> map_of (wh_routing h) tid = None \<or> send \<noteq> Enqueued"
  | q where "rt_validate r tid v = Inr ()" "map_of (wh_routing h) tid = Some q" "send = Enqueued"
      "rt_handle_write h r tx send confirm tid v =
        (rt_await_confirm confirm, Some (q, \<lparr>wr_tag_id = tid, wr_value = v, wr_reply = Some tx\<rparr>))"
proof (cases "rt_validate r tid v")
  case (Inr u)
  then show thesis
    using that by (cases "map_of (wh_routing h) tid"; cases send) (auto simp: rt_handle_write_def Let_def)
qed (use that in \<open>simp add: rt_handle_write_def\<close>)

lemma rt_handle_write_sends:
  "snd (rt_handle_write h r tx send confirm tid v) = Some (q, req) \<longleftrightarrow>
     rt_validate r tid v = Inr () \<and> map_of (wh_routing h) tid = Some q \<and> send = Enqueued
     \<and> req = \<lparr>wr_tag_id = tid, wr_value = v, wr_reply = Some tx\<rparr>"
  by (rule rt_handle_write_cases [of h r tx send confirm tid v]) auto

lemma rt_handle_write_ok:
  "fst (rt_handle_write h r tx send confirm tid v) = Inr () \<longleftrightarrow>
     snd (rt_handle_write h r tx send confirm tid v) \<noteq> None \<and> confirm = Answered (Inr ())"
  by (rule rt_handle_write_cases [of h r tx send confirm tid v]) (auto simp: rt_await_confirm_iff)

text \<open>Routes: the last one added for a tag counts.\<close>

lemma map_of_routes [simp]:
  "map_of (wh_routing (add_route_for_fins h tid q)) = (map_of (wh_routing h))(tid \<mapsto> FinsSender q)"
  "map_of (wh_routing (add_route_for_modbus h tid q)) = (map_of (wh_routing h))(tid \<mapsto> ModbusSender q)"
  by (simp_all add: add_route_for_fins_def add_route_for_modbus_def AList.update_conv')

section \<open>Properties\<close>

text \<open>C21: A client's write reaches a driver exactly when its tag exists with a current value of the same type, is
  writable and has a route, and the driver's queue takes it; it then carries the tag, the value and the
  reply channel, to the queue of the route.  The client gets \<open>Ok\<close> exactly when the write was enqueued and
  the driver confirmed it.\<close>

theorem rt_handle_write_spec:
  "(snd (rt_handle_write h r tx send confirm tid v) = Some (q, req) \<longleftrightarrow>
     (\<exists>t d. reg_map r tid = Some t \<and> data_type (tag_value t) = data_type v
        \<and> reg_def r tid = Some d \<and> td_writable d)
     \<and> map_of (wh_routing h) tid = Some q \<and> send = Enqueued
     \<and> req = with_reply (WriteRequest_new tid v) tx)
   \<and> (fst (rt_handle_write h r tx send confirm tid v) = Inr () \<longleftrightarrow>
     snd (rt_handle_write h r tx send confirm tid v) \<noteq> None \<and> confirm = Answered (Inr ()))"
  unfolding rt_handle_write_sends rt_handle_write_ok rt_validate_iff
  by (simp add: with_reply_def WriteRequest_new_def)

end
