(* ===== verification/Opcua_Source.thy ===== *)
theory Opcua_Source
  imports Registry Opcua_Config
begin

text \<open>
  The data source of a variable node (\<open>TagDataSource\<close> of \<open>src/opcua-server/src/native.rs\<close>): the
  conversions between tag values and OPC UA variants, the read callback and the write callback.

  The OPC UA library is third-party code and a parameter: a record \<open>ua\<close> of its scalar constructors
  and accessors over its own types of variants (\<open>'v\<close>) and date-times (\<open>'dt\<close>).  What the conversions
  rely on is \<open>ua_laws\<close>: an accessor gives back what the constructor of the same type was given, and no
  variant is a scalar of two types.
\<close>

section \<open>The OPC UA library\<close>

record ('v, 'dt) ua =
  ua_boolean :: "bool \<Rightarrow> 'v"
  ua_int16 :: "i16 \<Rightarrow> 'v"
  ua_uint16 :: "u16 \<Rightarrow> 'v"
  ua_int32 :: "i32 \<Rightarrow> 'v"
  ua_uint32 :: "u32 \<Rightarrow> 'v"
  ua_int64 :: "i64 \<Rightarrow> 'v"
  ua_uint64 :: "u64 \<Rightarrow> 'v"
  ua_float :: "f32 \<Rightarrow> 'v"
  ua_double :: "f64 \<Rightarrow> 'v"
  ua_string :: "string \<Rightarrow> 'v option"
  ua_datetime :: "'dt \<Rightarrow> 'v"
  ua_bytestring :: "u8 list \<Rightarrow> 'v"
  to_boolean :: "'v \<Rightarrow> bool option"
  to_int16 :: "'v \<Rightarrow> i16 option"
  to_uint16 :: "'v \<Rightarrow> u16 option"
  to_int32 :: "'v \<Rightarrow> i32 option"
  to_uint32 :: "'v \<Rightarrow> u32 option"
  to_int64 :: "'v \<Rightarrow> i64 option"
  to_uint64 :: "'v \<Rightarrow> u64 option"
  to_float :: "'v \<Rightarrow> f32 option"
  to_double :: "'v \<Rightarrow> f64 option"
  to_ua_string :: "'v \<Rightarrow> string option option"
  to_datetime :: "'v \<Rightarrow> 'dt option"
  to_bytestring :: "'v \<Rightarrow> u8 list option option"
  try_from_unix_timestamp_nanos :: "int \<Rightarrow> 'dt option"
  as_unix_timestamp_nanos :: "'dt \<Rightarrow> int"

text \<open>\<open>to_scalar::<T>()\<close> succeeds for the type \<open>T\<close>.\<close>

definition is_scalar :: "('v, 'dt) ua \<Rightarrow> TagDataType \<Rightarrow> 'v \<Rightarrow> bool" where
  "is_scalar ua ty var =
     (case ty of
        TBool \<Rightarrow> to_boolean ua var \<noteq> None | TInt16 \<Rightarrow> to_int16 ua var \<noteq> None
      | TUInt16 \<Rightarrow> to_uint16 ua var \<noteq> None | TInt32 \<Rightarrow> to_int32 ua var \<noteq> None
      | TUInt32 \<Rightarrow> to_uint32 ua var \<noteq> None | TInt64 \<Rightarrow> to_int64 ua var \<noteq> None
      | TUInt64 \<Rightarrow> to_uint64 ua var \<noteq> None | TFloat \<Rightarrow> to_float ua var \<noteq> None
      | TDouble \<Rightarrow> to_double ua var \<noteq> None | TString \<Rightarrow> to_ua_string ua var \<noteq> None
      | TDateTime \<Rightarrow> to_datetime ua var \<noteq> None | TByteString \<Rightarrow> to_bytestring ua var \<noteq> None)"

text \<open>A string is refused when it has a NUL in it.  A date-time counts steps of 100 nanoseconds; every
  instant whose nanoseconds fit an \<open>i64\<close> has one, less than a step away.\<close>

definition ua_laws :: "('v, 'dt) ua \<Rightarrow> bool" where
  "ua_laws ua \<longleftrightarrow>
     (\<forall>b. to_boolean ua (ua_boolean ua b) = Some b)
     \<and> (\<forall>w. to_int16 ua (ua_int16 ua w) = Some w) \<and> (\<forall>w. to_uint16 ua (ua_uint16 ua w) = Some w)
     \<and> (\<forall>w. to_int32 ua (ua_int32 ua w) = Some w) \<and> (\<forall>w. to_uint32 ua (ua_uint32 ua w) = Some w)
     \<and> (\<forall>w. to_int64 ua (ua_int64 ua w) = Some w) \<and> (\<forall>w. to_uint64 ua (ua_uint64 ua w) = Some w)
     \<and> (\<forall>w. to_float ua (ua_float ua w) = Some w) \<and> (\<forall>w. to_double ua (ua_double ua w) = Some w)
     \<and> (\<forall>s. if CHR 0x00 \<in> set s then ua_string ua s = None
            else \<exists>var. ua_string ua s = Some var \<and> to_ua_string ua var = Some (Some s))
     \<and> (\<forall>d. to_datetime ua (ua_datetime ua d) = Some d)
     \<and> (\<forall>bs. to_bytestring ua (ua_bytestring ua bs) = Some (Some bs))
     \<and> (\<forall>n. - (2 ^ 63) \<le> n \<and> n < 2 ^ 63 \<longrightarrow>
          (\<exists>d. try_from_unix_timestamp_nanos ua n = Some d \<and> \<bar>as_unix_timestamp_nanos ua d - n\<bar> < 100
             \<and> (100 dvd n \<longrightarrow> as_unix_timestamp_nanos ua d = n)))
     \<and> (\<forall>ty ty' var. is_scalar ua ty var \<and> is_scalar ua ty' var \<longrightarrow> ty = ty')"

text \<open>The status codes that the data source uses.\<close>

datatype StatusCode = GOOD | UNCERTAINSUBNORMAL | BADUNEXPECTEDERROR | BADINTERNALERROR

record ('v, 'dt) data_value =
  dv_value :: "'v option"
  dv_status :: StatusCode
  dv_source_timestamp :: 'dt
  dv_server_timestamp :: 'dt

section \<open>Conversions\<close>

definition tagquality_to_ua_status :: "TagQuality \<Rightarrow> StatusCode" where
  "tagquality_to_ua_status quality =
     (case quality of
        Good \<Rightarrow> GOOD
      | Initializing \<Rightarrow> UNCERTAINSUBNORMAL
      | Stale \<Rightarrow> UNCERTAINSUBNORMAL
      | CommLost \<Rightarrow> BADUNEXPECTEDERROR
      | ConfigError \<Rightarrow> BADUNEXPECTEDERROR
      | TypeMismatch \<Rightarrow> BADUNEXPECTEDERROR
      | Substitute \<Rightarrow> UNCERTAINSUBNORMAL
      | QError _ \<Rightarrow> BADUNEXPECTEDERROR)"

definition tagvalue_to_variant :: "('v, 'dt) ua \<Rightarrow> crates \<Rightarrow> TagValue \<Rightarrow> 'v option" where
  "tagvalue_to_variant ua cr value =
     (case value of
        VBool b \<Rightarrow> Some (ua_boolean ua b)
      | VInt16 v \<Rightarrow> Some (ua_int16 ua v)
      | VUInt16 v \<Rightarrow> Some (ua_uint16 ua v)
      | VInt32 v \<Rightarrow> Some (ua_int32 ua v)
      | VUInt32 v \<Rightarrow> Some (ua_uint32 ua v)
      | VInt64 v \<Rightarrow> Some (ua_int64 ua v)
      | VUInt64 v \<Rightarrow> Some (ua_uint64 ua v)
      | VFloat v \<Rightarrow> Some (ua_float ua v)
      | VDouble v \<Rightarrow> Some (ua_double ua v)
      | VString s \<Rightarrow> ua_string ua s
      | VDateTime dt \<Rightarrow>
          (case timestamp_nanos_opt cr dt of
             None \<Rightarrow> None
           | Some nanos \<Rightarrow> map_option (ua_datetime ua) (try_from_unix_timestamp_nanos ua nanos))
      | VByteString b \<Rightarrow> Some (ua_bytestring ua b))"

text \<open>The inner \<open>unwrap\<close> panics (\<open>None\<close>) when the library cannot represent the epoch.\<close>

definition chrono_to_ua_dt :: "('v, 'dt) ua \<Rightarrow> crates \<Rightarrow> datetime \<Rightarrow> 'dt option" where
  "chrono_to_ua_dt ua cr dt =
     (let nanos = (case timestamp_nanos_opt cr dt of None \<Rightarrow> 0 | Some n \<Rightarrow> n)
      in case try_from_unix_timestamp_nanos ua nanos of
           Some d \<Rightarrow> Some d
         | None \<Rightarrow> try_from_unix_timestamp_nanos ua 0)"

definition expected_name :: "TagDataType \<Rightarrow> string" where
  "expected_name ty =
     (case ty of
        TBool \<Rightarrow> ''Boolean'' | TInt16 \<Rightarrow> ''Int16'' | TUInt16 \<Rightarrow> ''UInt16'' | TInt32 \<Rightarrow> ''Int32''
      | TUInt32 \<Rightarrow> ''UInt32'' | TInt64 \<Rightarrow> ''Int64'' | TUInt64 \<Rightarrow> ''UInt64'' | TFloat \<Rightarrow> ''Float''
      | TDouble \<Rightarrow> ''Double'' | TString \<Rightarrow> ''String'' | TDateTime \<Rightarrow> ''DateTime'' | TByteString \<Rightarrow> ''ByteString'')"

text \<open>The count of nanoseconds is an \<open>i128\<close>; \<open>as i64\<close> keeps its low 64 bits.\<close>

definition nanos_as_i64 :: "int \<Rightarrow> int" where
  "nanos_as_i64 n = sint (word_of_int n :: i64)"

definition variant_scalar :: "('v, 'dt) ua \<Rightarrow> crates \<Rightarrow> 'v \<Rightarrow> TagDataType \<Rightarrow> TagValue option" where
  "variant_scalar ua cr var expected =
     (case expected of
        TBool \<Rightarrow> map_option VBool (to_boolean ua var)
      | TInt16 \<Rightarrow> map_option VInt16 (to_int16 ua var)
      | TUInt16 \<Rightarrow> map_option VUInt16 (to_uint16 ua var)
      | TInt32 \<Rightarrow> map_option VInt32 (to_int32 ua var)
      | TUInt32 \<Rightarrow> map_option VUInt32 (to_uint32 ua var)
      | TInt64 \<Rightarrow> map_option VInt64 (to_int64 ua var)
      | TUInt64 \<Rightarrow> map_option VUInt64 (to_uint64 ua var)
      | TFloat \<Rightarrow> map_option VFloat (to_float ua var)
      | TDouble \<Rightarrow> map_option VDouble (to_double ua var)
      | TString \<Rightarrow> map_option (\<lambda>s. VString (case s of None \<Rightarrow> '''' | Some t \<Rightarrow> t)) (to_ua_string ua var)
      | TDateTime \<Rightarrow>
          map_option (\<lambda>dt. VDateTime (from_timestamp_nanos cr (nanos_as_i64 (as_unix_timestamp_nanos ua dt))))
            (to_datetime ua var)
      | TByteString \<Rightarrow>
          map_option (\<lambda>bs. VByteString (case bs of None \<Rightarrow> [] | Some b \<Rightarrow> b)) (to_bytestring ua var))"

definition variant_to_tagvalue ::
  "('v, 'dt) ua \<Rightarrow> crates \<Rightarrow> 'v \<Rightarrow> TagDataType \<Rightarrow> string + TagValue" where
  "variant_to_tagvalue ua cr var expected =
     (case variant_scalar ua cr var expected of
        None \<Rightarrow> Inl (''Expected '' @ expected_name expected)
      | Some v \<Rightarrow> Inr v)"

section \<open>The data source\<close>

record BridgeWrite =
  bw_tag_id :: string
  bw_value :: TagValue
  bw_reply :: "nat option"

record TagDataSource =
  src_tag_id :: string
  src_write_mode :: WriteMode
  src_confirm_timeout_ms :: u64

definition TagDataSource_new :: "string \<Rightarrow> WriteMode \<Rightarrow> u64 \<Rightarrow> TagDataSource" where
  "TagDataSource_new tid mode timeout =
     \<lparr>src_tag_id = tid, src_write_mode = mode, src_confirm_timeout_ms = timeout\<rparr>"

text \<open>\<open>read\<close>: the value to show or the status of the failure; \<open>None\<close> is a panic.\<close>

definition source_read ::
  "('v, 'dt) ua \<Rightarrow> crates \<Rightarrow> TagRegistry \<Rightarrow> TagDataSource \<Rightarrow> (StatusCode + ('v, 'dt) data_value) option" where
  "source_read ua cr r src =
     (case get_tag r (src_tag_id src) of
        Inl _ \<Rightarrow> Some (Inl BADINTERNALERROR)
      | Inr tag \<Rightarrow>
          (case tagvalue_to_variant ua cr (tag_value tag) of
             None \<Rightarrow> Some (Inl BADINTERNALERROR)
           | Some var \<Rightarrow>
               let status =
                     (if tag_quality tag = Initializing then GOOD else tagquality_to_ua_status (tag_quality tag))
               in case chrono_to_ua_dt ua cr (source_timestamp tag) of
                    None \<Rightarrow> None
                  | Some source_ts \<Rightarrow>
                      (case chrono_to_ua_dt ua cr (server_timestamp tag) of
                         None \<Rightarrow> None
                       | Some server_ts \<Rightarrow>
                           Some (Inr \<lparr>dv_value = Some var, dv_status = status,
                             dv_source_timestamp = source_ts, dv_server_timestamp = server_ts\<rparr>))))"

text \<open>\<open>write\<close>: the status for the client and the write put into the bridge channel.  \<open>tx\<close> names the reply
  channel, \<open>alive\<close> tells whether the bridge still receives, \<open>confirm\<close> is what \<open>recv_timeout\<close> gives.\<close>

datatype recv_outcome = Received "string + unit" | RecvTimeout | RecvDisconnected

definition source_await :: "recv_outcome \<Rightarrow> StatusCode + unit" where
  "source_await confirm =
     (case confirm of
        Received (Inr u) \<Rightarrow> Inr u
      | Received (Inl _) \<Rightarrow> Inl BADINTERNALERROR
      | RecvTimeout \<Rightarrow> Inl BADINTERNALERROR
      | RecvDisconnected \<Rightarrow> Inl BADINTERNALERROR)"

definition source_write ::
  "('v, 'dt) ua \<Rightarrow> crates \<Rightarrow> TagRegistry \<Rightarrow> TagDataSource \<Rightarrow> nat \<Rightarrow> bool \<Rightarrow> recv_outcome \<Rightarrow> 'v option
   \<Rightarrow> (StatusCode + unit) \<times> BridgeWrite option" where
  "source_write ua cr r src tx alive confirm written =
     (case written of
        None \<Rightarrow> (Inl BADINTERNALERROR, None)
      | Some var \<Rightarrow>
          (case get_definition r (src_tag_id src) of
             Inl _ \<Rightarrow> (Inl BADINTERNALERROR, None)
           | Inr d \<Rightarrow>
               (case variant_to_tagvalue ua cr var (td_data_type d) of
                  Inl _ \<Rightarrow> (Inl BADINTERNALERROR, None)
                | Inr v \<Rightarrow>
                    let bridge = \<lparr>bw_tag_id = src_tag_id src, bw_value = v,
                          bw_reply = (if src_write_mode src = ConfirmedAck then Some tx else None)\<rparr>
                    in if \<not> alive then (Inl BADINTERNALERROR, None)
                       else if src_write_mode src = QueuedAck then (Inr (), Some bridge)
                       else (source_await confirm, Some bridge))))"

section \<open>Lemmas\<close>

text \<open>Values that OPC UA can carry without loss.\<close>

definition ua_exact :: "TagValue \<Rightarrow> bool" where
  "ua_exact v =
     (case v of
        VString s \<Rightarrow> CHR 0x00 \<notin> set s
      | VDateTime dt \<Rightarrow> 100 dvd dt \<and> - (2 ^ 63) \<le> dt \<and> dt < 2 ^ 63
      | _ \<Rightarrow> True)"

lemma nanos_as_i64_id: "- (2 ^ 63) \<le> n \<Longrightarrow> n < 2 ^ 63 \<Longrightarrow> nanos_as_i64 n = n"
  by (simp add: nanos_as_i64_def sint_sbintrunc' signed_take_bit_int_eq_self)

lemma is_scalar_iff: "is_scalar ua ty var \<longleftrightarrow> variant_scalar ua cr var ty \<noteq> None"
  by (cases ty) (simp_all add: is_scalar_def variant_scalar_def)

lemma variant_scalar_type: "variant_scalar ua cr var ty = Some v \<Longrightarrow> data_type v = ty"
  by (cases ty) (auto simp: variant_scalar_def)

lemma variant_scalar_unique:
  assumes "ua_laws ua" and "variant_scalar ua cr var ty = Some v"
  shows "variant_scalar ua cr var ty' = (if ty' = ty then Some v else None)"
proof (cases "variant_scalar ua cr var ty'")
  case (Some w)
  then have "is_scalar ua ty' var" "is_scalar ua ty var" using assms(2) by (simp_all add: is_scalar_iff [of ua _ var cr])
  with assms(1) have "ty' = ty" unfolding ua_laws_def by blast
  then show ?thesis using assms(2) by simp
qed (use assms(2) in auto)

lemma variant_exact:
  assumes "ua_laws ua" and "nanos_laws cr" and "ua_exact v"
  obtains var where "tagvalue_to_variant ua cr v = Some var"
    and "variant_scalar ua cr var (data_type v) = Some v"
proof (cases v)
  case (VString s)
  then obtain var where "ua_string ua s = Some var" "to_ua_string ua var = Some (Some s)"
    using assms(1,3) unfolding ua_laws_def ua_exact_def by (auto split: if_splits)
  then show thesis using that VString by (simp add: tagvalue_to_variant_def variant_scalar_def)
next
  case (VDateTime dt)
  then have dt: "100 dvd dt" "- (2 ^ 63) \<le> dt" "dt < 2 ^ 63" using assms(3) by (simp_all add: ua_exact_def)
  with assms(1) obtain d where d: "try_from_unix_timestamp_nanos ua dt = Some d"
      "as_unix_timestamp_nanos ua d = dt"
    unfolding ua_laws_def by blast
  moreover have "to_datetime ua (ua_datetime ua d) = Some d" using assms(1) by (simp add: ua_laws_def)
  ultimately show thesis
    using that VDateTime dt assms(2)
    by (simp add: tagvalue_to_variant_def variant_scalar_def nanos_laws_def nanos_as_i64_id)
qed (use assms(1) that in \<open>simp_all add: tagvalue_to_variant_def variant_scalar_def ua_laws_def\<close>)

lemma chrono_to_ua_dt_total:
  assumes "ua_laws ua" and "nanos_laws cr"
  shows "\<exists>d. chrono_to_ua_dt ua cr dt = Some d"
proof -
  define n where "n = (case timestamp_nanos_opt cr dt of None \<Rightarrow> 0 | Some n \<Rightarrow> n)"
  have "- (2 ^ 63) \<le> n \<and> n < 2 ^ 63"
    using assms(2) by (auto simp: n_def nanos_laws_def split: option.splits if_splits)
  with assms(1) obtain d where "try_from_unix_timestamp_nanos ua n = Some d" unfolding ua_laws_def by blast
  then show ?thesis by (simp add: chrono_to_ua_dt_def n_def)
qed

text \<open>What a read shows of a tag.\<close>

lemma source_read_Some:
  assumes "ua_laws ua" and "nanos_laws cr" and "reg_map r (src_tag_id src) = Some t"
    and "tagvalue_to_variant ua cr (tag_value t) = Some var"
  obtains sts rts where "source_read ua cr r src = Some (Inr \<lparr>dv_value = Some var,
      dv_status = (if tag_quality t = Initializing then GOOD else tagquality_to_ua_status (tag_quality t)),
      dv_source_timestamp = sts, dv_server_timestamp = rts\<rparr>)"
proof -
  obtain sts rts where "chrono_to_ua_dt ua cr (source_timestamp t) = Some sts"
    "chrono_to_ua_dt ua cr (server_timestamp t) = Some rts"
    using chrono_to_ua_dt_total [OF assms(1,2)] by blast
  then show thesis using that assms(3,4) by (simp add: source_read_def get_tag_map)
qed

lemma source_await_iff: "source_await confirm = Inr () \<longleftrightarrow> confirm = Received (Inr ())"
  by (simp add: source_await_def split: recv_outcome.split sum.split)

lemma source_write_cases:
  obtains "source_write ua cr r src tx alive confirm written = (Inl BADINTERNALERROR, None)"
      "\<not> (alive \<and> (\<exists>var d v. written = Some var \<and> reg_def r (src_tag_id src) = Some d
          \<and> variant_scalar ua cr var (td_data_type d) = Some v))"
  | var d v where "alive" "written = Some var" "reg_def r (src_tag_id src) = Some d"
      "variant_scalar ua cr var (td_data_type d) = Some v"
      "source_write ua cr r src tx alive confirm written =
        (if src_write_mode src = QueuedAck then Inr () else source_await confirm,
         Some \<lparr>bw_tag_id = src_tag_id src, bw_value = v,
           bw_reply = (if src_write_mode src = ConfirmedAck then Some tx else None)\<rparr>)"
proof (cases written)
  case (Some var)
  show thesis
  proof (cases "reg_def r (src_tag_id src)")
    case d: (Some d)
    show thesis
      using that Some d
      by (cases "variant_scalar ua cr var (td_data_type d)"; cases alive; cases "src_write_mode src")
        (auto simp: source_write_def get_definition_def_map variant_to_tagvalue_def Let_def)
  qed (use that Some in \<open>simp add: source_write_def get_definition_def_map\<close>)
qed (use that in \<open>simp add: source_write_def\<close>)

section \<open>One implementation, for evaluation\<close>

datatype example_variant =
    XBool bool | XInt16 i16 | XUInt16 u16 | XInt32 i32 | XUInt32 u32 | XInt64 i64 | XUInt64 u64
  | XFloat f32 | XDouble f64 | XString string | XDateTime int | XByteString "u8 list"

definition example_ua :: "(example_variant, int) ua" where
  "example_ua =
     \<lparr>ua_boolean = XBool, ua_int16 = XInt16, ua_uint16 = XUInt16, ua_int32 = XInt32, ua_uint32 = XUInt32,
      ua_int64 = XInt64, ua_uint64 = XUInt64, ua_float = XFloat, ua_double = XDouble,
      ua_string = (\<lambda>s. if CHR 0x00 \<in> set s then None else Some (XString s)),
      ua_datetime = XDateTime, ua_bytestring = XByteString,
      to_boolean = (\<lambda>x. case x of XBool b \<Rightarrow> Some b | _ \<Rightarrow> None),
      to_int16 = (\<lambda>x. case x of XInt16 b \<Rightarrow> Some b | _ \<Rightarrow> None),
      to_uint16 = (\<lambda>x. case x of XUInt16 b \<Rightarrow> Some b | _ \<Rightarrow> None),
      to_int32 = (\<lambda>x. case x of XInt32 b \<Rightarrow> Some b | _ \<Rightarrow> None),
      to_uint32 = (\<lambda>x. case x of XUInt32 b \<Rightarrow> Some b | _ \<Rightarrow> None),
      to_int64 = (\<lambda>x. case x of XInt64 b \<Rightarrow> Some b | _ \<Rightarrow> None),
      to_uint64 = (\<lambda>x. case x of XUInt64 b \<Rightarrow> Some b | _ \<Rightarrow> None),
      to_float = (\<lambda>x. case x of XFloat b \<Rightarrow> Some b | _ \<Rightarrow> None),
      to_double = (\<lambda>x. case x of XDouble b \<Rightarrow> Some b | _ \<Rightarrow> None),
      to_ua_string = (\<lambda>x. case x of XString s \<Rightarrow> Some (Some s) | _ \<Rightarrow> None),
      to_datetime = (\<lambda>x. case x of XDateTime d \<Rightarrow> Some d | _ \<Rightarrow> None),
      to_bytestring = (\<lambda>x. case x of XByteString b \<Rightarrow> Some (Some b) | _ \<Rightarrow> None),
      try_from_unix_timestamp_nanos = (\<lambda>n.
        if - (2 ^ 63) \<le> n \<and> n < 2 ^ 63 then Some (n div 100 + 116444736000000000) else None),
      as_unix_timestamp_nanos = (\<lambda>d. (d - 116444736000000000) * 100)\<rparr>"

lemma example_is_scalar:
  "is_scalar example_ua ty var \<longleftrightarrow>
     ty = (case var of XBool _ \<Rightarrow> TBool | XInt16 _ \<Rightarrow> TInt16 | XUInt16 _ \<Rightarrow> TUInt16 | XInt32 _ \<Rightarrow> TInt32
       | XUInt32 _ \<Rightarrow> TUInt32 | XInt64 _ \<Rightarrow> TInt64 | XUInt64 _ \<Rightarrow> TUInt64 | XFloat _ \<Rightarrow> TFloat
       | XDouble _ \<Rightarrow> TDouble | XString _ \<Rightarrow> TString | XDateTime _ \<Rightarrow> TDateTime | XByteString _ \<Rightarrow> TByteString)"
  by (cases ty; cases var) (simp_all add: is_scalar_def example_ua_def)

lemma example_ua_laws: "ua_laws example_ua"
proof -
  have "\<bar>n div 100 * 100 - n\<bar> < 100" "100 dvd n \<Longrightarrow> n div 100 * 100 = n" for n :: int by auto
  then show ?thesis
    unfolding ua_laws_def example_is_scalar by (simp add: example_ua_def)
qed

section \<open>Properties\<close>

text \<open>C24: A tag value that OPC UA can carry exactly (a string without a NUL, an instant on the 100 ns grid within
  the range of an \<open>i64\<close> of nanoseconds, and every value of another type) survives the conversion to a
  variant and back, and the conversion back to any other type is refused with the name of that type.\<close>

theorem variant_roundtrip:
  assumes "ua_laws ua" and "nanos_laws cr" and "ua_exact v"
  shows "\<exists>var. tagvalue_to_variant ua cr v = Some var
    \<and> (\<forall>ty. variant_to_tagvalue ua cr var ty =
        (if ty = data_type v then Inr v else Inl (''Expected '' @ expected_name ty)))"
proof -
  obtain var where "tagvalue_to_variant ua cr v = Some var" "variant_scalar ua cr var (data_type v) = Some v"
    using assms by (rule variant_exact)
  then show ?thesis
    by (auto simp: variant_to_tagvalue_def variant_scalar_unique [OF assms(1)])
qed

theorem variant_roundtrip_witness:
  "\<exists>var. tagvalue_to_variant example_ua example_crates (VDateTime 1700000000000000000) = Some var
    \<and> variant_to_tagvalue example_ua example_crates var TDateTime = Inr (VDateTime 1700000000000000000)"
proof -
  have "ua_exact (VDateTime 1700000000000000000)" by (simp add: ua_exact_def)
  from variant_roundtrip [OF example_ua_laws example_nanos_laws this] show ?thesis by auto
qed

text \<open>A client that writes an instant outside the range of an \<open>i64\<close> of nanoseconds, which OPC UA can
  carry, is not refused: the instant is reduced modulo \<open>2^64\<close> nanoseconds into that range.\<close>

lemma client_instants_wrap:
  assumes "ua_laws ua" and "nanos_laws cr" and "to_datetime ua var = Some d"
  shows "\<exists>dt. variant_to_tagvalue ua cr var TDateTime = Inr (VDateTime dt)
    \<and> - (2 ^ 63) \<le> dt \<and> dt < 2 ^ 63 \<and> (as_unix_timestamp_nanos ua d - dt) mod 2 ^ 64 = 0"
proof -
  define n where "n = as_unix_timestamp_nanos ua d"
  define dt where "dt = nanos_as_i64 n"
  have range: "- (2 ^ 63) \<le> dt" "dt < 2 ^ 63"
    using sint_ge [of "word_of_int n :: i64"] sint_lt [of "word_of_int n :: i64"] by (simp_all add: dt_def nanos_as_i64_def)
  have "(word_of_int dt :: i64) = word_of_int n" by (simp add: dt_def nanos_as_i64_def)
  then have "dt mod 2 ^ 64 = n mod 2 ^ 64" by (simp add: word_of_int_eq_iff take_bit_eq_mod)
  then have "(n - dt) mod 2 ^ 64 = 0" by (metis mod_eq_dvd_iff dvd_imp_mod_0)
  then show ?thesis
    using range assms(2,3)
    by (simp add: variant_to_tagvalue_def variant_scalar_def nanos_laws_def n_def [symmetric] dt_def [symmetric])
qed

lemma client_instants_wrap_witness:
  "\<exists>dt. variant_to_tagvalue example_ua example_crates (XDateTime 216444736000000000) TDateTime = Inr (VDateTime dt)
    \<and> dt = 10000000000000000000 - 2 ^ 64"
proof -
  have d: "to_datetime example_ua (XDateTime 216444736000000000) = Some 216444736000000000"
    "as_unix_timestamp_nanos example_ua 216444736000000000 = 10000000000000000000"
    by (simp_all add: example_ua_def)
  obtain dt where dt: "variant_to_tagvalue example_ua example_crates (XDateTime 216444736000000000) TDateTime
      = Inr (VDateTime dt)" and b: "- (2 ^ 63) \<le> dt" "dt < 2 ^ 63"
      "(10000000000000000000 - dt) mod 2 ^ 64 = 0"
    using client_instants_wrap [OF example_ua_laws example_nanos_laws d(1)] d(2) by auto
  then obtain k where "10000000000000000000 - dt = 2 ^ 64 * k" by (metis dvdE mod_0_imp_dvd)
  with b have "k = 1" by simp
  with dt show ?thesis using \<open>10000000000000000000 - dt = 2 ^ 64 * k\<close> by simp
qed

text \<open>C23: A read of a node never panics.  It fails with \<open>BADINTERNALERROR\<close> when the tag does not exist or its value
  has no variant; otherwise it shows that variant, with the status \<open>GOOD\<close> exactly when the tag's quality
  is \<open>Good\<close> or \<open>Initializing\<close>, and a bad status exactly for a lost connection, a configuration error, a
  type mismatch or another error.\<close>

theorem source_read_spec:
  assumes "ua_laws ua" and "nanos_laws cr"
  shows "case map_option (\<lambda>t. (t, tagvalue_to_variant ua cr (tag_value t))) (reg_map r (src_tag_id src)) of
      Some (t, Some var) \<Rightarrow>
        (\<exists>dv. source_read ua cr r src = Some (Inr dv) \<and> dv_value dv = Some var
          \<and> (dv_status dv = GOOD \<longleftrightarrow> tag_quality t \<in> {Good, Initializing})
          \<and> (dv_status dv = BADUNEXPECTEDERROR \<longleftrightarrow>
                tag_quality t \<in> {CommLost, ConfigError, TypeMismatch} \<union> range QError))
    | _ \<Rightarrow> source_read ua cr r src = Some (Inl BADINTERNALERROR)"
proof (cases "reg_map r (src_tag_id src)")
  case (Some t)
  show ?thesis
  proof (cases "tagvalue_to_variant ua cr (tag_value t)")
    case var: (Some var)
    obtain sts rts where "source_read ua cr r src = Some (Inr \<lparr>dv_value = Some var,
        dv_status = (if tag_quality t = Initializing then GOOD else tagquality_to_ua_status (tag_quality t)),
        dv_source_timestamp = sts, dv_server_timestamp = rts\<rparr>)"
      using source_read_Some [OF assms Some var] .
    then show ?thesis
      using Some var by (cases "tag_quality t") (auto simp: tagquality_to_ua_status_def)
  qed (simp add: Some source_read_def get_tag_map)
qed (simp add: source_read_def get_tag_map)

theorem source_read_spec_witness:
  "\<exists>dv. source_read example_ua example_crates example_registry (TagDataSource_new ''a'' ConfirmedAck 5000) = Some (Inr dv)
    \<and> dv_value dv = Some (XUInt16 0) \<and> dv_status dv = GOOD"
proof -
  let ?src = "TagDataSource_new ''a'' ConfirmedAck 5000"
  have "map_option (\<lambda>t. (t, tagvalue_to_variant example_ua example_crates (tag_value t)))
      (reg_map example_registry (src_tag_id ?src)) = Some (Tag_new 1 (VUInt16 0), Some (XUInt16 0))"
    by (simp add: reg_map_def store_map_def example_registry_def TagDataSource_new_def Tag_new_def
        tagvalue_to_variant_def example_ua_def)
  then show ?thesis
    using source_read_spec [OF example_ua_laws example_nanos_laws, of example_registry ?src]
    by (auto simp: Tag_new_def)
qed



end
