(* ===== verification/Opcua_Server.thy ===== *)
theory Opcua_Server
  imports Opcua_Source
begin

text \<open>
  The server's start-up and life cycle: \<open>start_native_server\<close> of \<open>src/opcua-server/src/native.rs\<close> (the
  builder's options, the address space, the write bridge thread, the server task), and \<open>Server\<close> and
  \<open>ServerHandle\<close> of \<open>types.rs\<close>.

  The OPC UA stack and the operating system are a parameter: a record \<open>backend\<close> of the calls that
  create nodes, over a state \<open>'e\<close> and node ids \<open>'n\<close>, and of the answers of the calls that set up the
  server.  \<open>logged\<close> is any backend that also records the node requests, to speak about them.
\<close>

section \<open>Names of nodes\<close>

text \<open>The text before and after the first occurrence of a separator that is not empty.\<close>

fun split_str :: "string \<Rightarrow> string \<Rightarrow> (string \<times> string) option" where
  "split_str sep [] = None"
| "split_str sep (c # s) =
     (if starts_with (c # s) sep then Some ([], drop (length sep) (c # s))
      else case split_str sep s of None \<Rightarrow> None | Some (a, b) \<Rightarrow> Some (c # a, b))"

text \<open>\<open>id.split(";s=").nth(1).unwrap_or(id)\<close>.\<close>

definition string_node_id :: "string \<Rightarrow> string" where
  "string_node_id tid =
     (case split_str '';s='' tid of
        None \<Rightarrow> tid
      | Some (_, rest) \<Rightarrow> (case split_str '';s='' rest of None \<Rightarrow> rest | Some (a, _) \<Rightarrow> a))"

definition ns0_data_type :: "TagDataType \<Rightarrow> u32" where
  "ns0_data_type ty =
     (case ty of
        TBool \<Rightarrow> 1 | TInt16 \<Rightarrow> 4 | TUInt16 \<Rightarrow> 5 | TInt32 \<Rightarrow> 6 | TUInt32 \<Rightarrow> 7 | TInt64 \<Rightarrow> 8 | TUInt64 \<Rightarrow> 9
      | TFloat \<Rightarrow> 10 | TDouble \<Rightarrow> 11 | TString \<Rightarrow> 12 | TDateTime \<Rightarrow> 13 | TByteString \<Rightarrow> 15)"

definition ns0_ORGANIZES :: u32 where "ns0_ORGANIZES = 35"

definition ns0_FOLDERTYPE :: u32 where "ns0_FOLDERTYPE = 61"

definition ns0_BASEDATAVARIABLETYPE :: u32 where "ns0_BASEDATAVARIABLETYPE = 63"

definition ns0_OBJECTSFOLDER :: u32 where "ns0_OBJECTSFOLDER = 85"

section \<open>The stack below\<close>

record 'n ObjectNode =
  on_parent_node_id :: 'n
  on_reference_type_id :: 'n
  on_browse_name :: "u16 \<times> string"
  on_type_definition :: 'n

record 'n VariableNode =
  vn_requested_new_node_id :: 'n
  vn_parent_node_id :: 'n
  vn_reference_type_id :: 'n
  vn_browse_name :: "u16 \<times> string"
  vn_type_definition :: 'n
  vn_data_type :: 'n
  vn_current_read :: bool
  vn_current_write :: bool

record ('n, 'e) backend =
  be_ns0 :: "u32 \<Rightarrow> 'n"
  be_string_id :: "u16 \<Rightarrow> string \<Rightarrow> 'n"
  be_add_object :: "'n ObjectNode \<Rightarrow> 'e \<Rightarrow> (string + 'n) \<times> 'e"
  be_add_variable :: "'n VariableNode \<Rightarrow> TagDataSource \<Rightarrow> 'e \<Rightarrow> (string + 'n) \<times> 'e"
  be_read_file :: "string \<Rightarrow> string + u8 list"
  be_security_policies :: "u16 \<Rightarrow> u8 list \<Rightarrow> u8 list \<Rightarrow> string option"
  be_access_control :: "bool \<Rightarrow> string option"
  be_add_namespace :: "string \<Rightarrow> u16"
  be_in_runtime :: bool
  be_spawn_error :: "string option"

section \<open>The address space\<close>

record 'n space =
  sp_plc_nodes :: "(string \<times> 'n) list"
  sp_tag_nodes :: "(string \<times> 'n) list"

definition folder_node :: "('n, 'e) backend \<Rightarrow> u16 \<Rightarrow> 'n \<Rightarrow> string \<Rightarrow> 'n ObjectNode" where
  "folder_node be ns parent name =
     \<lparr>on_parent_node_id = parent, on_reference_type_id = be_ns0 be ns0_ORGANIZES,
      on_browse_name = (ns, name), on_type_definition = be_ns0 be ns0_FOLDERTYPE\<rparr>"

text \<open>Every variable can be read; the writable ones can be written.\<close>

definition variable_node :: "('n, 'e) backend \<Rightarrow> u16 \<Rightarrow> 'n \<Rightarrow> TagDefinition \<Rightarrow> 'n VariableNode" where
  "variable_node be ns parent d =
     \<lparr>vn_requested_new_node_id = be_string_id be ns (string_node_id (td_id d)), vn_parent_node_id = parent,
      vn_reference_type_id = be_ns0 be ns0_ORGANIZES, vn_browse_name = (ns, td_name d),
      vn_type_definition = be_ns0 be ns0_BASEDATAVARIABLETYPE,
      vn_data_type = be_ns0 be (ns0_data_type (td_data_type d)),
      vn_current_read = True, vn_current_write = td_writable d\<rparr>"

definition plc_folder ::
  "('n, 'e) backend \<Rightarrow> u16 \<Rightarrow> 'n \<Rightarrow> string \<Rightarrow> 'n space \<Rightarrow> 'e \<Rightarrow> (ServerError + 'n \<times> 'n space) \<times> 'e" where
  "plc_folder be ns plcs plc sp e =
     (case map_of (sp_plc_nodes sp) plc of
        Some n \<Rightarrow> (Inr (n, sp), e)
      | None \<Rightarrow>
          (case be_add_object be (folder_node be ns plcs plc) e of
             (Inl err, e') \<Rightarrow>
               (Inl (SrvBackend (''Failed creating PLC folder '' @ quoted plc @ '': '' @ err)), e')
           | (Inr n, e') \<Rightarrow> (Inr (n, sp\<lparr>sp_plc_nodes := AList.update plc n (sp_plc_nodes sp)\<rparr>), e')))"

definition tag_source :: "WriteMode \<Rightarrow> TagDefinition \<Rightarrow> TagDataSource" where
  "tag_source mode d = TagDataSource_new (td_id d) mode 5000"

fun add_tag_nodes ::
  "('n, 'e) backend \<Rightarrow> u16 \<Rightarrow> WriteMode \<Rightarrow> 'n \<Rightarrow> 'n space \<Rightarrow> 'e \<Rightarrow> TagDefinition list
   \<Rightarrow> (ServerError + 'n space) \<times> 'e" where
  "add_tag_nodes be ns mode plcs sp e [] = (Inr sp, e)"
| "add_tag_nodes be ns mode plcs sp e (d # ds) =
     (case plc_folder be ns plcs (td_plc_name d) sp e of
        (Inl err, e1) \<Rightarrow> (Inl err, e1)
      | (Inr (folder, sp1), e1) \<Rightarrow>
          (case be_add_variable be (variable_node be ns folder d) (tag_source mode d) e1 of
             (Inl err, e2) \<Rightarrow>
               (Inl (SrvBackend (''Failed creating variable for tag '' @ td_id d @ '': '' @ err)), e2)
           | (Inr n, e2) \<Rightarrow>
               add_tag_nodes be ns mode plcs
                 (sp1\<lparr>sp_tag_nodes := AList.update (td_id d) n (sp_tag_nodes sp1)\<rparr>) e2 ds))"

definition build_address_space ::
  "('n, 'e) backend \<Rightarrow> u16 \<Rightarrow> WriteMode \<Rightarrow> TagRegistry \<Rightarrow> 'e \<Rightarrow> (ServerError + 'n space) \<times> 'e" where
  "build_address_space be ns mode r e =
     (case be_add_object be (folder_node be ns (be_ns0 be ns0_OBJECTSFOLDER) ''PLCs'') e of
        (Inl err, e') \<Rightarrow> (Inl (SrvBackend (''Failed creating PLCs folder: '' @ err)), e')
      | (Inr plcs, e') \<Rightarrow>
          add_tag_nodes be ns mode plcs \<lparr>sp_plc_nodes = [], sp_tag_nodes = []\<rparr> e' (reg_all_definitions_sorted r))"

section \<open>Starting\<close>

text \<open>What the builder is told.\<close>

record server_setup =
  su_keys :: "(u8 list \<times> u8 list) option"
  su_accept_all :: bool
  su_url :: string
  su_login :: "bool option"

definition security_setup :: "('n, 'e) backend \<Rightarrow> OpcUaConfig \<Rightarrow> ServerError + (u8 list \<times> u8 list) option \<times> bool" where
  "security_setup be cfg =
     (if oc_security_mode cfg = SecNone then Inr (None, False)
      else case cert_server_certificate_path (oc_certificates cfg) of
          None \<Rightarrow> Inl (SrvConfig ''server_certificate_path is required when security_mode is not None'')
        | Some cert_path \<Rightarrow>
            (case cert_server_private_key_path (oc_certificates cfg) of
               None \<Rightarrow> Inl (SrvConfig ''server_private_key_path is required when security_mode is not None'')
             | Some key_path \<Rightarrow>
                 (case be_read_file be cert_path of
                    Inl e \<Rightarrow> Inl (SrvConfig (''Failed to read certificate '' @ quoted cert_path @ '': '' @ e))
                  | Inr cert \<Rightarrow>
                      (case be_read_file be key_path of
                         Inl e \<Rightarrow> Inl (SrvConfig (''Failed to read private key '' @ quoted key_path @ '': '' @ e))
                       | Inr key \<Rightarrow>
                           (case be_security_policies be (oc_port cfg) cert key of
                              Some e \<Rightarrow> Inl (SrvBackend (''Failed to initialize security policies: '' @ e))
                            | None \<Rightarrow>
                                Inr (Some (cert, key), cert_trust_store_dir (oc_certificates cfg) = None))))))"

definition access_setup :: "('n, 'e) backend \<Rightarrow> OpcUaConfig \<Rightarrow> bool \<Rightarrow> ServerError + bool option" where
  "access_setup be cfg login_cb =
     (if \<not> login_cb then Inr None
      else if \<not> oc_username_password_enabled cfg then
        Inl (SrvConfig ''username/password authentication disabled in config'')
      else case be_access_control be (oc_anonymous_enabled cfg) of
          Some e \<Rightarrow> Inl (SrvBackend (''Failed to apply access control: '' @ e))
        | None \<Rightarrow> Inr (Some (oc_anonymous_enabled cfg)))"

record 'n running_server =
  rs_setup :: server_setup
  rs_ns_index :: u16
  rs_space :: "'n space"

definition start_native_server ::
  "('n, 'e) backend \<Rightarrow> OpcUaConfig \<Rightarrow> TagRegistry \<Rightarrow> bool \<Rightarrow> 'e \<Rightarrow> (ServerError + 'n running_server) \<times> 'e" where
  "start_native_server be cfg r login_cb e =
     (let endpoint = ''opc.tcp://'' @ oc_bind_addr cfg @ '':'' @ dec_str (unat (oc_port cfg))
      in case security_setup be cfg of
           Inl err \<Rightarrow> (Inl err, e)
         | Inr (keys, accept_all) \<Rightarrow>
             (case access_setup be cfg login_cb of
                Inl err \<Rightarrow> (Inl err, e)
              | Inr access \<Rightarrow>
                  let ns_index = be_add_namespace be (oc_namespace_uri cfg)
                  in if \<not> be_in_runtime be then
                       (Inl (SrvOther ''start_native_server must be called from a Tokio runtime context''), e)
                     else case be_spawn_error be of
                         Some err \<Rightarrow> (Inl (SrvOther (''Failed to spawn write bridge thread: '' @ err)), e)
                       | None \<Rightarrow>
                           (case build_address_space be ns_index (oc_write_mode cfg) r e of
                              (Inl err, e') \<Rightarrow> (Inl err, e')
                            | (Inr sp, e') \<Rightarrow>
                                (Inr \<lparr>rs_setup = \<lparr>su_keys = keys, su_accept_all = accept_all, su_url = endpoint,
                                       su_login = access\<rparr>,
                                      rs_ns_index = ns_index, rs_space = sp\<rparr>, e'))))"

definition start_with_login_cb ::
  "('n, 'e) backend \<Rightarrow> OpcUaConfig \<Rightarrow> TagRegistry \<Rightarrow> bool \<Rightarrow> 'e \<Rightarrow> (ServerError + 'n running_server) \<times> 'e" where
  "start_with_login_cb be cfg r login_cb e =
     (if login_cb \<and> \<not> oc_username_password_enabled cfg then
        (Inl (SrvConfig ''username/password authentication disabled in config''), e)
      else start_native_server be cfg r login_cb e)"

definition Server_start ::
  "('n, 'e) backend \<Rightarrow> OpcUaConfig \<Rightarrow> TagRegistry \<Rightarrow> 'e \<Rightarrow> (ServerError + 'n running_server) \<times> 'e" where
  "Server_start be cfg r e = start_with_login_cb be cfg r False e"

section \<open>The write bridge and the server task\<close>

text \<open>What \<open>recv_timeout\<close> gives the bridge thread; with a timeout, the value of the shutdown flag it reads
  then.  The handler runs over a state \<open>'s\<close>.  The result is the state, the replies sent, whether the
  thread ended and the events it did not take.\<close>

datatype bridge_event = BridgeReceived BridgeWrite | BridgeTimedOut bool | BridgeDisconnected

type_synonym 's handler = "'s \<Rightarrow> string \<Rightarrow> TagValue \<Rightarrow> (ServerError + unit) \<times> 's"

definition bridge_answer :: "BridgeWrite \<Rightarrow> ServerError + unit \<Rightarrow> (nat \<times> (string + unit)) list" where
  "bridge_answer bw res =
     (case bw_reply bw of
        None \<Rightarrow> []
      | Some tx \<Rightarrow> [(tx, case res of Inl e \<Rightarrow> Inl (ServerError_display e) | Inr u \<Rightarrow> Inr u)])"

fun bridge_loop ::
  "'s handler \<Rightarrow> 's \<Rightarrow> bridge_event list \<Rightarrow> 's \<times> (nat \<times> (string + unit)) list \<times> bool \<times> bridge_event list" where
  "bridge_loop handle s [] = (s, [], False, [])"
| "bridge_loop handle s (ev # evs) =
     (case ev of
        BridgeReceived bw \<Rightarrow>
          let (res, s1) = handle s (bw_tag_id bw) (bw_value bw);
              (s2, replies, ended, rest) = bridge_loop handle s1 evs
          in (s2, bridge_answer bw res @ replies, ended, rest)
      | BridgeTimedOut stop \<Rightarrow> if stop then (s, [], True, evs) else bridge_loop handle s evs
      | BridgeDisconnected \<Rightarrow> (s, [], True, evs))"

text \<open>The server task wakes when the shutdown value changes or its sender is gone, and ends when the value
  is then true; the values it sees are a list.  On its way out it waits for the runner, raises the
  bridge's flag and drops its end of the bridge channel.\<close>

record task_end =
  te_runner_flag :: bool
  te_bridge_flag :: bool
  te_bridge_tx_dropped :: bool

fun server_task :: "bool list \<Rightarrow> task_end option" where
  "server_task [] = None"
| "server_task (v # vs) =
     (if v then Some \<lparr>te_runner_flag = True, te_bridge_flag = True, te_bridge_tx_dropped = True\<rparr>
      else server_task vs)"

text \<open>\<open>ServerHandle::wait\<close> on the result of joining the task.\<close>

definition handle_wait :: "string + (ServerError + unit) \<Rightarrow> ServerError + unit" where
  "handle_wait joined =
     (case joined of
        Inr res \<Rightarrow> res
      | Inl join_err \<Rightarrow> Inl (SrvOther (''Server task panicked or was cancelled: '' @ join_err)))"

section \<open>Requests of a recording backend\<close>

datatype 'n node_request = AddObject "'n ObjectNode" | AddVariable "'n VariableNode" TagDataSource

definition logged :: "('n, 'e) backend \<Rightarrow> ('n, 'e \<times> 'n node_request list) backend" where
  "logged be =
     \<lparr>be_ns0 = be_ns0 be, be_string_id = be_string_id be,
      be_add_object = (\<lambda>n (e, l). let (res, e') = be_add_object be n e in (res, e', l @ [AddObject n])),
      be_add_variable = (\<lambda>n src (e, l).
        let (res, e') = be_add_variable be n src e in (res, e', l @ [AddVariable n src])),
      be_read_file = be_read_file be, be_security_policies = be_security_policies be,
      be_access_control = be_access_control be, be_add_namespace = be_add_namespace be,
      be_in_runtime = be_in_runtime be, be_spawn_error = be_spawn_error be\<rparr>"

fun variables_of :: "'n node_request list \<Rightarrow> ('n VariableNode \<times> TagDataSource) list" where
  "variables_of [] = []"
| "variables_of (AddObject n # l) = variables_of l"
| "variables_of (AddVariable n src # l) = (n, src) # variables_of l"

fun folders_of :: "'n node_request list \<Rightarrow> 'n ObjectNode list" where
  "folders_of [] = []"
| "folders_of (AddObject n # l) = n # folders_of l"
| "folders_of (AddVariable n src # l) = folders_of l"

lemma requests_append [simp]:
  "variables_of (l @ l') = variables_of l @ variables_of l'" "folders_of (l @ l') = folders_of l @ folders_of l'"
  by (induction l rule: variables_of.induct) simp_all

lemma logged_nodes [simp]:
  "folder_node (logged be) = folder_node be" "variable_node (logged be) = variable_node be"
  "be_ns0 (logged be) = be_ns0 be"
  "be_add_object (logged be) n (e, l) = (let (res, e') = be_add_object be n e in (res, e', l @ [AddObject n]))"
  "be_add_variable (logged be) v src (e, l) =
     (let (res, e') = be_add_variable be v src e in (res, e', l @ [AddVariable v src]))"
  by (simp_all add: fun_eq_iff folder_node_def variable_node_def logged_def)

text \<open>The folder of a PLC is created once.\<close>

lemma plc_folder_logged:
  assumes "plc_folder (logged be) ns plcs plc sp (e, l) = (Inr (n, sp1), e1, l1)"
  shows "map_of (sp_plc_nodes sp1) plc = Some n" and "map_of (sp_plc_nodes sp) \<subseteq>\<^sub>m map_of (sp_plc_nodes sp1)"
    and "dom (map_of (sp_plc_nodes sp1)) = insert plc (dom (map_of (sp_plc_nodes sp)))"
    and "sp_tag_nodes sp1 = sp_tag_nodes sp"
    and "l1 = l @ (if map_of (sp_plc_nodes sp) plc = None then [AddObject (folder_node be ns plcs plc)] else [])"
  using assms
  by (auto simp: plc_folder_def Let_def AList.update_conv' map_le_def
      split: option.splits sum.splits prod.splits)

text \<open>The names not known yet, each where it first occurs.\<close>

fun new_names :: "string set \<Rightarrow> string list \<Rightarrow> string list" where
  "new_names known [] = []"
| "new_names known (x # xs) =
     (if x \<in> known then new_names known xs else x # new_names (insert x known) xs)"

lemma new_names_set: "set (new_names known xs) = set xs - known \<and> distinct (new_names known xs)"
  by (induction known xs rule: new_names.induct) auto

text \<open>What a successful run over a list of definitions requested.\<close>

lemma add_tag_nodes_logged:
  assumes "add_tag_nodes (logged be) ns mode plcs sp (e, l) ds = (Inr sp', e', l')"
  shows "map_of (sp_plc_nodes sp) \<subseteq>\<^sub>m map_of (sp_plc_nodes sp')
    \<and> dom (map_of (sp_plc_nodes sp')) = dom (map_of (sp_plc_nodes sp)) \<union> td_plc_name ` set ds
    \<and> dom (map_of (sp_tag_nodes sp')) = dom (map_of (sp_tag_nodes sp)) \<union> td_id ` set ds
    \<and> variables_of l' = variables_of l
        @ map (\<lambda>d. (variable_node be ns (the (map_of (sp_plc_nodes sp') (td_plc_name d))) d, tag_source mode d)) ds
    \<and> folders_of l' = folders_of l
        @ map (folder_node be ns plcs) (new_names (dom (map_of (sp_plc_nodes sp))) (map td_plc_name ds))"
  using assms
proof (induction ds arbitrary: sp e l)
  case (Cons d ds)
  obtain n sp1 e1 l1 where f: "plc_folder (logged be) ns plcs (td_plc_name d) sp (e, l) = (Inr (n, sp1), e1, l1)"
    using Cons.prems by (auto split: prod.splits sum.splits)
  note f' = plc_folder_logged [OF f]
  obtain k e2 where v: "be_add_variable be (variable_node be ns n d) (tag_source mode d) e1 = (Inr k, e2)"
    using Cons.prems f by (auto simp: Let_def split: prod.splits sum.splits)
  let ?sp2 = "sp1\<lparr>sp_tag_nodes := AList.update (td_id d) k (sp_tag_nodes sp1)\<rparr>"
  have r: "add_tag_nodes (logged be) ns mode plcs ?sp2
      (e2, l1 @ [AddVariable (variable_node be ns n d) (tag_source mode d)]) ds = (Inr sp', e', l')"
    using Cons.prems f v by (simp add: Let_def)
  have n: "map_of (sp_plc_nodes sp') (td_plc_name d) = Some n"
    using Cons.IH [OF r] f'(1) by (auto simp: map_le_def dom_def)
  show ?case
    using Cons.IH [OF r] f' n map_le_trans [OF f'(2)] by (auto simp: AList.update_conv' insert_absorb domIff)
qed simp

lemma add_tag_nodes_accepting:
  assumes "\<And>n e. \<exists>k e'. be_add_object be n e = (Inr k, e')"
    and "\<And>n src e. \<exists>k e'. be_add_variable be n src e = (Inr k, e')"
  shows "\<exists>sp' e'. add_tag_nodes be ns mode plcs sp e ds = (Inr sp', e')"
proof (induction ds arbitrary: sp e)
  case (Cons d ds)
  obtain n sp1 e1 where "plc_folder be ns plcs (td_plc_name d) sp e = (Inr (n, sp1), e1)"
    using assms(1) [of "folder_node be ns plcs (td_plc_name d)" e]
    by (cases "map_of (sp_plc_nodes sp) (td_plc_name d)") (auto simp: plc_folder_def)
  moreover obtain k e2 where "be_add_variable be (variable_node be ns n d) (tag_source mode d) e1 = (Inr k, e2)"
    using assms(2) by blast
  ultimately show ?case using Cons.IH by simp
qed simp

text \<open>A stack that refuses to create a variable under the id of an existing one.\<close>

definition refuses_duplicates :: "('n, 'e) backend \<Rightarrow> ('e \<Rightarrow> 'n set) \<Rightarrow> bool" where
  "refuses_duplicates be nodes \<longleftrightarrow>
     (\<forall>n src e. vn_requested_new_node_id n \<in> nodes e \<longrightarrow> (\<exists>err. fst (be_add_variable be n src e) = Inl err))
     \<and> (\<forall>n src e k e'. be_add_variable be n src e = (Inr k, e') \<longrightarrow>
          insert (vn_requested_new_node_id n) (nodes e) \<subseteq> nodes e')
     \<and> (\<forall>n e. nodes e \<subseteq> nodes (snd (be_add_object be n e)))"

lemma add_tag_nodes_distinct:
  assumes "refuses_duplicates be nodes" and "add_tag_nodes be ns mode plcs sp e ds = (Inr sp', e')"
  shows "distinct (map (\<lambda>d. be_string_id be ns (string_node_id (td_id d))) ds)
    \<and> nodes e \<inter> (\<lambda>d. be_string_id be ns (string_node_id (td_id d))) ` set ds = {}"
  using assms(2)
proof (induction ds arbitrary: sp e)
  case (Cons d ds)
  obtain n sp1 e1 where f: "plc_folder be ns plcs (td_plc_name d) sp e = (Inr (n, sp1), e1)"
    using Cons.prems by (auto split: prod.splits sum.splits)
  obtain k e2 where v: "be_add_variable be (variable_node be ns n d) (tag_source mode d) e1 = (Inr k, e2)"
    using Cons.prems f by (auto split: prod.splits sum.splits)
  let ?i = "be_string_id be ns (string_node_id (td_id d))"
  have i: "vn_requested_new_node_id (variable_node be ns n d) = ?i" by (simp add: variable_node_def)
  have r: "add_tag_nodes be ns mode plcs (sp1\<lparr>sp_tag_nodes := AList.update (td_id d) k (sp_tag_nodes sp1)\<rparr>) e2 ds
      = (Inr sp', e')"
    using Cons.prems f v by simp
  have "nodes e \<subseteq> nodes e1"
  proof (cases "map_of (sp_plc_nodes sp) (td_plc_name d)")
    case None
    then have "e1 = snd (be_add_object be (folder_node be ns plcs (td_plc_name d)) e)"
      using f by (auto simp: plc_folder_def split: prod.splits sum.splits)
    then show ?thesis using assms(1) unfolding refuses_duplicates_def by blast
  qed (use f in \<open>simp add: plc_folder_def\<close>)
  moreover have "?i \<notin> nodes e1"
  proof
    assume "?i \<in> nodes e1"
    then have "\<exists>err. fst (be_add_variable be (variable_node be ns n d) (tag_source mode d) e1) = Inl err"
      using assms(1) i unfolding refuses_duplicates_def by metis
    then show False using v by simp
  qed
  moreover have "insert ?i (nodes e1) \<subseteq> nodes e2"
    using assms(1) v i unfolding refuses_duplicates_def by metis
  ultimately show ?case using Cons.IH [OF r] by auto
qed simp

lemma build_address_space_split:
  "build_address_space be ns mode r e = (Inr sp, e') \<longleftrightarrow>
     (\<exists>plcs e1. be_add_object be (folder_node be ns (be_ns0 be ns0_OBJECTSFOLDER) ''PLCs'') e = (Inr plcs, e1)
        \<and> add_tag_nodes be ns mode plcs \<lparr>sp_plc_nodes = [], sp_tag_nodes = []\<rparr> e1 (reg_all_definitions_sorted r)
          = (Inr sp, e'))"
  by (auto simp: build_address_space_def split: prod.splits sum.splits)

lemma definitions_listed:
  assumes "reg_wf r"
  shows "reg_def r i = Some d \<longleftrightarrow> d \<in> set (reg_all_definitions_sorted r) \<and> td_id d = i"
proof -
  have "defstore_wf (reg_definitions r)" using assms by (simp add: reg_wf_def)
  then have "map_of (map (\<lambda>d. (td_id d, d)) (reg_all_definitions_sorted r)) = reg_def r"
    and "distinct (map td_id (reg_all_definitions_sorted r))"
    using map_of_all_definitions_sorted all_definitions_sorted_ids(2)
    by (simp_all add: reg_all_definitions_sorted_def reg_def_def)
  then show ?thesis by (auto simp: map_of_eq_Some_iff comp_def dest: sym)
qed

text \<open>The options that the security of the builder depends on.\<close>

lemma security_setup_cong:
  assumes "oc_security_mode c = SecNone \<longleftrightarrow> oc_security_mode c' = SecNone" and "oc_port c = oc_port c'"
    and "cert_server_certificate_path (oc_certificates c) = cert_server_certificate_path (oc_certificates c')"
    and "cert_server_private_key_path (oc_certificates c) = cert_server_private_key_path (oc_certificates c')"
    and "cert_trust_store_dir (oc_certificates c) = None \<longleftrightarrow> cert_trust_store_dir (oc_certificates c') = None"
  shows "security_setup be c = security_setup be c'"
  unfolding security_setup_def assms ..

lemma access_setup_cong:
  assumes "login \<Longrightarrow> oc_username_password_enabled c = oc_username_password_enabled c'"
    and "login \<Longrightarrow> oc_anonymous_enabled c = oc_anonymous_enabled c'"
  shows "access_setup be c login = access_setup be c' login"
  using assms by (cases login) (simp_all add: access_setup_def split: option.split)

section \<open>The bridge\<close>

text \<open>The writes that the thread takes before it ends.\<close>

fun bridge_taken :: "bridge_event list \<Rightarrow> BridgeWrite list" where
  "bridge_taken [] = []"
| "bridge_taken (BridgeReceived bw # evs) = bw # bridge_taken evs"
| "bridge_taken (BridgeTimedOut stop # evs) = (if stop then [] else bridge_taken evs)"
| "bridge_taken (BridgeDisconnected # evs) = []"

definition bridge_ends :: "bridge_event \<Rightarrow> bool" where
  "bridge_ends ev \<longleftrightarrow> ev = BridgeTimedOut True \<or> ev = BridgeDisconnected"

text \<open>A write handler keeps an invariant of the state it works on.\<close>

locale bridge_handler =
  fixes handle :: "'s handler" and inv :: "'s \<Rightarrow> bool"
  assumes handle_inv: "inv s \<Longrightarrow> inv (snd (handle s tid v))"
begin

lemma bridge_loop_inv: "inv s \<Longrightarrow> inv (fst (bridge_loop handle s evs))"
proof (induction evs arbitrary: s)
  case (Cons ev evs)
  show ?case
  proof (cases ev)
    case (BridgeReceived bw)
    obtain res s1 where h: "handle s (bw_tag_id bw) (bw_value bw) = (res, s1)" by (rule prod.exhaust)
    have "inv s1" using handle_inv [OF Cons.prems, of "bw_tag_id bw" "bw_value bw"] h by simp
    from Cons.IH [OF this] show ?thesis using BridgeReceived h by (simp add: case_prod_beta)
  qed (use Cons in simp_all)
qed simp

end

text \<open>The reference: the handler runs over the writes taken, one after the other.\<close>

fun handled :: "'s handler \<Rightarrow> 's \<Rightarrow> BridgeWrite list \<Rightarrow> 's \<times> (ServerError + unit) list" where
  "handled handle s [] = (s, [])"
| "handled handle s (bw # bws) =
     (let (res, s1) = handle s (bw_tag_id bw) (bw_value bw); (s2, results) = handled handle s1 bws
      in (s2, res # results))"

lemma length_handled [simp]: "length (snd (handled handle s bws)) = length bws"
  by (induction bws arbitrary: s) (simp_all add: case_prod_beta)

lemma bridge_answer_ids:
  "length results = length bws \<Longrightarrow>
   map fst (concat (map2 bridge_answer bws results)) = List.map_filter bw_reply bws"
  by (induction bws results rule: list_induct2')
    (auto simp: bridge_answer_def map_filter_simps split: option.split)

section \<open>One stack, for evaluation\<close>

datatype example_node = XNs0 u32 | XStringId u16 string | XNumber nat

definition example_backend :: "(example_node, example_node list) backend" where
  "example_backend =
     \<lparr>be_ns0 = XNs0, be_string_id = XStringId,
      be_add_object = (\<lambda>n e. (Inr (XNumber (length e)), XNumber (length e) # e)),
      be_add_variable = (\<lambda>n src e.
        let k = vn_requested_new_node_id n in if k \<in> set e then (Inl ''BadNodeIdExists'', e) else (Inr k, k # e)),
      be_read_file = (\<lambda>_. Inl ''not found''), be_security_policies = (\<lambda>_ _ _. None),
      be_access_control = (\<lambda>_. None), be_add_namespace = (\<lambda>_. 1), be_in_runtime = True, be_spawn_error = None\<rparr>"

text \<open>A stack that accepts every node.\<close>

definition permissive_backend :: "(example_node, nat) backend" where
  "permissive_backend =
     \<lparr>be_ns0 = XNs0, be_string_id = XStringId,
      be_add_object = (\<lambda>n e. (Inr (XNumber e), Suc e)),
      be_add_variable = (\<lambda>n src e. (Inr (vn_requested_new_node_id n), e)),
      be_read_file = (\<lambda>_. Inl ''not found''), be_security_policies = (\<lambda>_ _ _. None),
      be_access_control = (\<lambda>_. None), be_add_namespace = (\<lambda>_. 1), be_in_runtime = True, be_spawn_error = None\<rparr>"

lemma example_refuses_duplicates: "refuses_duplicates example_backend set"
  by (auto simp: refuses_duplicates_def example_backend_def Let_def)

section \<open>Properties\<close>

text \<open>C19: With a stack that accepts every node, the address space is built: a folder \<open>PLCs\<close> and in it one folder
  for each PLC name, and, in the order of the tag ids, one variable for each definition in the folder of
  its PLC, with the definition's name and data type, readable, writable exactly when the definition is,
  and backed by a data source for the definition's tag in the configured write mode.\<close>

theorem address_space_complete:
  assumes "\<And>n e. \<exists>k e'. be_add_object be n e = (Inr k, e')"
    and "\<And>n src e. \<exists>k e'. be_add_variable be n src e = (Inr k, e')" and "reg_wf r"
  shows "\<exists>sp e' log plcs names.
    build_address_space (logged be) ns mode r (e, []) = (Inr sp, e', log)
    \<and> variables_of log = map (\<lambda>d.
        (\<lparr>vn_requested_new_node_id = be_string_id be ns (string_node_id (td_id d)),
          vn_parent_node_id = the (map_of (sp_plc_nodes sp) (td_plc_name d)), vn_reference_type_id = be_ns0 be 35,
          vn_browse_name = (ns, td_name d), vn_type_definition = be_ns0 be 63,
          vn_data_type = be_ns0 be (ns0_data_type (td_data_type d)), vn_current_read = True,
          vn_current_write = td_writable d\<rparr>,
         \<lparr>src_tag_id = td_id d, src_write_mode = mode, src_confirm_timeout_ms = 5000\<rparr>)) (reg_all_definitions_sorted r)
    \<and> folders_of log = folder_node be ns (be_ns0 be ns0_OBJECTSFOLDER) ''PLCs'' # map (folder_node be ns plcs) names
    \<and> distinct names \<and> set names = td_plc_name ` set (reg_all_definitions_sorted r)
    \<and> dom (map_of (sp_plc_nodes sp)) = set names
    \<and> dom (map_of (sp_tag_nodes sp)) = dom (reg_def r)"
proof -
  let ?ds = "reg_all_definitions_sorted r" and ?sp = "\<lparr>sp_plc_nodes = [], sp_tag_nodes = []\<rparr>"
  let ?names = "new_names {} (map td_plc_name ?ds)"
  let ?root = "folder_node be ns (be_ns0 be ns0_OBJECTSFOLDER) ''PLCs''"
  obtain plcs e1 where p: "be_add_object be ?root e = (Inr plcs, e1)" using assms(1) by blast
  have "\<exists>k e'. be_add_object (logged be) n x = (Inr k, e')" for n x
    using assms(1) [of n "fst x"] by (cases x) auto
  moreover have "\<exists>k e'. be_add_variable (logged be) n src x = (Inr k, e')" for n src x
    using assms(2) [of n src "fst x"] by (cases x) auto
  ultimately obtain sp e' log where a:
      "add_tag_nodes (logged be) ns mode plcs ?sp (e1, [AddObject ?root]) ?ds = (Inr sp, e', log)"
    using add_tag_nodes_accepting [of "logged be" ns mode plcs ?sp "(e1, [AddObject ?root])" ?ds] by auto
  have b: "build_address_space (logged be) ns mode r (e, []) = (Inr sp, e', log)"
    using p a by (simp add: build_address_space_split)
  have "dom (reg_def r) = td_id ` set ?ds" using definitions_listed [OF assms(3)] by auto
  then show ?thesis
    using b add_tag_nodes_logged [OF a] new_names_set [of "{}" "map td_plc_name ?ds"]
    by (intro exI [of _ sp] exI [of _ e'] exI [of _ log] exI [of _ plcs] exI [of _ ?names])
      (auto simp: variable_node_def tag_source_def TagDataSource_new_def ns0_ORGANIZES_def ns0_BASEDATAVARIABLETYPE_def)
qed

theorem address_space_complete_witness:
  "\<exists>sp e' log. build_address_space (logged permissive_backend) 1 ConfirmedAck example_registry (0, []) = (Inr sp, e', log)
    \<and> map (\<lambda>(n, src). (vn_browse_name n, vn_current_write n, src_tag_id src)) (variables_of log)
      = [((1, ''Level''), False, ''a'')]"
proof -
  have ds: "reg_all_definitions_sorted example_registry = [example_definition]"
    by (simp add: reg_all_definitions_sorted_def all_definitions_sorted_def example_registry_def)
  have "\<And>n e. \<exists>k e'. be_add_object permissive_backend n e = (Inr k, e')"
    "\<And>n src e. \<exists>k e'. be_add_variable permissive_backend n src e = (Inr k, e')"
    by (simp_all add: permissive_backend_def)
  from address_space_complete [OF this example_registry_wf, of 1 ConfirmedAck 0] show ?thesis
    by (auto simp: ds variable_node_def tag_source_def TagDataSource_new_def example_definition_def
        TagDefinition_new_def)
qed

text \<open>C35: Two tags whose ids agree after \<open>;s=\<close> ask for the same node id.  With a stack that refuses an id in use,
  the server then does not start, although the registry accepts both tags.\<close>

theorem colliding_node_ids_prevent_start:
  assumes "refuses_duplicates be nodes" and "reg_wf r"
    and "reg_def r i = Some d" and "reg_def r j = Some d'" and "i \<noteq> j"
    and "string_node_id i = string_node_id j"
  shows "\<exists>err. fst (start_native_server be cfg r login e) = Inl err"
proof -
  let ?ns = "be_add_namespace be (oc_namespace_uri cfg)" and ?ds = "reg_all_definitions_sorted r"
  have "d \<in> set ?ds" "d' \<in> set ?ds" "td_id d = i" "td_id d' = j"
    using definitions_listed [OF assms(2)] assms(3,4) by blast+
  then have "\<not> inj_on (\<lambda>d. be_string_id be ?ns (string_node_id (td_id d))) (set ?ds)"
    using assms(5,6) unfolding inj_on_def by metis
  then have "\<not> distinct (map (\<lambda>d. be_string_id be ?ns (string_node_id (td_id d))) ?ds)"
    by (simp add: distinct_map)
  then have "build_address_space be ?ns (oc_write_mode cfg) r e \<noteq> (Inr sp, e')" for sp e'
    using add_tag_nodes_distinct [OF assms(1)] by (auto simp: build_address_space_split)
  then obtain err e' where "build_address_space be ?ns (oc_write_mode cfg) r e = (Inl err, e')"
    by (metis prod.exhaust sum.exhaust)
  then show ?thesis
    by (auto simp: start_native_server_def Let_def split: sum.splits option.splits)
qed

definition colliding_definitions :: "TagDefinition list" where
  "colliding_definitions =
     [TagDefinition_new ''ns=1;s=x'' ''X'' ''40001'' TUInt16 ''plc'',
      TagDefinition_new ''ns=2;s=x'' ''X2'' ''40002'' TUInt16 ''plc'']"

theorem colliding_node_ids_prevent_start_witness:
  "\<exists>r err. from_definitions (\<lambda>_. 1) colliding_definitions = Inr r
    \<and> fst (start_native_server example_backend default_local r False []) = Inl err"
proof -
  have v: "list_all valid_definition colliding_definitions" "distinct (map td_id colliding_definitions)"
    by code_simp+
  obtain r where r: "from_definitions (\<lambda>_. 1) colliding_definitions = Inr r" "reg_wf r"
    using from_definitions_ok [OF v] by blast
  have d: "d \<in> set colliding_definitions \<Longrightarrow> reg_def r (td_id d) = Some d" for d
    using from_definitions_tag(1) [OF r(1)] .
  have "reg_def r ''ns=1;s=x'' = Some (colliding_definitions ! 0)"
    "reg_def r ''ns=2;s=x'' = Some (colliding_definitions ! 1)"
    using d [of "colliding_definitions ! 0"] d [of "colliding_definitions ! 1"]
    by (simp_all add: colliding_definitions_def TagDefinition_new_def)
  moreover have "string_node_id ''ns=1;s=x'' = string_node_id ''ns=2;s=x''"
    by (simp add: string_node_id_def)
  ultimately have "\<exists>err. fst (start_native_server example_backend default_local r False []) = Inl err"
    using colliding_node_ids_prevent_start [OF example_refuses_duplicates r(2), of "''ns=1;s=x''" _ "''ns=2;s=x''"]
    by simp
  then show ?thesis using r(1) by blast
qed

text \<open>C20: The bridge thread runs the handler over the writes it takes, one after the other in the order of the
  channel, and answers each with what the handler gave for it, once, when the write carries a reply
  channel.  It ends at the first timeout with the shutdown flag set or when the channel is gone; what
  comes after that is left untouched.\<close>

theorem bridge_refines_handler:
  "bridge_loop handle s evs =
     (let (s', results) = handled handle s (bridge_taken evs)
      in (s', concat (map2 bridge_answer (bridge_taken evs) results), list_ex bridge_ends evs,
          drop 1 (dropWhile (\<lambda>ev. \<not> bridge_ends ev) evs)))
   \<and> map fst (fst (snd (bridge_loop handle s evs))) = List.map_filter bw_reply (bridge_taken evs)"
proof -
  have "bridge_loop handle s evs =
     (let (s', results) = handled handle s (bridge_taken evs)
      in (s', concat (map2 bridge_answer (bridge_taken evs) results), list_ex bridge_ends evs,
          drop 1 (dropWhile (\<lambda>ev. \<not> bridge_ends ev) evs)))"
    by (induction evs arbitrary: s rule: bridge_taken.induct) (simp_all add: case_prod_beta bridge_ends_def)
  then show ?thesis by (simp add: case_prod_beta bridge_answer_ids)
qed


end
