(* ===== verification/Startup.thy ===== *)
theory Startup
  imports Runtime_Config Runtime_Driver Runtime_Write Opcua_Server
begin

text \<open>
  \<open>src/runtime/src/main.rs\<close>: from the configuration to a running bridge.  The environment is a
  parameter: name resolution, the iteration orders of the hash maps in the drivers' validation, and the
  build profile.  An \<open>anyhow\<close> error is its outermost message.  A call may also panic or never return
  (\<open>outcome\<close>).

  A driver's write queue is named by the position of the driver in the list of drivers.
\<close>

record startup_env =
  se_profile :: profile
  se_lookup_host :: "string \<Rightarrow> string + string list"
  se_areas :: "TagMapping list \<Rightarrow> u8 list"
  se_functions :: "ModbusMapping list \<Rightarrow> ModbusFunction list"

definition unwrap_or :: "'a option \<Rightarrow> 'a \<Rightarrow> 'a" where
  "unwrap_or x d = (case x of None \<Rightarrow> d | Some y \<Rightarrow> y)"

definition resolve_endpoint :: "startup_env \<Rightarrow> string \<Rightarrow> string \<Rightarrow> string + string" where
  "resolve_endpoint env host_port plc_name =
     (case se_lookup_host env host_port of
        Inl _ \<Rightarrow> Inl (''Failed to resolve endpoint '' @ host_port @ '' for '' @ plc_name)
      | Inr [] \<Rightarrow> Inl (''No addresses found for '' @ host_port)
      | Inr (a # _) \<Rightarrow> Inr a)"

text \<open>The loops that convert the tags of a PLC, with the context they add to an error.\<close>

fun convert_tags :: "(TagConfig \<Rightarrow> string + 'm) \<Rightarrow> string \<Rightarrow> string \<Rightarrow> TagConfig list \<Rightarrow> string + 'm list" where
  "convert_tags conv what plc [] = Inr []"
| "convert_tags conv what plc (t # ts) =
     (case conv t of
        Inl _ \<Rightarrow> Inl (what @ plc @ ''::'' @ tc_id t)
      | Inr m \<Rightarrow> result_bind (convert_tags conv what plc ts) (\<lambda>ms. Inr (m # ms)))"

section \<open>Drivers\<close>

datatype plc_driver = FinsPlc FinsConfig "ReadGroup list" | ModbusPlc ModbusConfig

record setup_state =
  ss_handler :: RuntimeWriteHandler
  ss_drivers :: "plc_driver runtime_driver list"

definition started_driver :: "PlcConfig \<Rightarrow> plc_driver \<Rightarrow> plc_driver runtime_driver" where
  "started_driver plc drv = rd_start drv (rd_set_health_sender (RuntimeDriver_new (pc_name plc) (pc_cycle_ms plc)))"

definition fins_config_of :: "PlcConfig \<Rightarrow> string \<Rightarrow> TagMapping list \<Rightarrow> FinsConfig" where
  "fins_config_of plc endpoint mappings =
     \<lparr>fc_name = pc_name plc, fc_endpoint = endpoint, fc_cycle_ms = pc_cycle_ms plc,
      fc_keepalive_secs = unwrap_or (pc_keepalive_secs plc) 30,
      fc_max_backoff_secs = unwrap_or (pc_max_backoff_secs plc) 30, fc_mappings = mappings,
      fc_max_words_per_request = unwrap_or (pc_max_words_per_request plc) 960\<rparr>"

definition modbus_config_of :: "PlcConfig \<Rightarrow> string \<Rightarrow> ModbusMapping list \<Rightarrow> ModbusConfig" where
  "modbus_config_of plc endpoint mappings =
     \<lparr>mc_name = pc_name plc, mc_endpoint = endpoint, mc_unit_id = unwrap_or (pc_unit_id plc) 1,
      mc_cycle_ms = pc_cycle_ms plc, mc_mappings = mappings,
      mc_keepalive_secs = unwrap_or (pc_keepalive_secs plc) 30,
      mc_max_backoff_secs = unwrap_or (pc_max_backoff_secs plc) 30,
      mc_io_timeout_ms = unwrap_or (pc_io_timeout_ms plc) 2000\<rparr>"

text \<open>\<open>FinsDriver::new\<close> groups the reads before \<open>validate\<close> looks at the mappings.\<close>

definition setup_fins_driver :: "startup_env \<Rightarrow> PlcConfig \<Rightarrow> setup_state \<Rightarrow> (string + setup_state) outcome" where
  "setup_fins_driver env plc st =
     (case resolve_endpoint env (pc_endpoint plc) (pc_name plc) of
        Inl e \<Rightarrow> Value (Inl e)
      | Inr endpoint \<Rightarrow>
          (case convert_tags tagconfig_to_fins_mapping ''FINS mapping error for '' (pc_name plc) (pc_tags plc) of
             Inl e \<Rightarrow> Value (Inl e)
           | Inr mappings \<Rightarrow>
               let cfg = fins_config_of plc endpoint mappings
               in outcome_bind (FinsDriver_read_groups (se_profile env) cfg) (\<lambda>groups.
                 case fins_validate (se_areas env mappings) cfg of
                   Inl e \<Rightarrow>
                     Value (Inl (''FINS driver validation failed for '' @ pc_name plc @ '': '' @ FinsError_display e))
                 | Inr _ \<Rightarrow>
                     let queue = length (ss_drivers st)
                     in Value (Inr
                       \<lparr>ss_handler = foldl (\<lambda>h t. add_route_for_fins h (tc_id t) queue) (ss_handler st) (pc_tags plc),
                        ss_drivers = ss_drivers st @ [started_driver plc (FinsPlc cfg groups)]\<rparr>))))"

definition setup_modbus_driver :: "startup_env \<Rightarrow> PlcConfig \<Rightarrow> setup_state \<Rightarrow> (string + setup_state) outcome" where
  "setup_modbus_driver env plc st =
     (case resolve_endpoint env (pc_endpoint plc) (pc_name plc) of
        Inl e \<Rightarrow> Value (Inl e)
      | Inr endpoint \<Rightarrow>
          (case convert_tags tagconfig_to_modbus_mapping ''Modbus mapping error for '' (pc_name plc) (pc_tags plc) of
             Inl e \<Rightarrow> Value (Inl e)
           | Inr mappings \<Rightarrow>
               let cfg = modbus_config_of plc endpoint mappings
               in case modbus_validate (se_functions env mappings) cfg of
                    Inl e \<Rightarrow>
                      Value (Inl (''Modbus driver validation failed for '' @ pc_name plc @ '': '' @ DriverError_display e))
                  | Inr _ \<Rightarrow>
                      let queue = length (ss_drivers st)
                      in Value (Inr
                        \<lparr>ss_handler = foldl (\<lambda>h t. add_route_for_modbus h (tc_id t) queue) (ss_handler st) (pc_tags plc),
                         ss_drivers = ss_drivers st @ [started_driver plc (ModbusPlc cfg)]\<rparr>)))"

definition setup_plc :: "startup_env \<Rightarrow> PlcConfig \<Rightarrow> setup_state \<Rightarrow> (string + setup_state) outcome" where
  "setup_plc env plc st =
     (let protocol = to_lowercase (pc_protocol plc)
      in if protocol = ''fins'' then setup_fins_driver env plc st
         else if protocol = ''modbus'' then setup_modbus_driver env plc st
         else Value (Inr st))"

fun setup_plcs :: "startup_env \<Rightarrow> setup_state \<Rightarrow> PlcConfig list \<Rightarrow> (string + setup_state) outcome" where
  "setup_plcs env st [] = Value (Inr st)"
| "setup_plcs env st (plc # plcs) =
     outcome_bind (setup_plc env plc st) (\<lambda>res.
       case res of Inl e \<Rightarrow> Value (Inl e) | Inr st' \<Rightarrow> setup_plcs env st' plcs)"

section \<open>The OPC UA configuration\<close>

definition build_opcua_config ::
  "RtOpcUaConfig \<Rightarrow> WriteMode \<Rightarrow> SecurityMode \<Rightarrow> SecurityPolicy \<Rightarrow> OpcUaConfig" where
  "build_opcua_config c write_mode security_mode security_policy =
     \<lparr>oc_bind_addr = ro_bind_addr c, oc_port = ro_port c, oc_application_name = ro_application_name c,
      oc_application_uri = ro_application_uri c, oc_namespace_uri = ro_namespace_uri c,
      oc_anonymous_enabled = ro_anonymous_enabled c,
      oc_username_password_enabled = ro_username_password_enabled c,
      oc_max_sessions = ro_max_sessions c, oc_max_subscriptions = ro_max_subscriptions c,
      oc_write_mode = write_mode, oc_security_mode = security_mode, oc_security_policy = security_policy,
      oc_certificates =
        \<lparr>cert_server_certificate_path = ro_server_certificate_path c,
         cert_server_private_key_path = ro_server_private_key_path c,
         cert_trust_store_dir = ro_trust_store_dir c, cert_reject_store_dir = ro_reject_store_dir c,
         cert_min_key_length = unwrap_or (ro_min_key_length c) 2048\<rparr>\<rparr>"

definition security_mode_debug :: "SecurityMode \<Rightarrow> string" where
  "security_mode_debug m = (case m of SecNone \<Rightarrow> ''None'' | Sign \<Rightarrow> ''Sign'' | SignAndEncrypt \<Rightarrow> ''SignAndEncrypt'')"

definition opcua_config_of :: "RtOpcUaConfig \<Rightarrow> string + OpcUaConfig" where
  "opcua_config_of c =
     result_bind (parse_write_mode (ro_write_mode c)) (\<lambda>write_mode.
     result_bind (parse_security_mode (ro_security_mode c)) (\<lambda>security_mode.
     result_bind (parse_security_policy (ro_security_policy c)) (\<lambda>security_policy.
       if security_mode \<noteq> SecNone \<and> (ro_server_certificate_path c = None \<or> ro_server_private_key_path c = None)
       then Inl (''Security mode '' @ security_mode_debug security_mode
              @ '' requires server_certificate_path and server_private_key_path to be set'')
       else
         let cfg = build_opcua_config c write_mode security_mode security_policy
         in case validate_opcua_config cfg of
              Inl e \<Rightarrow> Inl (''OPC UA configuration is invalid: '' @ ConfigError_display e)
            | Inr _ \<Rightarrow> Inr cfg)))"

section \<open>Main\<close>

fun collect_definitions :: "PlcConfig list \<Rightarrow> string + TagDefinition list" where
  "collect_definitions [] = Inr []"
| "collect_definitions (plc # plcs) =
     result_bind (convert_tags (\<lambda>t. tagconfig_to_definition t (pc_name plc)) ''Failed to convert tag config for ''
       (pc_name plc) (pc_tags plc)) (\<lambda>ds.
     result_bind (collect_definitions plcs) (\<lambda>ds'. Inr (ds @ ds')))"

record 'n bridge =
  br_registry :: TagRegistry
  br_handler :: RuntimeWriteHandler
  br_drivers :: "plc_driver runtime_driver list"
  br_known_plcs :: "string list"
  br_opcua :: OpcUaConfig
  br_server :: "'n running_server"

text \<open>After the configuration is loaded.  A health channel of capacity zero is a panic of the channel library.\<close>

definition main_run ::
  "startup_env \<Rightarrow> ('n, 'e) backend \<Rightarrow> (nat \<Rightarrow> datetime) \<Rightarrow> RuntimeConfig \<Rightarrow> 'e \<Rightarrow> (string + 'n bridge) outcome" where
  "main_run env be clk cfg e =
     (case collect_definitions (rc_plcs cfg) of
        Inl err \<Rightarrow> Value (Inl err)
      | Inr definitions \<Rightarrow>
          (case from_definitions clk definitions of
             Inl err \<Rightarrow> Value (Inl (''Failed building TagRegistry: '' @ CoreError_display err))
           | Inr registry \<Rightarrow>
               let handler = with_driver_send_timeout
                     (RuntimeWriteHandler_new (unwrap_or (rc_write_confirm_timeout_ms cfg) 5000))
                     (unwrap_or (rc_driver_write_send_timeout_ms cfg) 2000)
               in if unwrap_or (rc_health_channel_capacity cfg) 128 = 0 then Panics
                  else outcome_bind (setup_plcs env \<lparr>ss_handler = handler, ss_drivers = []\<rparr> (rc_plcs cfg)) (\<lambda>res.
                    case res of
                      Inl err \<Rightarrow> Value (Inl err)
                    | Inr st \<Rightarrow>
                        (case opcua_config_of (rc_opcua cfg) of
                           Inl err \<Rightarrow> Value (Inl err)
                         | Inr opcua \<Rightarrow>
                             (case Server_start be opcua registry e of
                                (Inl err, _) \<Rightarrow> Value (Inl (''OPC UA server error: '' @ ServerError_display err))
                              | (Inr server, _) \<Rightarrow>
                                  Value (Inr \<lparr>br_registry = registry, br_handler = ss_handler st,
                                    br_drivers = ss_drivers st, br_known_plcs = map pc_name (rc_plcs cfg),
                                    br_opcua = opcua, br_server = server\<rparr>))))))"

definition main_startup ::
  "startup_env \<Rightarrow> ('n, 'e) backend \<Rightarrow> (nat \<Rightarrow> datetime) \<Rightarrow> (string \<Rightarrow> string + string)
   \<Rightarrow> (string \<Rightarrow> string + RuntimeConfig) \<Rightarrow> (string \<Rightarrow> string + RuntimeConfig) \<Rightarrow> string \<Rightarrow> 'e
   \<Rightarrow> (string + 'n bridge) outcome" where
  "main_startup env be clk read_to_string toml yaml path e =
     (case read_to_string path of
        Inl _ \<Rightarrow> Value (Inl (''Failed reading config '' @ path))
      | Inr cfg_text \<Rightarrow>
          (case load_runtime_config toml yaml path cfg_text of
             Inl err \<Rightarrow> Value (Inl (''Config parse error: '' @ err))
           | Inr cfg \<Rightarrow> main_run env be clk cfg e))"

text \<open>The health task: it keeps the last event of every known PLC.\<close>

definition event_plc :: "json \<Rightarrow> string option" where
  "event_plc evt =
     (case evt of
        JObject kvs \<Rightarrow> (case map_of kvs ''plc'' of Some (JString s) \<Rightarrow> Some s | _ \<Rightarrow> None)
      | _ \<Rightarrow> None)"

definition health_insert :: "string list \<Rightarrow> (string \<times> json) list \<Rightarrow> json \<Rightarrow> (string \<times> json) list" where
  "health_insert known dash evt =
     (case event_plc evt of
        Some plc \<Rightarrow> if plc \<in> set known then AList.update plc evt dash else dash
      | None \<Rightarrow> dash)"

definition health_task :: "string list \<Rightarrow> json list \<Rightarrow> (string \<times> json) list" where
  "health_task known events = foldl (health_insert known) [] events"

text \<open>Shutdown stops the drivers one after the other; \<open>settle\<close> is what becomes of a driver's task while its
  \<open>stop\<close> waits.  \<open>None\<close>: a \<open>stop\<close> does not return.\<close>

fun stop_drivers ::
  "('s runtime_driver \<Rightarrow> 's runtime_driver) \<Rightarrow> 's runtime_driver list \<Rightarrow> 's runtime_driver list option" where
  "stop_drivers settle [] = Some []"
| "stop_drivers settle (d # ds) =
     (case rd_stop_returns (settle (rd_request_stop d)) of
        None \<Rightarrow> None
      | Some d' \<Rightarrow> map_option (\<lambda>ds'. d' # ds') (stop_drivers settle ds))"

section \<open>Lemmas\<close>

lemma sum_unit_iff: "(x :: 'e + unit) = Inr () \<longleftrightarrow> (\<forall>e. x \<noteq> Inl e)"
  by (cases x) auto

lemma convert_tags_Inr:
  "convert_tags conv what plc ts = Inr ms \<longleftrightarrow> list_all2 (\<lambda>t m. conv t = Inr m) ts ms"
proof (induction ts arbitrary: ms)
  case (Cons t ts)
  then show ?case
    by (cases "conv t"; cases ms) (auto simp: result_bind_Inr_iff)
qed auto

lemma list_all2_Inr_set:
  assumes "list_all2 (\<lambda>t m. conv t = Inr m) ts ms"
  shows "m \<in> set ms \<Longrightarrow> \<exists>t \<in> set ts. conv t = Inr m" and "t \<in> set ts \<Longrightarrow> \<exists>m \<in> set ms. conv t = Inr m"
  using assms by (induction rule: list_all2_induct) auto

lemma collect_definitions_mem:
  assumes "collect_definitions plcs = Inr ds" and "plc \<in> set plcs" and "t \<in> set (pc_tags plc)"
  shows "\<exists>d \<in> set ds. tagconfig_to_definition t (pc_name plc) = Inr d"
  using assms
proof (induction plcs arbitrary: ds)
  case (Cons p plcs)
  then show ?case
    by (auto simp: result_bind_Inr_iff convert_tags_Inr dest: list_all2_Inr_set(2))
qed simp

lemma foldl_routes:
  "map_of (wh_routing (foldl (\<lambda>h t. add_route_for_fins h (tc_id t) q) h ts)) x =
     (if x \<in> tc_id ` set ts then Some (FinsSender q) else map_of (wh_routing h) x)"
  "map_of (wh_routing (foldl (\<lambda>h t. add_route_for_modbus h (tc_id t) q) h ts)) x =
     (if x \<in> tc_id ` set ts then Some (ModbusSender q) else map_of (wh_routing h) x)"
  by (induction ts arbitrary: h) auto

definition driver_of :: "'s runtime_driver \<Rightarrow> 's" where
  "driver_of rd = po_driver (the (rd_task rd))"

lemma driver_of_started [simp]: "driver_of (started_driver plc drv) = drv"
  by (simp add: driver_of_def started_driver_def rd_start_def rd_set_health_sender_def RuntimeDriver_new_def)

section \<open>A consistent bridge\<close>

text \<open>Every mapping of a driver is for a defined tag and agrees with the definition; the mappings are
  validated and, with FINS, grouped.\<close>

definition driver_consistent :: "startup_env \<Rightarrow> TagRegistry \<Rightarrow> plc_driver \<Rightarrow> bool" where
  "driver_consistent env r drv =
     (case drv of
        FinsPlc cfg groups \<Rightarrow>
          fins_validate (se_areas env (fc_mappings cfg)) cfg = Inr ()
          \<and> FinsDriver_read_groups (se_profile env) cfg = Value groups
          \<and> (\<forall>m \<in> set (fc_mappings cfg). \<exists>d. reg_def r (tm_tag_id m) = Some d
               \<and> tm_data_type m = td_data_type d \<and> tm_byte_order m = td_byte_order d \<and> tm_writable m = td_writable d)
      | ModbusPlc cfg \<Rightarrow>
          modbus_validate (se_functions env (mc_mappings cfg)) cfg = Inr ()
          \<and> (\<forall>m \<in> set (mc_mappings cfg). \<exists>d. reg_def r (mm_tag_id m) = Some d
               \<and> mm_data_type m = td_data_type d \<and> mm_byte_order m = td_byte_order d \<and> mm_writable m = td_writable d))"

text \<open>A route leads to the queue of a driver of the same protocol that has a mapping for the tag.\<close>

definition route_served :: "plc_driver runtime_driver list \<Rightarrow> string \<Rightarrow> DriverSender \<Rightarrow> bool" where
  "route_served drivers tid sender =
     (case sender of
        FinsSender q \<Rightarrow> q < length drivers
          \<and> (case driver_of (drivers ! q) of
               FinsPlc cfg _ \<Rightarrow> (\<exists>m \<in> set (fc_mappings cfg). tm_tag_id m = tid) | _ \<Rightarrow> False)
      | ModbusSender q \<Rightarrow> q < length drivers
          \<and> (case driver_of (drivers ! q) of
               ModbusPlc cfg \<Rightarrow> (\<exists>m \<in> set (mc_mappings cfg). mm_tag_id m = tid) | _ \<Rightarrow> False))"

definition setup_consistent :: "startup_env \<Rightarrow> TagRegistry \<Rightarrow> setup_state \<Rightarrow> bool" where
  "setup_consistent env r st \<longleftrightarrow>
     (\<forall>rd \<in> set (ss_drivers st). driver_consistent env r (driver_of rd))
     \<and> (\<forall>tid sender. map_of (wh_routing (ss_handler st)) tid = Some sender \<longrightarrow> route_served (ss_drivers st) tid sender)"

text \<open>What setting up a PLC adds.\<close>

definition supported :: "PlcConfig \<Rightarrow> bool" where
  "supported plc \<longleftrightarrow> to_lowercase (pc_protocol plc) \<in> {''fins'', ''modbus''}"

definition defined_tags :: "TagRegistry \<Rightarrow> PlcConfig \<Rightarrow> bool" where
  "defined_tags r plc \<longleftrightarrow>
     (\<forall>t \<in> set (pc_tags plc). \<exists>d. tagconfig_to_definition t (pc_name plc) = Inr d \<and> reg_def r (tc_id t) = Some d)"

lemma route_served_append: "route_served drivers tid s \<Longrightarrow> route_served (drivers @ ds) tid s"
  by (auto simp: route_served_def nth_append split: DriverSender.splits)

lemma setup_fins_ok:
  assumes "setup_fins_driver env plc st = Value (Inr st')" and "setup_consistent env r st"
    and "defined_tags r plc"
  shows "setup_consistent env r st'"
    and "dom (map_of (wh_routing (ss_handler st'))) =
      dom (map_of (wh_routing (ss_handler st))) \<union> tc_id ` set (pc_tags plc)"
proof -
  obtain endpoint mappings groups where
    conv: "list_all2 (\<lambda>t m. tagconfig_to_fins_mapping t = Inr m) (pc_tags plc) mappings"
    and groups: "FinsDriver_read_groups (se_profile env) (fins_config_of plc endpoint mappings) = Value groups"
    and valid: "fins_validate (se_areas env mappings) (fins_config_of plc endpoint mappings) = Inr ()"
    and st': "st' = \<lparr>ss_handler = foldl (\<lambda>h t. add_route_for_fins h (tc_id t) (length (ss_drivers st))) (ss_handler st) (pc_tags plc),
        ss_drivers = ss_drivers st @ [started_driver plc (FinsPlc (fins_config_of plc endpoint mappings) groups)]\<rparr>"
    using assms(1)
    by (auto simp: setup_fins_driver_def Let_def convert_tags_Inr outcome_bind_Value sum_unit_iff split: sum.splits)
  have ids: "t \<in> set (pc_tags plc) \<Longrightarrow> \<exists>m \<in> set mappings. tm_tag_id m = tc_id t" for t
    using list_all2_Inr_set(2) [OF conv] by (fastforce simp: to_fins_mapping_iff)
  have agree: "\<exists>d. reg_def r (tm_tag_id m) = Some d
      \<and> tm_data_type m = td_data_type d \<and> tm_byte_order m = td_byte_order d \<and> tm_writable m = td_writable d"
    if m: "m \<in> set mappings" for m
  proof -
    obtain t where t: "t \<in> set (pc_tags plc)" "tagconfig_to_fins_mapping t = Inr m"
      using list_all2_Inr_set(1) [OF conv m] by blast
    obtain d where d: "tagconfig_to_definition t (pc_name plc) = Inr d" "reg_def r (tc_id t) = Some d"
      using assms(3) t(1) by (auto simp: defined_tags_def)
    from conversions_agree(2) [OF d(1) t(2)] d show ?thesis by (auto simp: to_definition_iff)
  qed
  have "driver_consistent env r (FinsPlc (fins_config_of plc endpoint mappings) groups)"
    using groups valid agree by (simp add: driver_consistent_def fins_config_of_def)
  then show "setup_consistent env r st'"
    using assms(2) ids route_served_append
    by (auto simp: setup_consistent_def st' foldl_routes split: if_splits)
      (auto simp: route_served_def fins_config_of_def)
  show "dom (map_of (wh_routing (ss_handler st'))) =
      dom (map_of (wh_routing (ss_handler st))) \<union> tc_id ` set (pc_tags plc)"
    by (auto simp: st' foldl_routes split: if_splits)
qed

lemma setup_modbus_ok:
  assumes "setup_modbus_driver env plc st = Value (Inr st')" and "setup_consistent env r st"
    and "defined_tags r plc"
  shows "setup_consistent env r st'"
    and "dom (map_of (wh_routing (ss_handler st'))) =
      dom (map_of (wh_routing (ss_handler st))) \<union> tc_id ` set (pc_tags plc)"
proof -
  obtain endpoint mappings where
    conv: "list_all2 (\<lambda>t m. tagconfig_to_modbus_mapping t = Inr m) (pc_tags plc) mappings"
    and valid: "modbus_validate (se_functions env mappings) (modbus_config_of plc endpoint mappings) = Inr ()"
    and st': "st' = \<lparr>ss_handler = foldl (\<lambda>h t. add_route_for_modbus h (tc_id t) (length (ss_drivers st))) (ss_handler st) (pc_tags plc),
        ss_drivers = ss_drivers st @ [started_driver plc (ModbusPlc (modbus_config_of plc endpoint mappings))]\<rparr>"
    using assms(1) by (auto simp: setup_modbus_driver_def Let_def convert_tags_Inr sum_unit_iff split: sum.splits)
  have ids: "t \<in> set (pc_tags plc) \<Longrightarrow> \<exists>m \<in> set mappings. mm_tag_id m = tc_id t" for t
    using list_all2_Inr_set(2) [OF conv] by (fastforce simp: to_modbus_mapping_iff)
  have agree: "\<exists>d. reg_def r (mm_tag_id m) = Some d
      \<and> mm_data_type m = td_data_type d \<and> mm_byte_order m = td_byte_order d \<and> mm_writable m = td_writable d"
    if m: "m \<in> set mappings" for m
  proof -
    obtain t where t: "t \<in> set (pc_tags plc)" "tagconfig_to_modbus_mapping t = Inr m"
      using list_all2_Inr_set(1) [OF conv m] by blast
    obtain d where d: "tagconfig_to_definition t (pc_name plc) = Inr d" "reg_def r (tc_id t) = Some d"
      using assms(3) t(1) by (auto simp: defined_tags_def)
    from conversions_agree(1) [OF d(1) t(2)] d show ?thesis by (auto simp: to_definition_iff)
  qed
  have "driver_consistent env r (ModbusPlc (modbus_config_of plc endpoint mappings))"
    using valid agree by (simp add: driver_consistent_def modbus_config_of_def)
  then show "setup_consistent env r st'"
    using assms(2) ids route_served_append
    by (auto simp: setup_consistent_def st' foldl_routes split: if_splits)
      (auto simp: route_served_def modbus_config_of_def)
  show "dom (map_of (wh_routing (ss_handler st'))) =
      dom (map_of (wh_routing (ss_handler st))) \<union> tc_id ` set (pc_tags plc)"
    by (auto simp: st' foldl_routes split: if_splits)
qed

lemma setup_plcs_ok:
  assumes "setup_plcs env st plcs = Value (Inr st')" and "setup_consistent env r st"
    and "\<forall>plc \<in> set plcs. defined_tags r plc"
  shows "setup_consistent env r st'
    \<and> dom (map_of (wh_routing (ss_handler st'))) = dom (map_of (wh_routing (ss_handler st)))
        \<union> (\<Union>plc \<in> {plc \<in> set plcs. supported plc}. tc_id ` set (pc_tags plc))"
  using assms
proof (induction plcs arbitrary: st)
  case (Cons plc plcs)
  obtain res where res: "setup_plc env plc st = Value res"
    using Cons.prems(1) by (auto simp: outcome_bind_Value)
  then obtain st1 where p: "setup_plc env plc st = Value (Inr st1)" and rest: "setup_plcs env st1 plcs = Value (Inr st')"
    using Cons.prems(1) by (cases res) auto
  have "setup_consistent env r st1
    \<and> dom (map_of (wh_routing (ss_handler st1))) = dom (map_of (wh_routing (ss_handler st)))
      \<union> (if supported plc then tc_id ` set (pc_tags plc) else {})"
    using p setup_fins_ok [of env plc st st1 r] setup_modbus_ok [of env plc st st1 r] Cons.prems(2,3)
    by (auto simp: setup_plc_def Let_def supported_def split: if_splits)
  with Cons.IH [OF rest] Cons.prems(3) show ?case by auto
qed simp

lemma collect_definitions_ids:
  assumes "collect_definitions plcs = Inr ds"
  shows "td_id ` set ds = (\<Union>plc \<in> set plcs. tc_id ` set (pc_tags plc))"
  using assms
proof (induction plcs arbitrary: ds)
  case (Cons p plcs)
  obtain ds1 ds2 where ds: "ds = ds1 @ ds2" "collect_definitions plcs = Inr ds2"
      "list_all2 (\<lambda>t d. tagconfig_to_definition t (pc_name p) = Inr d) (pc_tags p) ds1"
    using Cons.prems by (auto simp: result_bind_Inr_iff convert_tags_Inr)
  from ds(3) have "td_id ` set ds1 = tc_id ` set (pc_tags p)"
    by (induction rule: list_all2_induct) (auto simp: to_definition_iff)
  with Cons.IH [OF ds(2)] ds(1) show ?case by (simp add: image_Un)
qed simp

lemma secure_start_keys:
  assumes "Server_start be cfg r e = (Inr server, e')" and "oc_security_mode cfg \<noteq> SecNone"
  shows "su_keys (rs_setup server) \<noteq> None"
proof -
  obtain keys accept where k: "security_setup be cfg = Inr (keys, accept)"
    using assms(1) by (auto simp: Server_start_def start_with_login_cb_def start_native_server_def Let_def
        split: sum.splits prod.splits)
  then have "keys \<noteq> None" using assms(2) by (auto simp: security_setup_def split: option.splits sum.splits)
  then show ?thesis
    using assms(1) k
    by (auto simp: Server_start_def start_with_login_cb_def start_native_server_def Let_def
        split: sum.splits prod.splits if_splits option.splits)
qed

lemma main_run_Inr:
  assumes "main_run env be clk cfg e = Value (Inr br)"
  obtains definitions handler st server e' where "collect_definitions (rc_plcs cfg) = Inr definitions"
    and "from_definitions clk definitions = Inr (br_registry br)" and "wh_routing handler = []"
    and "setup_plcs env \<lparr>ss_handler = handler, ss_drivers = []\<rparr> (rc_plcs cfg) = Value (Inr st)"
    and "br_handler br = ss_handler st" and "br_drivers br = ss_drivers st"
    and "opcua_config_of (rc_opcua cfg) = Inr (br_opcua br)"
    and "Server_start be (br_opcua br) (br_registry br) e = (Inr (br_server br), e')"
    and "br_known_plcs br = map pc_name (rc_plcs cfg)"
proof -
  let ?h = "with_driver_send_timeout (RuntimeWriteHandler_new (unwrap_or (rc_write_confirm_timeout_ms cfg) 5000))
     (unwrap_or (rc_driver_write_send_timeout_ms cfg) 2000)"
  obtain defs where d: "collect_definitions (rc_plcs cfg) = Inr defs"
    using assms by (auto simp: main_run_def split: sum.splits)
  obtain r where r: "from_definitions clk defs = Inr r"
    using assms d by (auto simp: main_run_def split: sum.splits)
  obtain res where res: "setup_plcs env \<lparr>ss_handler = ?h, ss_drivers = []\<rparr> (rc_plcs cfg) = Value res"
    using assms d r by (auto simp: main_run_def Let_def outcome_bind_Value split: if_splits)
  then obtain st where st: "res = Inr st" using assms d r by (cases res) (auto simp: main_run_def Let_def split: if_splits)
  obtain opcua where o: "opcua_config_of (rc_opcua cfg) = Inr opcua"
    using assms d r res st by (auto simp: main_run_def Let_def split: if_splits sum.splits)
  obtain server e' where s: "Server_start be opcua r e = (Inr server, e')"
    using assms d r res st o by (auto simp: main_run_def Let_def split: if_splits sum.splits prod.splits)
  have "br = \<lparr>br_registry = r, br_handler = ss_handler st, br_drivers = ss_drivers st,
      br_known_plcs = map pc_name (rc_plcs cfg), br_opcua = opcua, br_server = server\<rparr>"
    using assms d r res st o s by (simp add: main_run_def Let_def split: if_splits)
  moreover have "wh_routing ?h = []" by (simp add: with_driver_send_timeout_def RuntimeWriteHandler_new_def)
  ultimately show thesis using that d r res st o s by simp
qed

text \<open>The pollers that a bridge starts, and how fast they poll.\<close>

lemma started_driver_fields:
  "rd_poll_ms (started_driver plc drv) = pc_cycle_ms plc" "rd_name (started_driver plc drv) = pc_name plc"
  "rd_max_backoff_secs (started_driver plc drv) = 30" "rd_health_tx (started_driver plc drv)"
  by (simp_all add: started_driver_def rd_start_def rd_set_health_sender_def RuntimeDriver_new_def)

lemma setup_plcs_drivers:
  assumes "setup_plcs env st plcs = Value (Inr st')"
  shows "\<forall>rd \<in> set (ss_drivers st'). rd \<in> set (ss_drivers st) \<or> (\<exists>plc \<in> set plcs. \<exists>drv. rd = started_driver plc drv)"
  using assms
proof (induction plcs arbitrary: st)
  case (Cons plc plcs)
  obtain res where res: "setup_plc env plc st = Value res" using Cons.prems by (auto simp: outcome_bind_Value)
  then obtain st1 where p: "setup_plc env plc st = Value (Inr st1)" and rest: "setup_plcs env st1 plcs = Value (Inr st')"
    using Cons.prems by (cases res) auto
  have "set (ss_drivers st1) \<subseteq> set (ss_drivers st) \<union> range (started_driver plc)"
    using p
    by (auto simp: setup_plc_def setup_fins_driver_def setup_modbus_driver_def Let_def outcome_bind_Value
        sum_unit_iff split: if_splits sum.splits)
  with Cons.IH [OF rest] show ?case by auto
qed simp

lemma check_cycles_None: "check_cycles plcs = None \<longleftrightarrow> (\<forall>plc \<in> set plcs. 10 \<le> unat (pc_cycle_ms plc))"
  by (induction plcs) (auto simp: word_less_nat_alt)

lemma loaded_cycles:
  assumes "load_runtime_config toml yaml path body = Inr cfg"
  shows "\<forall>plc \<in> set (rc_plcs cfg). 10 \<le> unat (pc_cycle_ms plc)"
proof -
  have "check_cycles (rc_plcs cfg) = None"
    using assms by (auto simp: load_runtime_config_def Let_def split: sum.splits option.splits)
  then show ?thesis by (simp add: check_cycles_None)
qed

text \<open>The health task keeps, for every known PLC, the last event that names it, and nothing else.\<close>

lemma health_task_keeps_last_events:
  "map_of (health_task known events) plc =
     (if plc \<in> set known then find_first (\<lambda>evt. event_plc evt = Some plc) (rev events) else None)"
proof (induction events rule: rev_induct)
  case (snoc evt events)
  then show ?case
    by (auto simp: health_task_def health_insert_def AList.update_conv' split: option.splits)
qed (simp add: health_task_def)

text \<open>What holds of the parts of a started bridge.\<close>

lemma main_run_setup:
  assumes "main_run env be clk cfg e = Value (Inr br)"
  shows "reg_wf (br_registry br)"
    and "dom (reg_def (br_registry br)) = (\<Union>plc \<in> set (rc_plcs cfg). tc_id ` set (pc_tags plc))"
    and "setup_consistent env (br_registry br) \<lparr>ss_handler = br_handler br, ss_drivers = br_drivers br\<rparr>"
    and "dom (map_of (wh_routing (br_handler br))) =
      (\<Union>plc \<in> {plc \<in> set (rc_plcs cfg). supported plc}. tc_id ` set (pc_tags plc))"
    and "\<forall>rd \<in> set (br_drivers br). \<exists>plc drv. rd = started_driver plc drv"
proof -
  obtain defs h st server e' where d: "collect_definitions (rc_plcs cfg) = Inr defs"
      and r: "from_definitions clk defs = Inr (br_registry br)" and h: "wh_routing h = []"
      and st: "setup_plcs env \<lparr>ss_handler = h, ss_drivers = []\<rparr> (rc_plcs cfg) = Value (Inr st)"
      and br: "br_handler br = ss_handler st" "br_drivers br = ss_drivers st"
    using assms by (rule main_run_Inr)
  have "defined_tags (br_registry br) plc" if "plc \<in> set (rc_plcs cfg)" for plc
    using collect_definitions_mem [OF d that] from_definitions_tag(1) [OF r]
    by (fastforce simp: defined_tags_def to_definition_iff)
  moreover have "setup_consistent env (br_registry br) \<lparr>ss_handler = h, ss_drivers = []\<rparr>"
    by (simp add: setup_consistent_def h)
  ultimately have "setup_consistent env (br_registry br) st
    \<and> dom (map_of (wh_routing (ss_handler st))) =
        (\<Union>plc \<in> {plc \<in> set (rc_plcs cfg). supported plc}. tc_id ` set (pc_tags plc))"
    using setup_plcs_ok [OF st] by (simp add: h)
  then show "setup_consistent env (br_registry br) \<lparr>ss_handler = br_handler br, ss_drivers = br_drivers br\<rparr>"
    and "dom (map_of (wh_routing (br_handler br))) =
      (\<Union>plc \<in> {plc \<in> set (rc_plcs cfg). supported plc}. tc_id ` set (pc_tags plc))"
    by (simp_all add: setup_consistent_def br)
  show "reg_wf (br_registry br)" using r by (rule from_definitions_wf)
  show "dom (reg_def (br_registry br)) = (\<Union>plc \<in> set (rc_plcs cfg). tc_id ` set (pc_tags plc))"
    using from_definitions_dom(2) [OF r] collect_definitions_ids [OF d] by simp
  show "\<forall>rd \<in> set (br_drivers br). \<exists>plc drv. rd = started_driver plc drv"
    using setup_plcs_drivers [OF st] br(2) by simp blast
qed

section \<open>Properties\<close>

text \<open>C5: A bridge that has started is consistent.  Its registry is well formed and defines exactly the
  configured tags.  Every mapping of a driver is for a defined tag and agrees with the definition on
  type, byte order and writability, and passed the driver's validation.  A tag has a write route exactly
  when its PLC speaks a supported protocol, and the route leads to a driver of that protocol with a
  mapping for the tag.  The listed PLC names are the configured ones, and a server with a security mode
  has a certificate and a key.\<close>

theorem started_bridge_is_consistent:
  assumes "main_run env be clk cfg e = Value (Inr br)"
  shows "reg_wf (br_registry br)
    \<and> dom (reg_def (br_registry br)) = (\<Union>plc \<in> set (rc_plcs cfg). tc_id ` set (pc_tags plc))
    \<and> (\<forall>rd \<in> set (br_drivers br). driver_consistent env (br_registry br) (driver_of rd))
    \<and> (\<forall>tid sender. map_of (wh_routing (br_handler br)) tid = Some sender \<longrightarrow> route_served (br_drivers br) tid sender)
    \<and> dom (map_of (wh_routing (br_handler br))) =
        (\<Union>plc \<in> {plc \<in> set (rc_plcs cfg). supported plc}. tc_id ` set (pc_tags plc))
    \<and> br_known_plcs br = map pc_name (rc_plcs cfg)
    \<and> (oc_security_mode (br_opcua br) \<noteq> SecNone \<longrightarrow> su_keys (rs_setup (br_server br)) \<noteq> None)"
proof -
  obtain e' where s: "Server_start be (br_opcua br) (br_registry br) e = (Inr (br_server br), e')"
      and k: "br_known_plcs br = map pc_name (rc_plcs cfg)"
    using assms by (rule main_run_Inr)
  show ?thesis using main_run_setup [OF assms] k secure_start_keys [OF s] by (simp add: setup_consistent_def)
qed

definition example_env :: startup_env where
  "example_env = \<lparr>se_profile = Release, se_lookup_host = (\<lambda>h. Inr [h]),
     se_areas = (\<lambda>ms. remdups (map tm_area ms)), se_functions = (\<lambda>ms. remdups (map mm_function ms))\<rparr>"

definition example_plc :: PlcConfig where
  "example_plc = \<lparr>pc_name = ''plc'', pc_protocol = ''Modbus'', pc_endpoint = ''10.0.0.1:502'', pc_unit_id = None,
     pc_cycle_ms = 100, pc_tags = [example_tag_config], pc_max_words_per_request = None, pc_keepalive_secs = None,
     pc_max_backoff_secs = None, pc_io_timeout_ms = None\<rparr>"

definition example_rt_opcua :: RtOpcUaConfig where
  "example_rt_opcua =
     \<lparr>ro_bind_addr = ''0.0.0.0'', ro_port = 4840, ro_application_name = ''opcua-plc-bridge'',
      ro_application_uri = ''urn:opcua:plc:bridge'', ro_namespace_uri = ''urn:opcua:plc:bridge:ns'',
      ro_anonymous_enabled = True, ro_username_password_enabled = False, ro_max_sessions = 100,
      ro_max_subscriptions = 1000, ro_write_mode = '''', ro_security_mode = None, ro_security_policy = None,
      ro_server_certificate_path = None, ro_server_private_key_path = None, ro_trust_store_dir = None,
      ro_reject_store_dir = None, ro_min_key_length = None\<rparr>"

definition example_runtime_config :: RuntimeConfig where
  "example_runtime_config = \<lparr>rc_opcua = example_rt_opcua, rc_plcs = [example_plc], rc_health_channel_capacity = None,
     rc_driver_write_send_timeout_ms = None, rc_write_confirm_timeout_ms = None\<rparr>"

lemma example_opcua_config: "opcua_config_of example_rt_opcua = Inr default_local"
proof -
  have "build_opcua_config example_rt_opcua ConfirmedAck SecNone PolicyNone = default_local"
    by (simp add: build_opcua_config_def example_rt_opcua_def default_local_def CertificateConfig_default_def
        default_min_key_length_def unwrap_or_def)
  moreover have "parse_write_mode (ro_write_mode example_rt_opcua) = Inr ConfirmedAck"
    "parse_security_mode (ro_security_mode example_rt_opcua) = Inr SecNone"
    "parse_security_policy (ro_security_policy example_rt_opcua) = Inr PolicyNone"
    by (simp_all add: example_rt_opcua_def parse_write_mode_def parse_security_mode_def parse_security_policy_def
        WriteMode_default_def)
  ultimately show ?thesis by (simp add: opcua_config_of_def default_local_valid)
qed

lemma permissive_start:
  assumes "oc_security_mode cfg = SecNone"
  shows "\<exists>server e'. Server_start permissive_backend cfg r e = (Inr server, e')"
proof -
  have "\<exists>sp e'. build_address_space permissive_backend ns mode r e = (Inr sp, e')" for ns mode
  proof -
    have "\<exists>k e'. be_add_object permissive_backend n e = (Inr k, e')"
      "\<exists>k e'. be_add_variable permissive_backend v src e = (Inr k, e')" for n v src e
      by (simp_all add: permissive_backend_def)
    note add_tag_nodes_accepting [OF this]
    then show ?thesis by (auto simp: build_address_space_def split: prod.splits sum.splits)
      (simp_all add: permissive_backend_def)
  qed
  then obtain sp e' where "build_address_space permissive_backend
      (be_add_namespace permissive_backend (oc_namespace_uri cfg)) (oc_write_mode cfg) r e = (Inr sp, e')"
    by blast
  moreover have "be_in_runtime permissive_backend" "be_spawn_error permissive_backend = None"
    by (simp_all add: permissive_backend_def)
  ultimately show ?thesis
    using assms by (simp add: Server_start_def start_with_login_cb_def start_native_server_def security_setup_def access_setup_def)
qed

abbreviation example_modbus_plc :: plc_driver where
  "example_modbus_plc \<equiv> ModbusPlc (modbus_config_of example_plc ''10.0.0.1:502''
     [ModbusMapping_new ''t'' 10 2 HoldingRegisters TFloat 0 True CDAB])"

lemma example_setup:
  "setup_plcs example_env \<lparr>ss_handler = h, ss_drivers = []\<rparr> [example_plc] = Value (Inr
     \<lparr>ss_handler = add_route_for_modbus h ''t'' 0, ss_drivers = [started_driver example_plc example_modbus_plc]\<rparr>)"
proof -
  have p: "to_lowercase ''Modbus'' = ''modbus''" by code_simp
  let ?cfg = "modbus_config_of example_plc ''10.0.0.1:502'' [ModbusMapping_new ''t'' 10 2 HoldingRegisters TFloat 0 True CDAB]"
  have v: "modbus_validate [HoldingRegisters] ?cfg = Inr ()" by code_simp
  have e: "resolve_endpoint example_env (pc_endpoint example_plc) (pc_name example_plc) = Inr ''10.0.0.1:502''"
    by (simp add: resolve_endpoint_def example_env_def example_plc_def)
  have c: "convert_tags tagconfig_to_modbus_mapping w (pc_name example_plc) (pc_tags example_plc)
      = Inr [ModbusMapping_new ''t'' 10 2 HoldingRegisters TFloat 0 True CDAB]" for w
    by (simp add: example_plc_def example_tag_mapping)
  have f: "se_functions example_env [ModbusMapping_new ''t'' 10 2 HoldingRegisters TFloat 0 True CDAB] = [HoldingRegisters]"
    by (simp add: example_env_def ModbusMapping_new_def)
  have t: "pc_tags example_plc = [example_tag_config]" "tc_id example_tag_config = ''t''"
    by (simp_all add: example_plc_def example_tag_config_def)
  have "setup_plc example_env example_plc st = setup_modbus_driver example_env example_plc st" for st
    by (simp add: setup_plc_def example_plc_def p)
  then show ?thesis by (simp add: setup_modbus_driver_def e c v f Let_def) (simp add: t)
qed

text \<open>A bridge with one writable tag, in the state that the configuration's OPC UA part \<open>ro\<close> asks for.\<close>

lemma example_bridge:
  assumes "opcua_config_of ro = Inr oc" and "oc_security_mode oc = SecNone"
  obtains br d where
    "main_run example_env permissive_backend (\<lambda>_. 1) (example_runtime_config\<lparr>rc_opcua := ro\<rparr>) 0 = Value (Inr br)"
    "br_opcua br = oc" "br_drivers br = [started_driver example_plc example_modbus_plc]"
    "map_of (wh_routing (br_handler br)) = [''t'' \<mapsto> ModbusSender 0]"
    "reg_def (br_registry br) ''t'' = Some d" "td_writable d" "td_data_type d = TFloat"
proof -
  have "case collect_definitions [example_plc] of Inl _ \<Rightarrow> False
    | Inr ds \<Rightarrow> list_all valid_definition ds \<and> distinct (map td_id ds)
        \<and> map (\<lambda>d. (td_id d, td_writable d, td_data_type d)) ds = [(''t'', True, TFloat)]"
    by code_simp
  then obtain ds where ds: "collect_definitions [example_plc] = Inr ds"
      "list_all valid_definition ds" "distinct (map td_id ds)"
      "map (\<lambda>d. (td_id d, td_writable d, td_data_type d)) ds = [(''t'', True, TFloat)]"
    by (auto split: sum.splits)
  obtain d where d: "d \<in> set ds" "td_id d = ''t''" "td_writable d" "td_data_type d = TFloat" using ds(4) by auto
  obtain r where r: "from_definitions (\<lambda>_. 1) ds = Inr r" using from_definitions_ok [OF ds(2,3)] by blast
  define h where "h = with_driver_send_timeout (RuntimeWriteHandler_new 5000) 2000"
  obtain server e' where s: "Server_start permissive_backend oc r 0 = (Inr server, e')"
    using permissive_start [OF assms(2)] by blast
  let ?br = "\<lparr>br_registry = r, br_handler = add_route_for_modbus h ''t'' 0,
    br_drivers = [started_driver example_plc example_modbus_plc], br_known_plcs = map pc_name [example_plc],
    br_opcua = oc, br_server = server\<rparr>"
  have "main_run example_env permissive_backend (\<lambda>_. 1) (example_runtime_config\<lparr>rc_opcua := ro\<rparr>) 0 = Value (Inr ?br)"
    using ds(1) r s assms(1) by (simp add: main_run_def example_runtime_config_def unwrap_or_def h_def example_setup
        del: setup_plcs.simps)
  moreover have "map_of (wh_routing h) = Map.empty"
    by (simp add: h_def with_driver_send_timeout_def RuntimeWriteHandler_new_def)
  moreover have "reg_def r ''t'' = Some d" using from_definitions_tag(1) [OF r d(1)] d(2) by simp
  ultimately show thesis using that [of ?br d] d(3,4) by simp
qed

lemma example_main_run:
  "\<exists>br. main_run example_env permissive_backend (\<lambda>_. 1) example_runtime_config 0 = Value (Inr br)"
proof -
  have "oc_security_mode default_local = SecNone" by (simp add: default_local_def)
  from example_bridge [OF example_opcua_config this] show ?thesis by (auto simp: example_runtime_config_def)
qed

theorem started_bridge_is_consistent_witness:
  "\<exists>br. main_run example_env permissive_backend (\<lambda>_. 1) example_runtime_config 0 = Value (Inr br)
    \<and> reg_wf (br_registry br) \<and> dom (map_of (wh_routing (br_handler br))) = {''t''}"
proof -
  obtain br where br: "main_run example_env permissive_backend (\<lambda>_. 1) example_runtime_config 0 = Value (Inr br)"
    using example_main_run by blast
  have "supported example_plc" unfolding supported_def by code_simp
  with started_bridge_is_consistent [OF br] br show ?thesis
    by (auto simp: example_runtime_config_def example_plc_def example_tag_config_def)
qed

text \<open>C32: Every poller of a bridge that has started from a configuration file polls with the cycle time configured for
  its PLC, which is at least 10 milliseconds, so no timer is made with a period of zero; its backoff is
  limited to 30 seconds whatever the PLC's own limit is.\<close>

theorem poll_periods_bounded:
  assumes "main_startup env be clk read_to_string toml yaml path e = Value (Inr br)"
  shows "\<exists>cfg. (\<exists>body. read_to_string path = Inr body \<and> load_runtime_config toml yaml path body = Inr cfg)
    \<and> (\<forall>rd \<in> set (br_drivers br). 10 \<le> unat (rd_poll_ms rd) \<and> rd_max_backoff_secs rd = 30 \<and> rd_health_tx rd
        \<and> (\<exists>plc \<in> set (rc_plcs cfg). rd_name rd = pc_name plc \<and> rd_poll_ms rd = pc_cycle_ms plc))"
proof -
  obtain body cfg where t: "read_to_string path = Inr body" "load_runtime_config toml yaml path body = Inr cfg"
      and run: "main_run env be clk cfg e = Value (Inr br)"
    using assms by (auto simp: main_startup_def split: sum.splits)
  obtain h st where st: "setup_plcs env \<lparr>ss_handler = h, ss_drivers = []\<rparr> (rc_plcs cfg) = Value (Inr st)"
      and br: "br_drivers br = ss_drivers st"
    using main_run_Inr [OF run] by metis
  have drv: "\<exists>plc \<in> set (rc_plcs cfg). \<exists>drv. rd = started_driver plc drv" if "rd \<in> set (br_drivers br)" for rd
    using setup_plcs_drivers [OF st] that br by auto
  have "\<forall>rd \<in> set (br_drivers br). 10 \<le> unat (rd_poll_ms rd) \<and> rd_max_backoff_secs rd = 30 \<and> rd_health_tx rd
        \<and> (\<exists>plc \<in> set (rc_plcs cfg). rd_name rd = pc_name plc \<and> rd_poll_ms rd = pc_cycle_ms plc)"
    using drv loaded_cycles [OF t(2)] by (fastforce simp: started_driver_fields)
  with t show ?thesis by blast
qed

theorem poll_periods_bounded_witness:
  "\<exists>br. main_startup example_env permissive_backend (\<lambda>_. 1) (\<lambda>_. Inr ''x'') (\<lambda>_. Inr example_runtime_config) (\<lambda>_. Inl ''no'')
      ''b.toml'' 0 = Value (Inr br)
    \<and> (\<forall>rd \<in> set (br_drivers br). 10 \<le> unat (rd_poll_ms rd))"
proof -
  have "path_extension ''b.toml'' = Some ''toml''" "to_lowercase ''toml'' = ''toml''" by code_simp+
  then have "load_runtime_config (\<lambda>_. Inr example_runtime_config) (\<lambda>_. Inl ''no'') ''b.toml'' ''x'' = Inr example_runtime_config"
    by (simp add: load_runtime_config_def example_runtime_config_def example_plc_def)
  then obtain br where "main_startup example_env permissive_backend (\<lambda>_. 1) (\<lambda>_. Inr ''x'') (\<lambda>_. Inr example_runtime_config)
      (\<lambda>_. Inl ''no'') ''b.toml'' 0 = Value (Inr br)"
    using example_main_run by (auto simp: main_startup_def)
  with poll_periods_bounded [OF this] show ?thesis by blast
qed

end
