(* ===== verification/Write_Path.thy ===== *)
theory Write_Path
  imports Runtime_Write Runtime_Config Opcua_Server Fins_Read
begin

text \<open>
  The way of a client's write through the whole bridge: the data source of the node, the write bridge
  thread, the runtime's write handler, the driver's queue, the driver, and the replies on the way back;
  then what a read of the node shows.  The theories of the components are composed; nothing of the
  program is defined here except how the bridge thread calls the runtime's handler.
\<close>

section \<open>The runtime's handler behind the bridge\<close>

text \<open>The state of the handler as the bridge thread sees it: the registry, the number of calls so far, which
  also names the reply channels, and what was put into the drivers' queues.  The outcomes of the channel
  operations are given for every call.\<close>

record write_world =
  ww_registry :: TagRegistry
  ww_calls :: nat
  ww_queued :: "(DriverSender \<times> WriteRequest) list"

definition runtime_handler ::
  "RuntimeWriteHandler \<Rightarrow> (nat \<Rightarrow> send_outcome) \<Rightarrow> (nat \<Rightarrow> confirm_outcome) \<Rightarrow> write_world handler" where
  "runtime_handler h send confirm w tid v =
     (case rt_handle_write h (ww_registry w) (ww_calls w) (send (ww_calls w)) (confirm (ww_calls w)) tid v of
        (res, out) \<Rightarrow>
          (res, w\<lparr>ww_calls := Suc (ww_calls w),
                  ww_queued := ww_queued w @ (case out of None \<Rightarrow> [] | Some x \<Rightarrow> [x])\<rparr>))"

text \<open>A request in a queue is for a writable tag, of its defined type, in the queue of its route.\<close>

definition request_valid :: "RuntimeWriteHandler \<Rightarrow> TagRegistry \<Rightarrow> DriverSender \<times> WriteRequest \<Rightarrow> bool" where
  "request_valid h r x =
     (case x of (sender, req) \<Rightarrow>
        map_of (wh_routing h) (wr_tag_id req) = Some sender
        \<and> (\<exists>d. reg_def r (wr_tag_id req) = Some d \<and> td_writable d \<and> data_type (wr_value req) = td_data_type d))"

definition queues_valid :: "RuntimeWriteHandler \<Rightarrow> TagRegistry \<Rightarrow> write_world \<Rightarrow> bool" where
  "queues_valid h r w \<longleftrightarrow>
     ww_registry w = r \<and> reg_wf r \<and> (\<forall>x \<in> set (ww_queued w). request_valid h r x)
     \<and> distinct (map (\<lambda>x. wr_reply (snd x)) (ww_queued w))
     \<and> (\<forall>x \<in> set (ww_queued w). \<exists>n < ww_calls w. wr_reply (snd x) = Some n)"

lemma reg_wf_tag_type:
  assumes "reg_wf r" and "reg_def r tid = Some d"
  obtains t where "reg_map r tid = Some t" and "data_type (tag_value t) = td_data_type d"
proof -
  have "tid \<in> dom (reg_map r)" using assms by (auto simp: reg_wf_def)
  then obtain t where "reg_map r tid = Some t" by blast
  moreover from this have "data_type (tag_value t) = td_data_type d"
    using assms by (auto simp: reg_wf_def reg_typed_def)
  ultimately show thesis by (rule that)
qed

lemma rt_validate_wf:
  assumes "reg_wf r"
  shows "rt_validate r tid v = Inr () \<longleftrightarrow>
    (\<exists>d. reg_def r tid = Some d \<and> td_writable d \<and> data_type v = td_data_type d)"
  unfolding rt_validate_iff using reg_wf_tag_type [OF assms] by (metis option.inject)

interpretation rt_bridge: bridge_handler "runtime_handler h send confirm" "queues_valid h r"
  for h send confirm r
proof unfold_locales
  fix w tid v assume w: "queues_valid h r w"
  let ?n = "ww_calls w"
  obtain res out where o: "rt_handle_write h r ?n (send ?n) (confirm ?n) tid v = (res, out)" by (rule prod.exhaust)
  have "queues_valid h r (w\<lparr>ww_calls := Suc ?n, ww_queued := ww_queued w @ (case out of None \<Rightarrow> [] | Some x \<Rightarrow> [x])\<rparr>)"
  proof (cases out)
    case None
    then show ?thesis using w by (fastforce simp: queues_valid_def)
  next
    case (Some x)
    obtain q req where x: "x = (q, req)" by (rule prod.exhaust)
    then have "rt_validate r tid v = Inr () \<and> map_of (wh_routing h) tid = Some q
        \<and> req = \<lparr>wr_tag_id = tid, wr_value = v, wr_reply = Some ?n\<rparr>"
      using rt_handle_write_sends [of h r ?n "send ?n" "confirm ?n" tid v q req] o Some by simp
    then have "request_valid h r x" "wr_reply (snd x) = Some ?n"
      using w by (auto simp: x request_valid_def queues_valid_def rt_validate_wf)
    then show ?thesis using w Some by (fastforce simp: queues_valid_def)
  qed
  then show "queues_valid h r (snd (runtime_handler h send confirm w tid v))"
    using w o by (simp add: runtime_handler_def queues_valid_def)
qed

section \<open>One write, from the client to the device and back\<close>

text \<open>What a driver does with a request that the device accepts.\<close>

definition write_done ::
  "('e, 'z) drv_state_scheme \<Rightarrow> WriteRequest \<Rightarrow> TagDefinition \<Rightarrow> (('e, 'z) drv_state_scheme, 'err) ctl \<Rightarrow> bool" where
  "write_done s req d c \<longleftrightarrow>
     (\<exists>s' t'. c = Next s' \<and> replies s' = replies s @ reply_to req (Inr ())
        \<and> reg_map (ds_registry s') (wr_tag_id req) = Some t'
        \<and> tag_value t' = wr_value req \<and> tag_quality t' = Good)"

text \<open>The chain of calls, and the read after it.\<close>

definition write_chain ::
  "('v, 'dt) ua \<Rightarrow> crates \<Rightarrow> RuntimeWriteHandler \<Rightarrow> TagDataSource \<Rightarrow> nat \<Rightarrow> nat \<Rightarrow> 'v \<Rightarrow> TagValue \<Rightarrow> DriverSender
   \<Rightarrow> (('e, 'z) drv_state_scheme \<Rightarrow> WriteRequest \<Rightarrow> (('e, 'z) drv_state_scheme, 'err) ctl)
   \<Rightarrow> ('e, 'z) drv_state_scheme \<Rightarrow> bool" where
  "write_chain ua cr h src tx tx' var v sender handle s \<longleftrightarrow>
     (\<exists>bw req s' dv var'.
        source_write ua cr (ds_registry s) src tx True (Received (Inr ())) (Some var) = (Inr (), Some bw)
        \<and> rt_handle_write h (ds_registry s) tx' Enqueued (Answered (Inr ())) (bw_tag_id bw) (bw_value bw)
            = (Inr (), Some (sender, req))
        \<and> handle s req = Next s' \<and> replies s' = replies s @ [(tx', Inr ())]
        \<and> bridge_answer bw (Inr ()) = [(tx, Inr ())]
        \<and> source_read ua cr (ds_registry s') src = Some (Inr dv) \<and> dv_status dv = GOOD
        \<and> dv_value dv = Some var' \<and> variant_to_tagvalue ua cr var' (data_type v) = Inr v)"

lemma write_chain_intro:
  assumes "ua_laws ua" and "nanos_laws cr" and "reg_wf (ds_registry s)"
    and "reg_def (ds_registry s) (src_tag_id src) = Some d" and "td_writable d"
    and "src_write_mode src = ConfirmedAck" and "variant_to_tagvalue ua cr var (td_data_type d) = Inr v"
    and "ua_exact v" and "map_of (wh_routing h) (src_tag_id src) = Some sender"
    and "write_done s \<lparr>wr_tag_id = src_tag_id src, wr_value = v, wr_reply = Some tx'\<rparr> d
      (handle s \<lparr>wr_tag_id = src_tag_id src, wr_value = v, wr_reply = Some tx'\<rparr>)"
  shows "write_chain ua cr h src tx tx' var v sender handle s"
proof -
  let ?tid = "src_tag_id src" and ?r = "ds_registry s"
  let ?req = "\<lparr>wr_tag_id = ?tid, wr_value = v, wr_reply = Some tx'\<rparr>"
  let ?bw = "\<lparr>bw_tag_id = ?tid, bw_value = v, bw_reply = Some tx\<rparr>"
  have vs: "variant_scalar ua cr var (td_data_type d) = Some v"
    using assms(7) by (simp add: variant_to_tagvalue_def split: option.splits)
  then have ty: "data_type v = td_data_type d" by (rule variant_scalar_type)
  have 1: "source_write ua cr ?r src tx True (Received (Inr ())) (Some var) = (Inr (), Some ?bw)"
    using assms(4,6,7) by (simp add: source_write_def get_definition_def_map source_await_def)
  have "rt_validate ?r ?tid v = Inr ()" using assms(4,5) ty by (simp add: rt_validate_wf [OF assms(3)])
  then have 2: "rt_handle_write h ?r tx' Enqueued (Answered (Inr ())) ?tid v = (Inr (), Some (sender, ?req))"
    using assms(9) by (simp add: rt_handle_write_def rt_await_confirm_def)
  obtain s' t' where 3: "handle s ?req = Next s'" "replies s' = replies s @ [(tx', Inr ())]"
      "reg_map (ds_registry s') ?tid = Some t'" "tag_value t' = v" "tag_quality t' = Good"
    using assms(10) by (auto simp: write_done_def reply_to_def)
  obtain var' where var': "tagvalue_to_variant ua cr v = Some var'" "variant_scalar ua cr var' (data_type v) = Some v"
    using assms(1,2,8) by (rule variant_exact)
  have "tagvalue_to_variant ua cr (tag_value t') = Some var'" using 3(4) var'(1) by simp
  from source_read_Some [OF assms(1,2) 3(3) this] obtain sts rts where
    4: "source_read ua cr (ds_registry s') src = Some (Inr \<lparr>dv_value = Some var',
      dv_status = (if tag_quality t' = Initializing then GOOD else tagquality_to_ua_status (tag_quality t')),
      dv_source_timestamp = sts, dv_server_timestamp = rts\<rparr>)" .
  have "variant_to_tagvalue ua cr var' (data_type v) = Inr v" using var'(2) by (simp add: variant_to_tagvalue_def)
  with 1 2 3(1,2) 4 show ?thesis
    unfolding write_chain_def
    by (intro exI [of _ ?bw] exI [of _ ?req] exI [of _ s'] exI [of _ "\<lparr>dv_value = Some var',
      dv_status = (if tag_quality t' = Initializing then GOOD else tagquality_to_ua_status (tag_quality t')),
      dv_source_timestamp = sts, dv_server_timestamp = rts\<rparr>"] exI [of _ var'])
      (simp add: bridge_answer_def 3(5) tagquality_to_ua_status_def)
qed

text \<open>A Boolean tag that the configuration declares writable is mapped to a coil, and the driver refuses to write
  coils: every write to it is answered with an error and marks the tag as having lost its connection.\<close>

lemma configured_bool_writes_fail:
  assumes "tagconfig_to_modbus_mapping t = Inr m" and "mm_data_type m = TBool" and "mm_writable m"
    and "find_first (\<lambda>m. mm_tag_id m = wr_tag_id req) (mc_mappings cfg) = Some m" and "wr_value req = VBool b"
  shows "handle_write io cr cfg s req = Next (drv_reply (drv_quality (io_now io) s (wr_tag_id req) CommLost) req
    (Inl ''Unsupported write function''))"
proof -
  have "mm_function m = Coils" using assms(1,2) by (simp add: to_modbus_mapping_iff)
  moreover have "mm_tag_id m = wr_tag_id req" using find_first_Some(2) [OF assms(4)] by simp
  ultimately show ?thesis using assms(3-5) by (simp add: handle_write_def tagvalue_to_registers_def)
qed

section \<open>Properties\<close>

text \<open>Whatever writes the bridge thread takes from clients, every request that the runtime's handler puts into a
  driver's queue is for a defined and writable tag, has a value of the defined type, is in the queue of
  the tag's route, and has a reply channel of its own.\<close>

lemma only_valid_writes_reach_drivers:
  assumes "reg_wf r"
  shows "queues_valid h r (fst (bridge_loop (runtime_handler h send confirm)
    \<lparr>ww_registry = r, ww_calls = 0, ww_queued = []\<rparr> events))"
  by (rule rt_bridge.bridge_loop_inv) (simp add: queues_valid_def assms)

text \<open>A registry with one writable tag.\<close>

definition writable_definition :: TagDefinition where
  "writable_definition = example_definition\<lparr>td_writable := True\<rparr>"

definition writable_registry :: TagRegistry where
  "writable_registry = example_registry\<lparr>reg_definitions := [(''a'', writable_definition)]\<rparr>"

lemma writable_registry_facts:
  "reg_wf writable_registry" "reg_def writable_registry ''a'' = Some writable_definition"
  "td_data_type writable_definition = TUInt16" "td_writable writable_definition"
proof -
  show "reg_wf writable_registry"
    using example_registry_wf
    by (auto simp: reg_wf_def reg_typed_def reg_def_def reg_map_def defstore_wf_def writable_registry_def
        writable_definition_def example_registry_def example_definition_def TagDefinition_new_def split: if_splits)
qed (simp_all add: reg_def_def writable_registry_def writable_definition_def example_definition_def TagDefinition_new_def)

abbreviation example_source :: TagDataSource where
  "example_source \<equiv> TagDataSource_new ''a'' ConfirmedAck 5000"

lemma example_write_value:
  "variant_to_tagvalue example_ua example_crates (XUInt16 0x1234) (td_data_type writable_definition) = Inr (VUInt16 0x1234)"
  "ua_exact (VUInt16 0x1234)"
  by (simp_all add: variant_to_tagvalue_def variant_scalar_def example_ua_def ua_exact_def writable_registry_facts(3))





lemma only_valid_writes_reach_drivers_example:
  "queues_valid (add_route_for_modbus (RuntimeWriteHandler_new 5000) ''a'' 0) writable_registry
     (fst (bridge_loop (runtime_handler (add_route_for_modbus (RuntimeWriteHandler_new 5000) ''a'' 0)
        (\<lambda>_. Enqueued) (\<lambda>_. ConfirmTimedOut))
      \<lparr>ww_registry = writable_registry, ww_calls = 0, ww_queued = []\<rparr>
      [BridgeReceived \<lparr>bw_tag_id = ''a'', bw_value = VUInt16 5, bw_reply = Some 1\<rparr>, BridgeDisconnected]))"
  using writable_registry_facts(1) by (rule only_valid_writes_reach_drivers)

end
