(* ===== verification/Bridge_Tasks.thy ===== *)
theory Bridge_Tasks
  imports Runtime_Poll Startup
begin

text \<open>
  The polling tasks of a running bridge, statement by statement, so that other threads can act between
  the statements of a cycle.  A task serves a driver behind the trait object \<open>dyn ProtocolDriver\<close>; it
  has the driver's bounded write queue, and while it is in a cycle it has a place: it drains the queue,
  one request at a time, or it reads.  One statement is the treatment of one request, the reading of
  one FINS group, or the whole read phase of the Modbus driver (whose connections are made before its
  first effect).  The registry is shared: every statement works on what the others have left of it.

  A cycle whose statements are not interrupted is \<open>read_cycle\<close> as the other theories model it
  (\<open>uninterrupted_cycle\<close>).
\<close>

section \<open>Drivers behind the trait object\<close>

fun ctl_map :: "('s \<Rightarrow> 't) \<Rightarrow> ('e \<Rightarrow> 'f) \<Rightarrow> ('s, 'e) ctl \<Rightarrow> ('t, 'f) ctl" where
  "ctl_map f g (Next s) = Next (f s)"
| "ctl_map f g (Break s) = Break (f s)"
| "ctl_map f g (Return s e) = Return (f s) (g e)"
| "ctl_map f g (Panicked s) = Panicked (f s)"
| "ctl_map f g Diverges = Diverges"

lemma ctl_all_map [simp]: "ctl_all I (ctl_map f g c) \<longleftrightarrow> ctl_all (\<lambda>s. I (f s)) c"
  by (cases c) simp_all

lemma ctl_map_bind:
  "(\<And>s. h' (f s) = ctl_map f g (h s)) \<Longrightarrow> ctl_map f g (ctl_bind c h) = ctl_bind (ctl_map f g c) h'"
  by (cases c) simp_all

lemma ctl_map_for_each:
  "(\<And>s x. x \<in> set xs \<Longrightarrow> body' (f s) (h x) = ctl_map f g (body s x)) \<Longrightarrow>
   for_each body' (f s) (map h xs) = ctl_map f g (for_each body s xs)"
proof (induction xs arbitrary: s)
  case (Cons x xs)
  then show ?case by (cases "body s x") simp_all
qed simp

lemma for_each_no_break: "for_each body s xs \<noteq> Break s'"
proof (induction xs arbitrary: s)
  case (Cons x xs)
  then show ?case by (cases "body s x") simp_all
qed simp

lemma ctl_bind_no_break: "(\<And>s. c \<noteq> Break s) \<Longrightarrow> (\<And>s s'. f s \<noteq> Break s') \<Longrightarrow> ctl_bind c f \<noteq> Break s'"
  by (cases c) simp_all

lemma single_statement: "(\<And>s'. f s \<noteq> Break s') \<Longrightarrow> for_each (\<lambda>s f. f s) s [f] = f s"
  by (cases "f s") auto

lemma drain_map:
  assumes "\<And>s req. handle' (f s) req = ctl_map f g (handle s req)"
  shows "drain handle' (f s) recvs = ctl_map f g (drain handle s recvs)"
proof -
  have "for_each (\<lambda>s r. case r of try_recv.Received req \<Rightarrow> handle' s req
        | RecvEmpty \<Rightarrow> Break s | try_recv.RecvDisconnected \<Rightarrow> Break s)
      (f s) (map (\<lambda>r. r) (take 64 recvs)) = ctl_map f g (drain handle s recvs)"
    unfolding drain_def using assms by (intro ctl_map_for_each) (simp split: try_recv.split)
  then show ?thesis by (simp add: drain_def)
qed

text \<open>A driver: its configuration and its state.\<close>

datatype 'e plc = FinsRun FinsConfig "ReadGroup list" "'e fins_state" | ModbusRun ModbusConfig "'e drv_state"

text \<open>The surroundings of the drivers: the build, the crates, the network and the order in which the Modbus
  driver goes through its functions.\<close>

record 'e net =
  nt_profile :: profile
  nt_warn_on :: bool
  nt_crates :: crates
  nt_fins :: "'e fins_io"
  nt_modbus :: "'e modbus_io"
  nt_functions :: "ModbusFunction list"

text \<open>A driver as it is when its task starts, after \<open>new\<close> and \<open>set_health_sender\<close>.\<close>

definition ModbusDriver_new :: "TagRegistry \<Rightarrow> 'e \<Rightarrow> 'e drv_state" where
  "ModbusDriver_new r e = \<lparr>ds_registry = r, ds_conn = False, ds_health = False, ds_env = e, ds_out = []\<rparr>"

definition FinsDriver_new :: "TagRegistry \<Rightarrow> 'e \<Rightarrow> 'e fins_state" where
  "FinsDriver_new r e =
     \<lparr>ds_registry = r, ds_conn = False, ds_health = False, ds_env = e, ds_out = [], fs_sid = 1\<rparr>"

definition drv_set_health_sender :: "('e, 'z) drv_state_scheme \<Rightarrow> ('e, 'z) drv_state_scheme" where
  "drv_set_health_sender s = s\<lparr>ds_health := True\<rparr>"

definition boot :: "TagRegistry \<Rightarrow> 'e \<Rightarrow> plc_driver \<Rightarrow> 'e plc" where
  "boot r e drv =
     (case drv of
        FinsPlc cfg groups \<Rightarrow> FinsRun cfg groups (drv_set_health_sender (FinsDriver_new r e))
      | ModbusPlc cfg \<Rightarrow> ModbusRun cfg (drv_set_health_sender (ModbusDriver_new r e)))"

definition dyn_cycle :: "'e net \<Rightarrow> try_recv list \<Rightarrow> 'e plc \<Rightarrow> ('e plc, FinsError + DriverError) ctl" where
  "dyn_cycle net recvs x =
     (case x of
        FinsRun cfg gs s \<Rightarrow> ctl_map (FinsRun cfg gs) Inl
          (fins_run_read_cycle_impl (nt_profile net) (nt_warn_on net) (nt_fins net) (nt_crates net) cfg gs recvs s)
      | ModbusRun cfg s \<Rightarrow> ctl_map (ModbusRun cfg) Inr
          (run_read_cycle_impl (nt_profile net) (nt_warn_on net) (nt_modbus net) (nt_crates net)
            (nt_functions net) cfg recvs s))"

definition dyn_registry :: "'e plc \<Rightarrow> TagRegistry" where
  "dyn_registry x = (case x of FinsRun _ _ s \<Rightarrow> ds_registry s | ModbusRun _ s \<Rightarrow> ds_registry s)"

definition dyn_put_registry :: "TagRegistry \<Rightarrow> 'e plc \<Rightarrow> 'e plc" where
  "dyn_put_registry r x =
     (case x of
        FinsRun cfg gs s \<Rightarrow> FinsRun cfg gs (s\<lparr>ds_registry := r\<rparr>)
      | ModbusRun cfg s \<Rightarrow> ModbusRun cfg (s\<lparr>ds_registry := r\<rparr>))"

definition dyn_now :: "'e net \<Rightarrow> 'e plc \<Rightarrow> datetime \<times> 'e plc" where
  "dyn_now net x =
     (case x of
        FinsRun cfg gs s \<Rightarrow> (case fio_now (nt_fins net) (ds_env s) of (now, e) \<Rightarrow> (now, FinsRun cfg gs (s\<lparr>ds_env := e\<rparr>)))
      | ModbusRun cfg s \<Rightarrow> (case io_now (nt_modbus net) (ds_env s) of (now, e) \<Rightarrow> (now, ModbusRun cfg (s\<lparr>ds_env := e\<rparr>))))"

definition dyn_error_text :: "FinsError + DriverError \<Rightarrow> string" where
  "dyn_error_text e = (case e of Inl e \<Rightarrow> FinsError_display e | Inr e \<Rightarrow> DriverError_display e)"

definition dyn_replies :: "'e plc \<Rightarrow> (nat \<times> (string + unit)) list" where
  "dyn_replies x = (case x of FinsRun _ _ s \<Rightarrow> replies s | ModbusRun _ s \<Rightarrow> replies s)"

definition dyn_config :: "'e plc \<Rightarrow> plc_driver" where
  "dyn_config x = (case x of FinsRun cfg gs _ \<Rightarrow> FinsPlc cfg gs | ModbusRun cfg _ \<Rightarrow> ModbusPlc cfg)"

section \<open>The statements of a cycle\<close>

text \<open>What a cycle does before it looks at the queue, with one request, and afterwards; and what can be seen of a
  driver: the replies it has sent and its configuration.\<close>

record ('s, 'err) phased_ops =
  ph_ops :: "(try_recv list, 's, 'err) driver_ops"
  ph_begin :: "'s \<Rightarrow> ('s, 'err) ctl"
  ph_handle :: "'s \<Rightarrow> WriteRequest \<Rightarrow> ('s, 'err) ctl"
  ph_reads :: "'s \<Rightarrow> ('s \<Rightarrow> ('s, 'err) ctl) list"
  ph_replies :: "'s \<Rightarrow> (nat \<times> (string + unit)) list"
  ph_config :: "'s \<Rightarrow> plc_driver"

definition dyn_begin :: "'e net \<Rightarrow> 'e plc \<Rightarrow> ('e plc, FinsError + DriverError) ctl" where
  "dyn_begin net x =
     (case x of
        FinsRun cfg gs s \<Rightarrow> ctl_map (FinsRun cfg gs) Inl (fins_ensure_conn (nt_fins net) cfg s)
      | ModbusRun cfg s \<Rightarrow> Next x)"

definition dyn_handle :: "'e net \<Rightarrow> 'e plc \<Rightarrow> WriteRequest \<Rightarrow> ('e plc, FinsError + DriverError) ctl" where
  "dyn_handle net x req =
     (case x of
        FinsRun cfg gs s \<Rightarrow> ctl_map (FinsRun cfg gs) Inl (fins_handle_write (nt_fins net) (nt_crates net) cfg s req)
      | ModbusRun cfg s \<Rightarrow> ctl_map (ModbusRun cfg) Inr (handle_write (nt_modbus net) (nt_crates net) cfg s req))"

definition fins_read_statement :: "'e net \<Rightarrow> ReadGroup \<Rightarrow> 'e plc \<Rightarrow> ('e plc, FinsError + DriverError) ctl" where
  "fins_read_statement net g x =
     (case x of
        FinsRun cfg gs s \<Rightarrow> ctl_map (FinsRun cfg gs) Inl
          (fins_read_group (nt_profile net) (nt_warn_on net) (nt_fins net) (nt_crates net) cfg s g)
      | ModbusRun _ _ \<Rightarrow> Next x)"

definition modbus_read_statement :: "'e net \<Rightarrow> 'e plc \<Rightarrow> ('e plc, FinsError + DriverError) ctl" where
  "modbus_read_statement net x =
     (case x of
        FinsRun _ _ _ \<Rightarrow> Next x
      | ModbusRun cfg s \<Rightarrow> ctl_map (ModbusRun cfg) Inr
          (ctl_bind (ensure_client (nt_modbus net) cfg s) (\<lambda>s.
           ctl_bind (take_client (nt_modbus net) cfg s) (\<lambda>s.
             read_phase (nt_profile net) (nt_warn_on net) (nt_modbus net) (nt_crates net) (nt_functions net) cfg s))))"

definition dyn_reads :: "'e net \<Rightarrow> 'e plc \<Rightarrow> ('e plc \<Rightarrow> ('e plc, FinsError + DriverError) ctl) list" where
  "dyn_reads net x =
     (case x of
        FinsRun _ gs _ \<Rightarrow> map (fins_read_statement net) gs
      | ModbusRun _ _ \<Rightarrow> [modbus_read_statement net])"

definition dyn_ops :: "'e net \<Rightarrow> ('e plc, FinsError + DriverError) phased_ops" where
  "dyn_ops net =
     \<lparr>ph_ops = \<lparr>op_cycle = dyn_cycle net, op_registry = dyn_registry, op_put_registry = dyn_put_registry,
        op_now = dyn_now net, op_health = (\<lambda>_. Inr None), op_error_text = dyn_error_text\<rparr>,
      ph_begin = dyn_begin net, ph_handle = dyn_handle net, ph_reads = dyn_reads net, ph_replies = dyn_replies,
      ph_config = dyn_config\<rparr>"

section \<open>Tasks\<close>

datatype progress = Draining nat | Reading nat

record 's plc_task =
  pt_driver :: "'s runtime_driver"
  pt_at :: "progress option"
  pt_queue :: "WriteRequest list"

text \<open>How the poll loop goes on when \<open>read_cycle\<close> has ended.\<close>

definition cycle_end ::
  "('i, 's, 'err) driver_ops \<Rightarrow> 's runtime_driver \<Rightarrow> 's poll_state \<Rightarrow> ('s, 'err) ctl \<Rightarrow> 's poll_state" where
  "cycle_end ops rd st c =
     (case c of
        Next s \<Rightarrow> after_success ops (rd_name rd) (rd_health_tx rd) (st\<lparr>po_driver := s\<rparr>)
      | Break s \<Rightarrow> after_success ops (rd_name rd) (rd_health_tx rd) (st\<lparr>po_driver := s\<rparr>)
      | Return s e \<Rightarrow> after_failure ops (rd_name rd) (rd_health_tx rd) (rd_max_backoff_secs rd) e (st\<lparr>po_driver := s\<rparr>)
      | Panicked s \<Rightarrow> st\<lparr>po_phase := Crashed, po_driver := s\<rparr>
      | Diverges \<Rightarrow> st\<lparr>po_phase := InCycle\<rparr>)"

definition set_task :: "'s poll_state \<Rightarrow> progress option \<Rightarrow> 's plc_task \<Rightarrow> 's plc_task" where
  "set_task st at t = t\<lparr>pt_driver := (pt_driver t)\<lparr>rd_task := Some st\<rparr>, pt_at := at\<rparr>"

text \<open>One statement has been executed; \<open>next\<close> is the place after it, when it falls through.  A statement
  that never completes leaves the task in its cycle without a place.\<close>

definition task_stmt ::
  "('s, 'err) phased_ops \<Rightarrow> 's plc_task \<Rightarrow> 's poll_state \<Rightarrow> ('s, 'err) ctl \<Rightarrow> progress \<Rightarrow> 's plc_task" where
  "task_stmt ops t st c next =
     (case c of
        Next s \<Rightarrow> set_task (st\<lparr>po_phase := InCycle, po_driver := s\<rparr>) (Some next) t
      | _ \<Rightarrow> set_task (cycle_end (ph_ops ops) (pt_driver t) st c) None t)"

datatype task_event = TaskTick | TaskElapsed | TaskWrite | TaskRead | TaskShutdown

text \<open>\<open>None\<close>: the event is not enabled.\<close>

fun poll_move ::
  "('s, 'err) phased_ops \<Rightarrow> task_event \<Rightarrow> 's plc_task \<Rightarrow> 's poll_state \<Rightarrow> 's plc_task option" where
  "poll_move ops TaskTick t st =
     (if po_phase st \<noteq> Idle then None
      else if po_backoff st > 0 then Some (set_task (st\<lparr>po_phase := BackingOff\<rparr>) None t)
      else Some (task_stmt ops t st (ph_begin ops (po_driver st)) (Draining 0)))"
| "poll_move ops TaskElapsed t st =
     (if po_phase st \<noteq> BackingOff then None
      else Some (task_stmt ops t st (ph_begin ops (po_driver st)) (Draining 0)))"
| "poll_move ops TaskWrite t st =
     (case (pt_at t, pt_queue t) of
        (Some (Draining n), req # q) \<Rightarrow>
          if n < 64 then Some (task_stmt ops (t\<lparr>pt_queue := q\<rparr>) st (ph_handle ops (po_driver st) req) (Draining (Suc n)))
          else None
      | _ \<Rightarrow> None)"
| "poll_move ops TaskRead t st =
     (case pt_at t of
        Some (Draining n) \<Rightarrow> if n < 64 \<and> pt_queue t \<noteq> [] then None else Some (set_task st (Some (Reading 0)) t)
      | Some (Reading i) \<Rightarrow>
          (let stmts = ph_reads ops (po_driver st)
           in if i < length stmts then Some (task_stmt ops t st ((stmts ! i) (po_driver st)) (Reading (Suc i)))
              else Some (set_task (cycle_end (ph_ops ops) (pt_driver t) st (Next (po_driver st))) None t))
      | None \<Rightarrow> None)"
| "poll_move ops TaskShutdown t st =
     (if rd_shutdown (pt_driver t) \<and> (po_phase st = Idle \<or> po_phase st = BackingOff)
      then Some (set_task (st\<lparr>po_phase := Exited\<rparr>) None t) else None)"

definition task_move :: "('s, 'err) phased_ops \<Rightarrow> task_event \<Rightarrow> 's plc_task \<Rightarrow> 's plc_task option" where
  "task_move ops ev t = (case rd_task (pt_driver t) of None \<Rightarrow> None | Some st \<Rightarrow> poll_move ops ev t st)"

text \<open>The registry that a task has before it, and leaves behind.\<close>

definition with_registry :: "('s, 'err) phased_ops \<Rightarrow> TagRegistry \<Rightarrow> 's plc_task \<Rightarrow> 's plc_task" where
  "with_registry ops r t =
     t\<lparr>pt_driver := (pt_driver t)\<lparr>rd_task :=
       map_option (\<lambda>st. st\<lparr>po_driver := op_put_registry (ph_ops ops) r (po_driver st)\<rparr>) (rd_task (pt_driver t))\<rparr>\<rparr>"

definition task_registry :: "('s, 'err) phased_ops \<Rightarrow> TagRegistry \<Rightarrow> 's plc_task \<Rightarrow> TagRegistry" where
  "task_registry ops r t =
     (case rd_task (pt_driver t) of None \<Rightarrow> r | Some st \<Rightarrow> op_registry (ph_ops ops) (po_driver st))"

definition task_step ::
  "('s, 'err) phased_ops \<Rightarrow> task_event \<Rightarrow> TagRegistry \<Rightarrow> 's plc_task \<Rightarrow> (TagRegistry \<times> 's plc_task) option" where
  "task_step ops ev r t =
     map_option (\<lambda>t'. (task_registry ops r t', t')) (task_move ops ev (with_registry ops r t))"

section \<open>What the statements keep\<close>

text \<open>A predicate on the state of a driver that the effects of the reading statements keep; they send no
  reply.\<close>

definition no_reply :: "drv_event \<Rightarrow> bool" where
  "no_reply ev = (case ev of Reply _ _ \<Rightarrow> False | _ \<Rightarrow> True)"

locale kept =
  fixes I :: "('e, 'z) drv_state_scheme \<Rightarrow> bool"
  assumes conn: "I s \<Longrightarrow> I (s\<lparr>ds_conn := c\<rparr>)" and env: "I s \<Longrightarrow> I (s\<lparr>ds_env := e\<rparr>)"
    and quality: "I s \<Longrightarrow> I (drv_quality clock s tid q)" and val: "I s \<Longrightarrow> I (drv_value clock s tid v q)"
    and emit: "I s \<Longrightarrow> no_reply ev \<Longrightarrow> I (drv_emit s ev)"
begin

lemma health: "I s \<Longrightarrow> I (send_health_event plc s st d)"
  by (simp add: send_health_event_def emit no_reply_def)

lemma connects:
  assumes "connect_loop connect mx b s = Some s'" and "I s"
  shows "I s'"
proof (rule connect_loop.raw_induct [where P = "\<lambda>connect mx b s s'. I s \<longrightarrow> I s'", OF _ assms(1), THEN mp, OF _ assms(2)])
  fix rec :: "('e \<Rightarrow> bool \<times> 'e) \<Rightarrow> u64 \<Rightarrow> u64 \<Rightarrow> ('e, 'z) drv_state_scheme \<Rightarrow> ('e, 'z) drv_state_scheme option"
    and connect mx b s s'
  assume IH: "\<And>connect mx b s s'. rec connect mx b s = Some s' \<Longrightarrow> I s \<longrightarrow> I s'"
    and step: "(case connect (ds_env s) of (ok, e) \<Rightarrow>
        if ok then Some (s\<lparr>ds_env := e\<rparr>)
        else rec connect mx (min mx (saturating_mul b 2)) (drv_emit (s\<lparr>ds_env := e\<rparr>) (Slept b))) = Some s'"
  have "I s \<Longrightarrow> I (drv_emit (s\<lparr>ds_env := e\<rparr>) (Slept b))" for e by (simp add: emit env no_reply_def)
  with step IH show "I s \<longrightarrow> I s'" by (auto simp: env split: prod.splits if_splits)
qed

end

locale kept_modbus = kept I for I :: "'e drv_state \<Rightarrow> bool"
begin

lemma marks: "I s \<Longrightarrow> I (mark_all io q s ms)"
  unfolding mark_all_def by (rule foldl_invariant) (auto intro: quality)

lemma chunk: "I s \<Longrightarrow> ctl_all I (read_chunk p w io cr cfg f ms s c)"
proof -
  have "I s \<Longrightarrow> ctl_all I (process_mapping p w io cr a b raw s m)" for s a b raw m
    by (auto simp: process_mapping_def Let_def quality val split: slice.split sum.split decoded.split)
  then show "I s \<Longrightarrow> ctl_all I (read_chunk p w io cr cfg f ms s c)"
    unfolding read_chunk_def case_prod_beta Let_def handle_read_error_def
    by (auto split: sum.split intro!: ctl_all_for_each marks health conn env)
qed

lemma read_functions: "I s \<Longrightarrow> ctl_all I (read_function p w io cr cfg s f)"
  unfolding read_function_def read_group_def
  by (auto split: prod.split option.split intro!: ctl_all_for_each chunk)

lemma clients:
  "I s \<Longrightarrow> ctl_all I (ensure_client io cfg s)" "I s \<Longrightarrow> ctl_all I (take_client io cfg s)"
  by (auto simp: ensure_client_def take_client_def connect_with_backoff_def Let_def
      intro!: conn split: option.split dest: connects)

lemma reading: "I s \<Longrightarrow> ctl_all I (read_phase p w io cr funcs cfg s)"
  unfolding read_phase_def by (rule ctl_all_bind) (auto intro!: ctl_all_for_each read_functions conn)

end

locale kept_fins = kept I for I :: "'e fins_state \<Rightarrow> bool" +
  assumes sid: "I s \<Longrightarrow> I (s\<lparr>fs_sid := i\<rparr>)"
begin

lemma marks: "I s \<Longrightarrow> I (fins_mark_all io q s ms)"
  unfolding fins_mark_all_def by (rule foldl_invariant) (auto intro: quality)

lemma exchanges:
  assumes "exchange io cr cfg msg s = Some (x, s')" and "I s"
  shows "I s'"
proof -
  obtain s1 where s1: "(if ds_conn s then Some (s\<lparr>ds_conn := False\<rparr>)
      else fins_connect_with_backoff io cfg (s\<lparr>ds_conn := False\<rparr>)) = Some s1"
    and t: "transact io cr msg s1 = Some (x, s')"
    using assms by (auto simp: exchange_def Let_def split: option.splits)
  have "I s1"
    using s1 assms(2) by (auto simp: fins_connect_with_backoff_def split: if_splits intro: conn connects)
  then show ?thesis using t
    by (auto simp: transact_def intro: env conn split: option.splits prod.splits sum.splits dest!: on_stream_Some)
qed

lemma response: "I s \<Longrightarrow> ctl_all I (fins_process_response p w io cr i g payload s)"
proof -
  have "I s \<Longrightarrow> ctl_all I (fins_process_mapping p w io cr a b bytes s m)" for s a b bytes m
    by (auto simp: fins_process_mapping_def short_payload_def decode_and_update_tag_def Let_def quality val env
        split: option.split slice.split sum.split fins_decoded.split)
  moreover have "I s \<Longrightarrow> ctl_all I (fins_mark_short p io a b s m)" for s a b m
    by (auto simp: fins_mark_short_def short_payload_def quality split: option.split)
  ultimately show "I s \<Longrightarrow> ctl_all I (fins_process_response p w io cr i g payload s)"
    unfolding fins_process_response_def
    by (auto simp: marks split: sum.split option.split intro!: ctl_all_for_each)
qed

lemma group: "I s \<Longrightarrow> ctl_all I (fins_read_group p w io cr cfg s g)"
  by (auto simp: fins_read_group_def next_sid_def Let_def split: option.split sum.split
      intro!: response marks dest!: exchanges intro: sid)

lemma connection: "I s \<Longrightarrow> ctl_all I (fins_ensure_conn io cfg s)"
  by (auto simp: fins_ensure_conn_def fins_connect_with_backoff_def intro!: conn split: option.split dest: connects)

end

text \<open>In particular the registry evolves by its own operations and no reply is sent.\<close>

definition reads_only :: "TagRegistry \<Rightarrow> (nat \<times> (string + unit)) list \<Rightarrow> ('e, 'z) drv_state_scheme \<Rightarrow> bool" where
  "reads_only r rs s \<longleftrightarrow> reg_step\<^sup>*\<^sup>* r (ds_registry s) \<and> replies s = rs"

lemma reads_only_kept: "kept (reads_only r rs)"
proof
  fix s :: "('e, 'z) drv_state_scheme" and ev assume s: "reads_only r rs s" and "no_reply ev"
  then show "reads_only r rs (drv_emit s ev)"
    by (cases ev) (simp_all add: reads_only_def drv_emit_def replies_def map_filter_append List.map_filter_simps no_reply_def)
qed (auto simp: reads_only_def reply_simps case_prod_beta intro: rtranclp.rtrancl_into_rtrancl reg_step.set_quality
    reg_step.update_value)

interpretation modbus_keeps: kept_modbus "reads_only r rs" for r rs
  by (rule kept_modbus.intro) (rule reads_only_kept)

interpretation fins_keeps: kept_fins "reads_only r rs" for r rs
  by (intro kept_fins.intro kept_fins_axioms.intro reads_only_kept) (simp add: reads_only_def)

section \<open>Which requests a device accepts\<close>

text \<open>The driver writes the words of the value in the byte order of the mapping to the address of the mapping,
  on the connection that it has or makes, and the device answers with success.\<close>

definition modbus_accepts :: "'e modbus_io \<Rightarrow> crates \<Rightarrow> ModbusConfig \<Rightarrow> 'e drv_state \<Rightarrow> WriteRequest \<Rightarrow> bool" where
  "modbus_accepts io cr cfg s req \<longleftrightarrow>
     (\<exists>m words s1. find_first (\<lambda>m. mm_tag_id m = wr_tag_id req) (mc_mappings cfg) = Some m
        \<and> mm_writable m \<and> mm_function m = HoldingRegisters \<and> tagvalue_to_registers cr (wr_value req) = Inr words
        \<and> (if ds_conn s then Some (s\<lparr>ds_conn := False\<rparr>) else connect_with_backoff io cfg (s\<lparr>ds_conn := False\<rparr>)) = Some s1
        \<and> fst (io_write io (mm_address m) (ordered_write_words cr (mm_byte_order m) words) (ds_env s1)) = Resp ())"

definition fins_accepts :: "'e fins_io \<Rightarrow> crates \<Rightarrow> FinsConfig \<Rightarrow> 'e fins_state \<Rightarrow> WriteRequest \<Rightarrow> bool" where
  "fins_accepts io cr cfg s req \<longleftrightarrow>
     (\<exists>m words payload s1 rest. find_first (\<lambda>m. tm_tag_id m = wr_tag_id req) (fc_mappings cfg) = Some m
        \<and> tm_writable m \<and> tagvalue_to_words_standard cr (wr_value req) = Inr words
        \<and> exchange io cr cfg (wrap_fins_tcp cr (build_fins_frame (fs_sid s) (0x01, 0x02)
            (build_memory_write cr (tm_area m) (tm_address m) (tm_bit_offset m)
              (ordered_write_words cr (tm_byte_order m) words)))) (s\<lparr>fs_sid := fs_sid s + 1\<rparr>) = Some (Inr payload, s1)
        \<and> parse_fins_response payload = Inr (fs_sid s, 0, rest))"

definition plc_accepts :: "'e net \<Rightarrow> 'e plc \<Rightarrow> WriteRequest \<Rightarrow> bool" where
  "plc_accepts net x req =
     (case x of
        FinsRun cfg _ s \<Rightarrow> fins_accepts (nt_fins net) (nt_crates net) cfg s req
      | ModbusRun cfg s \<Rightarrow> modbus_accepts (nt_modbus net) (nt_crates net) cfg s req)"

text \<open>A request is answered once, and with \<open>Ok\<close> only when the device accepted it.\<close>

lemma after_write_truthful:
  "ctl_all (\<lambda>s'. \<exists>ans. replies s' = replies s @ reply_to req ans \<and> (ans = Inr () \<longrightarrow> res = Resp ()))
     (after_write io cfg s req m res)"
  by (auto simp: after_write_def Let_def reply_simps split: response.split)

lemma handle_write_truthful:
  "ctl_all (\<lambda>s'. \<exists>ans. replies s' = replies s @ reply_to req ans \<and> (ans = Inr () \<longrightarrow> modbus_accepts io cr cfg s req))
     (handle_write io cr cfg s req)"
proof (cases "find_first (\<lambda>m. mm_tag_id m = wr_tag_id req) (mc_mappings cfg)")
  case (Some m)
  let ?Q = "\<lambda>s'. \<exists>ans. replies s' = replies s @ reply_to req ans \<and> (ans = Inr () \<longrightarrow> modbus_accepts io cr cfg s req)"
  have "ctl_all ?Q (write_holding io cr cfg s req m words)"
    if m: "mm_writable m" "mm_function m = HoldingRegisters" "tagvalue_to_registers cr (wr_value req) = Inr words" for words
  proof -
    define c where "c = (if ds_conn s then Some (s\<lparr>ds_conn := False\<rparr>) else connect_with_backoff io cfg (s\<lparr>ds_conn := False\<rparr>))"
    have "ctl_all ?Q (after_write io cfg (s1\<lparr>ds_env := e, ds_conn := True\<rparr>) req m res)"
      if c: "c = Some s1" and w: "io_write io (mm_address m) (ordered_write_words cr (mm_byte_order m) words) (ds_env s1) = (res, e)"
      for s1 res e
    proof -
      have "replies (s1\<lparr>ds_env := e, ds_conn := True\<rparr>) = replies s"
        using c replies_connect [of io cfg "s\<lparr>ds_conn := False\<rparr>" s1] by (auto simp: c_def reply_simps split: if_splits)
      moreover have "res = Resp () \<Longrightarrow> modbus_accepts io cr cfg s req"
        unfolding modbus_accepts_def using Some m c w by (intro exI [of _ m] exI [of _ words] exI [of _ s1]) (simp add: c_def)
      ultimately show ?thesis
        using after_write_truthful [of "s1\<lparr>ds_env := e, ds_conn := True\<rparr>" req res io cfg m]
        by (auto elim!: ctl_all_mono)
    qed
    then show ?thesis
      unfolding write_holding_def Let_def c_def [symmetric] by (auto simp: reply_simps split: option.split prod.split)
  qed
  with Some show ?thesis
    unfolding handle_write_def by (auto simp: reply_simps split: sum.split)
qed (simp add: handle_write_def reply_simps exI [of _ "Inl ''Unknown tag mapping''"])

lemma fins_handle_write_truthful:
  "ctl_all (\<lambda>s'. \<exists>ans. replies s' = replies s @ reply_to req ans \<and> (ans = Inr () \<longrightarrow> fins_accepts io cr cfg s req))
     (fins_handle_write io cr cfg s req)"
proof (cases "find_first (\<lambda>m. tm_tag_id m = wr_tag_id req) (fc_mappings cfg)")
  case (Some m)
  let ?Q = "\<lambda>s'. \<exists>ans. replies s' = replies s @ reply_to req ans \<and> (ans = Inr () \<longrightarrow> fins_accepts io cr cfg s req)"
  have "ctl_all ?Q (fins_write_words io cr cfg s req m words)"
    if m: "tm_writable m" "tagvalue_to_words_standard cr (wr_value req) = Inr words" for words
  proof -
    let ?msg = "wrap_fins_tcp cr (build_fins_frame (fs_sid s) (0x01, 0x02)
      (build_memory_write cr (tm_area m) (tm_address m) (tm_bit_offset m) (ordered_write_words cr (tm_byte_order m) words)))"
    have "?Q (fins_after_write io (fs_sid s) payload s1 req m)"
      if x: "exchange io cr cfg ?msg (s\<lparr>fs_sid := fs_sid s + 1\<rparr>) = Some (Inr payload, s1)" for payload s1
    proof -
      have "replies s1 = replies s" using exchange_frame(2) [OF x] by simp
      moreover have "parse_fins_response payload = Inr (fs_sid s, 0, rest) \<Longrightarrow> fins_accepts io cr cfg s req" for rest
        unfolding fins_accepts_def using Some m x by blast
      ultimately show ?thesis by (auto simp: fins_after_write_def reply_simps split: sum.split)
    qed
    then show ?thesis
      unfolding fins_write_words_def Let_def next_sid_def
      by (auto simp: reply_simps ordered_write_words_def split: option.split sum.split dest!: exchange_frame(2))
  qed
  with Some show ?thesis
    unfolding fins_handle_write_def by (auto simp: reply_simps split: sum.split)
qed (simp add: fins_handle_write_def reply_simps exI [of _ "Inl ''Unknown tag id''"])

section \<open>The contract of a driver, statement by statement\<close>

definition silent_step :: "('s, 'err) phased_ops \<Rightarrow> 's \<Rightarrow> 's \<Rightarrow> bool" where
  "silent_step ops s s' \<longleftrightarrow>
     reg_step\<^sup>*\<^sup>* (op_registry (ph_ops ops) s) (op_registry (ph_ops ops) s')
     \<and> ph_replies ops s' = ph_replies ops s \<and> ph_reads ops s' = ph_reads ops s \<and> ph_config ops s' = ph_config ops s"

definition answer_step :: "('s, 'err) phased_ops \<Rightarrow> ('s \<Rightarrow> WriteRequest \<Rightarrow> bool) \<Rightarrow> 's \<Rightarrow> WriteRequest \<Rightarrow> 's \<Rightarrow> bool" where
  "answer_step ops accepts s req s' \<longleftrightarrow>
     reg_step\<^sup>*\<^sup>* (op_registry (ph_ops ops) s) (op_registry (ph_ops ops) s')
     \<and> ph_reads ops s' = ph_reads ops s \<and> ph_config ops s' = ph_config ops s
     \<and> (\<exists>ans. ph_replies ops s' = ph_replies ops s @ reply_to req ans \<and> (ans = Inr () \<longrightarrow> accepts s req))"

lemma silent_step_refl [simp]: "silent_step ops s s"
  by (simp add: silent_step_def)

lemma silent_step_trans: "silent_step ops s s' \<Longrightarrow> silent_step ops s' s'' \<Longrightarrow> silent_step ops s s''"
  by (auto simp: silent_step_def intro: rtranclp_trans)

lemma answer_silent_trans:
  "answer_step ops acc s req s' \<Longrightarrow> silent_step ops s' s'' \<Longrightarrow> answer_step ops acc s req s''"
  by (auto simp: silent_step_def answer_step_def intro: rtranclp_trans)

text \<open>What the tasks rely on: only the treatment of a request sends a reply, one, and \<open>Ok\<close> only when the device
  accepted the request; and \<open>read_cycle\<close> is the sequence of the statements.\<close>

locale task_driver = polled_driver "ph_ops ops" for ops :: "('s, 'err) phased_ops" +
  fixes accepts :: "'s \<Rightarrow> WriteRequest \<Rightarrow> bool"
  assumes begin_silent: "ctl_all (silent_step ops s) (ph_begin ops s)"
    and reads_silent: "f \<in> set (ph_reads ops s) \<Longrightarrow> ctl_all (silent_step ops s) (f s)"
    and handle_answers: "ctl_all (answer_step ops accepts s req) (ph_handle ops s req)"
    and handle_no_break: "ph_handle ops s req \<noteq> Break s'"
    and put_silent: "ph_replies ops (op_put_registry (ph_ops ops) r s) = ph_replies ops s"
      "ph_reads ops (op_put_registry (ph_ops ops) r s) = ph_reads ops s"
      "ph_config ops (op_put_registry (ph_ops ops) r s) = ph_config ops s"
    and now_silent: "ph_replies ops (snd (op_now (ph_ops ops) s)) = ph_replies ops s"
      "ph_reads ops (snd (op_now (ph_ops ops) s)) = ph_reads ops s"
      "ph_config ops (snd (op_now (ph_ops ops) s)) = ph_config ops s"
    and cycle_phases: "op_cycle (ph_ops ops) recvs s =
      ctl_bind (ph_begin ops s) (\<lambda>s. ctl_bind (drain (ph_handle ops) s recvs) (\<lambda>s.
        for_each (\<lambda>s f. f s) s (ph_reads ops s)))"

lemma dyn_ops_sel [simp]:
  "ph_begin (dyn_ops net) = dyn_begin net" "ph_handle (dyn_ops net) = dyn_handle net"
  "ph_reads (dyn_ops net) = dyn_reads net" "ph_replies (dyn_ops net) = dyn_replies" "ph_config (dyn_ops net) = dyn_config"
  "op_cycle (ph_ops (dyn_ops net)) = dyn_cycle net" "op_registry (ph_ops (dyn_ops net)) = dyn_registry"
  "op_put_registry (ph_ops (dyn_ops net)) = dyn_put_registry" "op_now (ph_ops (dyn_ops net)) = dyn_now net"
  by (simp_all add: dyn_ops_def)

lemma dyn_step_sel [simp]:
  "silent_step (dyn_ops net) (FinsRun cfg gs s) (FinsRun cfg gs s') \<longleftrightarrow> reads_only (ds_registry s) (replies s) s'"
  "silent_step (dyn_ops net) (ModbusRun mcfg t) (ModbusRun mcfg t') \<longleftrightarrow> reads_only (ds_registry t) (replies t) t'"
  by (simp_all add: silent_step_def reads_only_def dyn_registry_def dyn_replies_def dyn_reads_def dyn_config_def)

lemma reads_only_refl: "reads_only (ds_registry s) (replies s) s"
  by (simp add: reads_only_def)

lemma dyn_begin_silent: "ctl_all (silent_step (dyn_ops net) x) (dyn_begin net x)"
  by (cases x) (simp_all add: dyn_begin_def fins_keeps.connection reads_only_refl)

lemma dyn_reads_silent: "f \<in> set (dyn_reads net x) \<Longrightarrow> ctl_all (silent_step (dyn_ops net) x) (f x)"
  by (cases x) (auto simp: dyn_reads_def fins_read_statement_def modbus_read_statement_def reads_only_refl
      intro!: fins_keeps.group ctl_all_bind modbus_keeps.clients modbus_keeps.reading)

lemma dyn_handle_answers: "ctl_all (answer_step (dyn_ops net) (plc_accepts net) x req) (dyn_handle net x req)"
proof (cases x)
  case (FinsRun cfg gs s)
  have "ctl_all (reg_evolves (ds_registry s)) (fins_handle_write (nt_fins net) (nt_crates net) cfg s req)"
    by (rule fins_handle_write_evolves) (simp add: reg_evolves_def)
  with fins_handle_write_truthful [of s req "nt_fins net" "nt_crates net" cfg] FinsRun show ?thesis
    by (cases "fins_handle_write (nt_fins net) (nt_crates net) cfg s req")
      (simp_all add: dyn_handle_def answer_step_def dyn_registry_def dyn_reads_def dyn_replies_def dyn_config_def plc_accepts_def reg_evolves_def)
next
  case (ModbusRun cfg s)
  have "ctl_all (reg_evolves (ds_registry s)) (handle_write (nt_modbus net) (nt_crates net) cfg s req)"
    by (rule handle_write_evolves) (simp add: reg_evolves_def)
  with handle_write_truthful [of s req "nt_modbus net" "nt_crates net" cfg] ModbusRun show ?thesis
    by (cases "handle_write (nt_modbus net) (nt_crates net) cfg s req")
      (simp_all add: dyn_handle_def answer_step_def dyn_registry_def dyn_reads_def dyn_replies_def dyn_config_def plc_accepts_def reg_evolves_def)
qed

lemma modbus_read_no_break: "modbus_read_statement net (ModbusRun cfg s) \<noteq> Break x"
proof -
  let ?c = "ctl_bind (ensure_client (nt_modbus net) cfg s) (\<lambda>s. ctl_bind (take_client (nt_modbus net) cfg s) (\<lambda>s.
    read_phase (nt_profile net) (nt_warn_on net) (nt_modbus net) (nt_crates net) (nt_functions net) cfg s))"
  have "?c \<noteq> Break s'" for s'
    unfolding read_phase_def
    by (intro ctl_bind_no_break for_each_no_break)
      (auto simp: ensure_client_def take_client_def Let_def split: option.split)
  then show ?thesis by (cases ?c) (auto simp: modbus_read_statement_def)
qed

lemma dyn_cycle_phases:
  "dyn_cycle net recvs x = ctl_bind (dyn_begin net x) (\<lambda>x. ctl_bind (drain (dyn_handle net) x recvs) (\<lambda>x.
     for_each (\<lambda>x f. f x) x (dyn_reads net x)))"
proof (cases x)
  case (FinsRun cfg gs s)
  have d: "drain (dyn_handle net) (FinsRun cfg gs s) recvs
      = ctl_map (FinsRun cfg gs) Inl (drain (fins_handle_write (nt_fins net) (nt_crates net) cfg) s recvs)" for s
    by (rule drain_map) (simp add: dyn_handle_def)
  have r: "for_each (\<lambda>x f. f x) (FinsRun cfg gs s) (dyn_reads net (FinsRun cfg gs s))
      = ctl_map (FinsRun cfg gs) Inl (for_each (fins_read_group (nt_profile net) (nt_warn_on net) (nt_fins net) (nt_crates net) cfg) s gs)" for s
    unfolding dyn_reads_def plc.case by (rule ctl_map_for_each) (simp add: fins_read_statement_def)
  show ?thesis
    unfolding FinsRun dyn_cycle_def plc.case fins_run_read_cycle_impl_def fins_write_phase_def dyn_begin_def
    by (intro ctl_map_bind) (simp only: d, rule ctl_map_bind [symmetric], simp only: r)
next
  case (ModbusRun cfg s)
  have d: "drain (dyn_handle net) (ModbusRun cfg s) recvs
      = ctl_map (ModbusRun cfg) Inr (drain (handle_write (nt_modbus net) (nt_crates net) cfg) s recvs)" for s
    by (rule drain_map) (simp add: dyn_handle_def)
  show ?thesis
    unfolding ModbusRun dyn_cycle_def plc.case run_read_cycle_impl_def write_phase_def dyn_begin_def ctl_bind.simps d
    by (intro ctl_map_bind) (simp only: dyn_reads_def plc.case, subst single_statement,
        rule modbus_read_no_break, simp add: modbus_read_statement_def)
qed

interpretation dyn: task_driver "dyn_ops net" "plc_accepts net" for net
proof unfold_locales
  fix recvs x
  show "ctl_all (\<lambda>x'. reg_step\<^sup>*\<^sup>* (op_registry (ph_ops (dyn_ops net)) x) (op_registry (ph_ops (dyn_ops net)) x'))
      (op_cycle (ph_ops (dyn_ops net)) recvs x)"
    using modbus.cycle_updates fins.cycle_updates by (cases x) (simp_all add: dyn_cycle_def dyn_registry_def)
next
  fix x req x'
  show "ph_handle (dyn_ops net) x req \<noteq> Break x'"
  proof (cases x)
    case (FinsRun cfg gs s)
    then show ?thesis
      using fins_handle_write_cases [of "nt_fins net" "nt_crates net" cfg s req] by (auto simp: dyn_handle_def)
  next
    case (ModbusRun cfg s)
    then show ?thesis
      using handle_write_cases [of "nt_modbus net" "nt_crates net" cfg s req] by (auto simp: dyn_handle_def)
  qed
next
  fix r :: TagRegistry and x :: "'a plc"
  show "op_registry (ph_ops (dyn_ops net)) (op_put_registry (ph_ops (dyn_ops net)) r x) = r"
    "op_registry (ph_ops (dyn_ops net)) (snd (op_now (ph_ops (dyn_ops net)) x)) = op_registry (ph_ops (dyn_ops net)) x"
    "ph_replies (dyn_ops net) (op_put_registry (ph_ops (dyn_ops net)) r x) = ph_replies (dyn_ops net) x"
    "ph_reads (dyn_ops net) (op_put_registry (ph_ops (dyn_ops net)) r x) = ph_reads (dyn_ops net) x"
    "ph_config (dyn_ops net) (op_put_registry (ph_ops (dyn_ops net)) r x) = ph_config (dyn_ops net) x"
    "ph_replies (dyn_ops net) (snd (op_now (ph_ops (dyn_ops net)) x)) = ph_replies (dyn_ops net) x"
    "ph_reads (dyn_ops net) (snd (op_now (ph_ops (dyn_ops net)) x)) = ph_reads (dyn_ops net) x"
    "ph_config (dyn_ops net) (snd (op_now (ph_ops (dyn_ops net)) x)) = ph_config (dyn_ops net) x"
    by (cases x; simp add: dyn_registry_def dyn_put_registry_def dyn_now_def dyn_replies_def dyn_reads_def
        dyn_config_def replies_def
        case_prod_beta)+
qed (simp_all add: dyn_begin_silent dyn_reads_silent dyn_handle_answers dyn_cycle_phases)

section \<open>What a task does to its driver\<close>

abbreviation drv_of :: "'s plc_task \<Rightarrow> 's" where
  "drv_of t \<equiv> po_driver (the (rd_task (pt_driver t)))"

context task_driver
begin

lemma put_silent_step: "reg_step\<^sup>*\<^sup>* (op_registry (ph_ops ops) s) r \<Longrightarrow> silent_step ops s (op_put_registry (ph_ops ops) r s)"
  by (simp add: silent_step_def put put_silent)

lemma now_silent_step: "silent_step ops s (snd (op_now (ph_ops ops) s))"
  by (simp add: silent_step_def now now_silent)

lemma stale_tag_silent: "ctl_all (silent_step ops s) (check_stale_tag (ph_ops ops) plc s d)"
proof -
  let ?once = "snd (op_now (ph_ops ops) s)"
  let ?twice = "snd (op_now (ph_ops ops) ?once)"
  have 1: "silent_step ops s ?once" by (rule now_silent_step)
  have 2: "silent_step ops s ?twice" using 1 now_silent_step by (rule silent_step_trans)
  have "silent_step ops ?twice (op_put_registry (ph_ops ops) (upd_qual n (op_registry (ph_ops ops) ?twice) tid q) ?twice)" for n tid q
    by (rule put_silent_step) (auto intro: reg_step.set_quality)
  from silent_step_trans [OF 2 this] 1 show ?thesis
    by (auto simp: check_stale_tag_def case_prod_beta split: option.split sum.split)
qed

lemma stale_tags_silent: "ctl_all (silent_step ops s) (check_stale_tags (ph_ops ops) plc s)"
  unfolding check_stale_tags_def
proof (rule ctl_all_for_each)
  fix s' d assume "silent_step ops s s'"
  then show "ctl_all (silent_step ops s) (check_stale_tag (ph_ops ops) plc s' d)"
    using stale_tag_silent [of s' plc d] by (auto elim!: ctl_all_mono intro: silent_step_trans)
qed simp

lemma after_success_silent:
  "silent_step ops (po_driver st) (po_driver (after_success (ph_ops ops) name htx st))"
  using stale_tags_silent [of "po_driver st" name]
  by (cases "check_stale_tags (ph_ops ops) name (po_driver st)")
    (auto simp: after_success_def poll_send_def Let_def split: sum.split option.split)

lemma cycle_end_silent:
  "ctl_state c = Some s \<Longrightarrow> silent_step ops s (po_driver (cycle_end (ph_ops ops) rd st c))"
  using after_success_silent [of "st\<lparr>po_driver := s\<rparr>"]
  by (cases c) (simp_all add: cycle_end_def after_failure_def poll_send_def)

lemma task_stmt_effect:
  "pt_queue (task_stmt ops t st c next) = pt_queue t"
  "rd_task (pt_driver (task_stmt ops t st c next)) \<noteq> None"
  "ctl_state c = Some s \<Longrightarrow> silent_step ops s (drv_of (task_stmt ops t st c next))"
  "ctl_state c = None \<Longrightarrow> drv_of (task_stmt ops t st c next) = po_driver st"
  using cycle_end_silent [of c s "pt_driver t" st]
  by (cases c; simp add: task_stmt_def set_task_def cycle_end_def)+

lemma task_stmt_silent:
  assumes "ctl_all (silent_step ops (po_driver st)) c"
  shows "silent_step ops (po_driver st) (drv_of (task_stmt ops t st c next))"
proof (cases "ctl_state c")
  case (Some s)
  then have "silent_step ops (po_driver st) s" using assms by (simp add: ctl_all_state)
  then show ?thesis using task_stmt_effect(3) [OF Some] by (rule silent_step_trans)
qed (simp add: task_stmt_effect(4))

text \<open>An event of the task changes its driver silently, or takes the first request of its queue and answers it,
  or gets stuck with it.\<close>

lemma task_move_cases:
  assumes "task_move ops ev t = Some t'"
  obtains (silent) "ev \<noteq> TaskWrite" "silent_step ops (drv_of t) (drv_of t')" "pt_queue t' = pt_queue t"
  | (answers) req where "ev = TaskWrite" "pt_queue t = req # pt_queue t'" "answer_step ops accepts (drv_of t) req (drv_of t')"
  | (stuck) req where "ev = TaskWrite" "pt_queue t = req # pt_queue t'" "drv_of t' = drv_of t"
proof -
  obtain st where st: "rd_task (pt_driver t) = Some st" and m: "poll_move ops ev t st = Some t'"
    using assms by (auto simp: task_move_def split: option.splits)
  show thesis
  proof (cases ev)
    case TaskWrite
    then obtain n req q where q: "pt_queue t = req # q"
        and t': "t' = task_stmt ops (t\<lparr>pt_queue := q\<rparr>) st (ph_handle ops (po_driver st) req) (Draining (Suc n))"
      using m by (auto split: option.splits progress.splits list.splits if_splits)
    let ?c = "ph_handle ops (po_driver st) req"
    show thesis
    proof (cases "ctl_state ?c")
      case None
      with TaskWrite q st show thesis by (intro stuck) (simp_all add: t' task_stmt_effect)
    next
      case (Some s)
      then have "answer_step ops accepts (po_driver st) req s"
        using handle_answers [of "po_driver st" req] by (simp add: ctl_all_state)
      from answer_silent_trans [OF this task_stmt_effect(3) [OF Some]] TaskWrite q st show thesis
        by (intro answers) (simp_all add: t' task_stmt_effect)
    qed
  next
    case TaskRead
    then have "silent_step ops (drv_of t) (drv_of t') \<and> pt_queue t' = pt_queue t"
      using m st cycle_end_silent [of "Next (po_driver st)" "po_driver st" "pt_driver t" st]
        task_stmt_silent [OF reads_silent [OF nth_mem]]
      by (auto simp: set_task_def task_stmt_effect Let_def split: option.splits progress.splits if_splits)
    with TaskRead show thesis by (intro silent) simp_all
  qed (use m st begin_silent task_stmt_silent silent in
      \<open>auto simp: set_task_def task_stmt_effect split: if_splits\<close>)
qed

end

section \<open>A cycle that is not interrupted\<close>

fun run_task :: "('s, 'err) phased_ops \<Rightarrow> task_event list \<Rightarrow> 's plc_task \<Rightarrow> 's plc_task option" where
  "run_task ops [] t = Some t"
| "run_task ops (ev # evs) t = Option.bind (task_move ops ev t) (run_task ops evs)"

lemma run_task_append: "run_task ops (evs @ evs') t = Option.bind (run_task ops evs t) (run_task ops evs')"
  by (induction evs arbitrary: t) (simp_all split: bind_split)

text \<open>The task in its cycle, at a place, with its driver in a state.\<close>

definition at_place :: "'s plc_task \<Rightarrow> 's poll_state \<Rightarrow> 's \<Rightarrow> progress \<Rightarrow> WriteRequest list \<Rightarrow> 's plc_task" where
  "at_place t st s p q = set_task (st\<lparr>po_phase := InCycle, po_driver := s\<rparr>) (Some p) (t\<lparr>pt_queue := q\<rparr>)"

text \<open>The task when its cycle has ended.\<close>

definition cycle_done ::
  "('s, 'err) phased_ops \<Rightarrow> 's plc_task \<Rightarrow> 's poll_state \<Rightarrow> ('s, 'err) ctl \<Rightarrow> WriteRequest list \<Rightarrow> 's plc_task" where
  "cycle_done ops t st c q = set_task (cycle_end (ph_ops ops) (pt_driver t) st c) None (t\<lparr>pt_queue := q\<rparr>)"

lemma cycle_end_place:
  "c \<noteq> Diverges \<Longrightarrow> cycle_end ops (rd\<lparr>rd_task := x\<rparr>) (st\<lparr>po_phase := ph, po_driver := s\<rparr>) c = cycle_end ops rd st c"
  by (cases c) (simp_all add: cycle_end_def after_success_def after_failure_def poll_send_def Let_def
      split: ctl.split sum.split option.split)

lemma at_place_stmt:
  "c \<noteq> Diverges \<Longrightarrow>
   task_stmt ops ((at_place t st s p q)\<lparr>pt_queue := q'\<rparr>) (st\<lparr>po_phase := InCycle, po_driver := s\<rparr>) c p' =
     (case c of Next s' \<Rightarrow> at_place t st s' p' q' | _ \<Rightarrow> cycle_done ops t st c q')"
  by (cases c) (simp_all add: task_stmt_def at_place_def cycle_done_def set_task_def cycle_end_place)

lemma at_place_sel [simp]:
  "rd_task (pt_driver (at_place t st s p q)) = Some (st\<lparr>po_phase := InCycle, po_driver := s\<rparr>)"
  "pt_at (at_place t st s p q) = Some p" "pt_queue (at_place t st s p q) = q"
  "(at_place t st s p q)\<lparr>pt_queue := q\<rparr> = at_place t st s p q"
  by (simp_all add: at_place_def set_task_def)

context task_driver
begin

lemma run_reads:
  assumes "drop i (ph_reads ops s) = fs" and "i \<le> length (ph_reads ops s)"
    and "for_each (\<lambda>s f. f s) s fs \<noteq> Diverges"
  shows "\<exists>n. run_task ops (replicate n TaskRead) (at_place t st s (Reading i) q)
    = Some (cycle_done ops t st (for_each (\<lambda>s f. f s) s fs) q)"
  using assms
proof (induction fs arbitrary: s i)
  case Nil
  then have "i = length (ph_reads ops s)" by simp
  moreover from this have "task_move ops TaskRead (at_place t st s (Reading i) q) = Some (cycle_done ops t st (Next s) q)"
    by (simp add: task_move_def cycle_done_def cycle_end_place at_place_def set_task_def)
  ultimately show ?case by (intro exI [of _ 1]) simp
next
  case (Cons f fs)
  have i: "i < length (ph_reads ops s)" "ph_reads ops s ! i = f" "drop (Suc i) (ph_reads ops s) = fs"
    using Cons.prems(1) by (metis drop_eq_Nil list.distinct(1) not_le, metis nth_via_drop, metis Cons_nth_drop_Suc
        drop_eq_Nil list.distinct(1) list.inject not_le)
  have nd: "f s \<noteq> Diverges" using Cons.prems(3) by auto
  have m: "task_move ops TaskRead (at_place t st s (Reading i) q) =
      Some (case f s of Next s' \<Rightarrow> at_place t st s' (Reading (Suc i)) q | _ \<Rightarrow> cycle_done ops t st (f s) q)"
    using at_place_stmt [OF nd, of ops q t st s "Reading i" q] i by (simp add: task_move_def)
  show ?case
  proof (cases "f s")
    case (Next s')
    have "f \<in> set (ph_reads ops s)" using i nth_mem by blast
    then have r: "ph_reads ops s' = ph_reads ops s"
      using reads_silent [of f s] Next by (simp add: silent_step_def)
    obtain n where "run_task ops (replicate n TaskRead) (at_place t st s' (Reading (Suc i)) q)
        = Some (cycle_done ops t st (for_each (\<lambda>s f. f s) s' fs) q)"
      using Cons.IH [of "Suc i" s'] Cons.prems(3) i Next r by auto
    with m Next show ?thesis by (intro exI [of _ "Suc n"]) simp
  next
    case (Break s')
    then have "cycle_done ops t st (f s) q = cycle_done ops t st (Next s') q" by (simp add: cycle_done_def cycle_end_def)
    with m Break show ?thesis by (intro exI [of _ 1]) simp
  qed (use m nd in \<open>auto intro!: exI [of _ 1]\<close>)
qed

text \<open>Draining falls through to the reading or ends the cycle, with a part of the queue taken.\<close>

lemma run_drain:
  assumes "n \<le> 64" and "drain_loop = for_each (\<lambda>s r. case r of try_recv.Received req \<Rightarrow> ph_handle ops s req
        | RecvEmpty \<Rightarrow> Break s | try_recv.RecvDisconnected \<Rightarrow> Break s)"
    and "drain_loop s (take (64 - n) (map try_recv.Received q)) \<noteq> Diverges"
  shows "\<exists>evs k. k \<le> length q \<and> run_task ops evs (at_place t st s (Draining n) q) =
    Some (case drain_loop s (take (64 - n) (map try_recv.Received q)) of
        Next s' \<Rightarrow> at_place t st s' (Reading 0) (drop k q)
      | c \<Rightarrow> cycle_done ops t st c (drop k q)) \<and> set evs \<subseteq> {TaskWrite, TaskRead}
    \<and> (\<forall>s'. drain_loop s (take (64 - n) (map try_recv.Received q)) = Next s' \<longrightarrow> k = min (64 - n) (length q))"
  using assms(1,3)
proof (induction q arbitrary: s n)
  case Nil
  have "task_move ops TaskRead (at_place t st s (Draining n) []) = Some (at_place t st s (Reading 0) [])"
    by (simp add: task_move_def at_place_def set_task_def)
  then show ?case by (intro exI [of _ "[TaskRead]"] exI [of _ 0]) (simp add: assms(2))
next
  case (Cons req q)
  show ?case
  proof (cases "n = 64")
    case True
    then have "task_move ops TaskRead (at_place t st s (Draining n) (req # q)) = Some (at_place t st s (Reading 0) (req # q))"
      by (simp add: task_move_def at_place_def set_task_def)
    then show ?thesis using True by (intro exI [of _ "[TaskRead]"] exI [of _ 0]) (simp add: assms(2))
  next
    case False
    then have n: "n < 64" using Cons.prems(1) by simp
    then have tk: "take (64 - n) (try_recv.Received req # map try_recv.Received q) = try_recv.Received req # take (64 - Suc n) (map try_recv.Received q)"
      using Suc_diff_Suc [OF n, symmetric] by simp
    have nd: "ph_handle ops s req \<noteq> Diverges" using Cons.prems(2) by (auto simp: tk assms(2))
    have m: "task_move ops TaskWrite (at_place t st s (Draining n) (req # q)) =
        Some (case ph_handle ops s req of Next s' \<Rightarrow> at_place t st s' (Draining (Suc n)) q
          | c \<Rightarrow> cycle_done ops t st c q)"
      using at_place_stmt [OF nd, of ops q t st s "Draining n" "req # q"] n by (simp add: task_move_def split: ctl.split)
    show ?thesis
    proof (cases "ph_handle ops s req")
      case (Next s')
      then have l: "drain_loop s (take (64 - n) (map try_recv.Received (req # q)))
          = drain_loop s' (take (64 - Suc n) (map try_recv.Received q))"
        by (simp add: tk assms(2))
      obtain evs k where "k \<le> length q" and "set evs \<subseteq> {TaskWrite, TaskRead}"
          and k: "\<forall>s''. drain_loop s' (take (64 - Suc n) (map try_recv.Received q)) = Next s'' \<longrightarrow> k = min (64 - Suc n) (length q)"
          and "run_task ops evs (at_place t st s' (Draining (Suc n)) q) =
            Some (case drain_loop s' (take (64 - Suc n) (map try_recv.Received q)) of
              Next s'' \<Rightarrow> at_place t st s'' (Reading 0) (drop k q) | c \<Rightarrow> cycle_done ops t st c (drop k q))"
        using Cons.IH [of "Suc n" s'] Cons.prems(2) n unfolding l by auto
      moreover from k have "\<forall>s''. drain_loop s' (take (64 - Suc n) (map try_recv.Received q)) = Next s'' \<longrightarrow>
          Suc k = min (64 - n) (length (req # q))"
        using n by auto
      ultimately show ?thesis unfolding l using m Next
        by (intro exI [of _ "TaskWrite # evs"] exI [of _ "Suc k"]) (simp only: drop_Suc_Cons, simp)
    qed (use m nd tk assms(2) handle_no_break in \<open>auto intro!: exI [of _ "[TaskWrite]"] exI [of _ 1]\<close>)
  qed
qed

text \<open>Without interruption the statements of a cycle make up \<open>read_cycle\<close> on the queue as it is.\<close>

lemma uninterrupted:
  assumes "rd_task (pt_driver t) = Some st" and "po_phase st = Idle" and "po_backoff st = 0"
    and "op_cycle (ph_ops ops) (map try_recv.Received (pt_queue t)) (po_driver st) \<noteq> Diverges"
  shows "\<exists>evs k. set evs \<subseteq> {TaskWrite, TaskRead} \<and> k \<le> length (pt_queue t)
    \<and> run_task ops (TaskTick # evs) t = Some (cycle_done ops t st
        (op_cycle (ph_ops ops) (map try_recv.Received (pt_queue t)) (po_driver st)) (drop k (pt_queue t)))
    \<and> (\<forall>s'. op_cycle (ph_ops ops) (map try_recv.Received (pt_queue t)) (po_driver st) = Next s' \<longrightarrow>
        k = min 64 (length (pt_queue t)))"
proof -
  let ?q = "pt_queue t" and ?b = "ph_begin ops (po_driver st)"
  have nb: "?b \<noteq> Diverges" using assms(4) by (auto simp: cycle_phases)
  have start: "task_move ops TaskTick t = Some (case ?b of Next s \<Rightarrow> at_place t st s (Draining 0) ?q | c \<Rightarrow> cycle_done ops t st c ?q)"
    using assms(1-3) by (cases ?b) (simp_all add: task_move_def task_stmt_def at_place_def cycle_done_def nb)
  show ?thesis
  proof (cases ?b)
    case (Next s)
    define loop where "loop = for_each (\<lambda>s r. case r of try_recv.Received req \<Rightarrow> ph_handle ops s req
        | RecvEmpty \<Rightarrow> Break s | try_recv.RecvDisconnected \<Rightarrow> Break s)"
    define c where "c = loop s (take 64 (map try_recv.Received ?q))"
    have cyc: "op_cycle (ph_ops ops) (map try_recv.Received ?q) (po_driver st)
        = ctl_bind c (\<lambda>s. for_each (\<lambda>s f. f s) s (ph_reads ops s))"
      by (simp add: cycle_phases Next drain_def c_def loop_def)
    then have nd: "c \<noteq> Diverges" using assms(4) by auto
    obtain evs k where d: "k \<le> length ?q" "set evs \<subseteq> {TaskWrite, TaskRead}"
        "run_task ops evs (at_place t st s (Draining 0) ?q) =
          Some (case c of Next s' \<Rightarrow> at_place t st s' (Reading 0) (drop k ?q) | c \<Rightarrow> cycle_done ops t st c (drop k ?q))"
        "\<forall>s'. c = Next s' \<longrightarrow> k = min 64 (length ?q)"
      using run_drain [OF _ loop_def, of 0 s ?q t st] nd unfolding c_def by auto
    show ?thesis
    proof (cases c)
      case N: (Next s')
      have "for_each (\<lambda>s f. f s) s' (ph_reads ops s') \<noteq> Diverges" using assms(4) cyc N by simp
      from run_reads [OF _ _ this, of 0 t st "drop k ?q"] obtain n where
        "run_task ops (replicate n TaskRead) (at_place t st s' (Reading 0) (drop k ?q))
          = Some (cycle_done ops t st (for_each (\<lambda>s f. f s) s' (ph_reads ops s')) (drop k ?q))" by auto
      then show ?thesis using d start Next N cyc
        by (intro exI [of _ "evs @ replicate n TaskRead"] exI [of _ k]) (auto simp: run_task_append)
    qed (use d start Next cyc nd in \<open>auto intro!: exI [of _ evs] exI [of _ k]\<close>)
  qed (use start nb cycle_phases in \<open>auto intro!: exI [of _ "[]"] exI [of _ 0]\<close>)
qed

end

section \<open>Properties\<close>

text \<open>C8: A cycle of a task that no other thread interrupts is the driver's \<open>read_cycle\<close> on the write queue as it is,
  for both drivers: some number of statements leads from the tick to the state that the poll loop reaches
  with \<open>read_cycle\<close>, with the first requests taken from the queue; when the cycle succeeds, these are all
  the requests, or 64.\<close>

theorem uninterrupted_cycle:
  assumes "rd_task (pt_driver t) = Some st" and "po_phase st = Idle" and "po_backoff st = 0"
    and "dyn_cycle net (map try_recv.Received (pt_queue t)) (po_driver st) \<noteq> Diverges"
  shows "\<exists>evs k. set evs \<subseteq> {TaskWrite, TaskRead} \<and> k \<le> length (pt_queue t)
    \<and> run_task (dyn_ops net) (TaskTick # evs) t = Some (set_task
        (run_cycle (ph_ops (dyn_ops net)) (rd_name (pt_driver t)) (rd_health_tx (pt_driver t))
          (rd_max_backoff_secs (pt_driver t)) (map try_recv.Received (pt_queue t)) st) None
        (t\<lparr>pt_queue := drop k (pt_queue t)\<rparr>))
    \<and> (\<forall>x. dyn_cycle net (map try_recv.Received (pt_queue t)) (po_driver st) = Next x \<longrightarrow>
        k = min 64 (length (pt_queue t)))"
  using dyn.uninterrupted [of t st net] assms
  by (simp add: cycle_done_def cycle_end_def run_cycle_def del: run_task.simps)

text \<open>The network of the examples: a Modbus device that answers, and a FINS device that accepts connections only.\<close>

definition example_net :: "nat net" where
  "example_net =
     \<lparr>nt_profile = Release, nt_warn_on = False, nt_crates = example_crates, nt_fins = dead_fins_io,
      nt_modbus = example_io (\<lambda>n. of_nat n), nt_functions = [HoldingRegisters]\<rparr>"

text \<open>A FINS task with a request for an unknown tag and one group to read.\<close>

definition example_fins_poll :: "nat plc poll_state" where
  "example_fins_poll =
     \<lparr>po_phase = Idle, po_backoff = 0,
      po_driver = FinsRun example_fins_config_a [example_group] ((FinsDriver_new example_registry 0)\<lparr>ds_conn := True\<rparr>),
      po_sent = []\<rparr>"

definition example_fins_task :: "nat plc plc_task" where
  "example_fins_task =
     \<lparr>pt_driver = (RuntimeDriver_new ''omron'' 500)\<lparr>rd_task := Some example_fins_poll\<rparr>, pt_at = None,
      pt_queue = [\<lparr>wr_tag_id = ''unknown'', wr_value = VUInt16 1, wr_reply = Some 7\<rparr>]\<rparr>"

lemma example_fins_cycle:
  "\<exists>x. dyn_cycle example_net (map try_recv.Received (pt_queue example_fins_task)) (po_driver example_fins_poll) = Next x"
  by (simp add: dyn_cycle_def example_fins_poll_def example_fins_task_def example_net_def FinsDriver_new_def dead_fins_io_def
      fins_run_read_cycle_impl_def fins_ensure_conn_def fins_write_phase_def drain_def fins_handle_write_def
      example_fins_config_a_def FinsConfig_new_def TagMapping_new_def
      fins_read_group_def next_sid_def exchange_def transact_def on_stream_def Let_def)

theorem uninterrupted_cycle_witness:
  "\<exists>evs. run_task (dyn_ops example_net) (TaskTick # evs) example_fins_task = Some (set_task
        (run_cycle (ph_ops (dyn_ops example_net)) ''omron'' False (rd_max_backoff_secs (pt_driver example_fins_task))
          [try_recv.Received \<lparr>wr_tag_id = ''unknown'', wr_value = VUInt16 1, wr_reply = Some 7\<rparr>] example_fins_poll) None
        (example_fins_task\<lparr>pt_queue := []\<rparr>))"
proof -
  let ?t = example_fins_task
  have t: "rd_task (pt_driver ?t) = Some example_fins_poll" "rd_name (pt_driver ?t) = ''omron''"
      "rd_health_tx (pt_driver ?t) = False"
      "map try_recv.Received (pt_queue ?t) = [try_recv.Received \<lparr>wr_tag_id = ''unknown'', wr_value = VUInt16 1, wr_reply = Some 7\<rparr>]"
      "drop (min 64 (length (pt_queue ?t))) (pt_queue ?t) = []"
    by (simp_all add: example_fins_task_def RuntimeDriver_new_def)
  have "po_phase example_fins_poll = Idle" "po_backoff example_fins_poll = 0" by (simp_all add: example_fins_poll_def)
  from uninterrupted_cycle [OF t(1) this, of example_net] example_fins_cycle obtain evs where
    "run_task (dyn_ops example_net) (TaskTick # evs) ?t = Some (set_task
        (run_cycle (ph_ops (dyn_ops example_net)) (rd_name (pt_driver ?t)) (rd_health_tx (pt_driver ?t))
          (rd_max_backoff_secs (pt_driver ?t)) (map try_recv.Received (pt_queue ?t)) example_fins_poll) None
        (?t\<lparr>pt_queue := drop (min 64 (length (pt_queue ?t))) (pt_queue ?t)\<rparr>))"
    by auto
  then show ?thesis unfolding t(2-5) by blast
qed

end
