(* ===== verification/Bridge_System.thy ===== *)
theory Bridge_System
  imports Bridge_Tasks Write_Path
begin

text \<open>
  The running bridge as a whole: the threads and tasks that \<open>main\<close> starts, and the channels between them.
  The OPC UA server loop runs the data sources' callbacks one at a time and waits in them for a
  confirmation; the write bridge thread takes a write from the bridge channel, hands it to a driver's
  queue and waits for the driver's reply; the polling tasks drain their queues and read their devices;
  \<open>main\<close> waits for the interrupt, stops the drivers one after the other and then the server.  A state has
  a component for each of them, an event is what one of them does next, and the theorems are about
  every sequence of events, in whatever order the scheduler takes them.

  A timeout may fire at any time while its thread waits.  The server loop ends together with setting the
  flag of the bridge thread; the thread, which waits with a timeout, may have found its channel empty
  before and read the flag after a further write.  The drivers answer every request that they take, so
  a reply channel is not closed without an answer.  Reply channels are named by numbers that are used
  once.  The queues of the drivers are never closed, because \<open>main\<close> keeps the drivers.  The list
  \<open>sy_handled\<close> is a history: which driver treated which request, and in what state.
\<close>

section \<open>The state\<close>

datatype server_phase = ServerLoop | AwaitingReply BridgeWrite | ServerStopped

text \<open>\<open>BridgeChecking\<close>: the thread found its channel empty for a while and will look at the shutdown flag.\<close>

datatype bridge_phase = BridgeListening | BridgeAwaiting BridgeWrite nat | BridgeChecking | BridgeEnded

datatype main_phase = Serving | StoppingDriver nat | StoppingServer | Finished

datatype client_answer = WriteAnswer BridgeWrite "StatusCode + unit" | WriteRefused string "StatusCode + unit"

record 's bridge_system =
  sy_registry :: TagRegistry
  sy_tasks :: "'s plc_task list"
  sy_channel :: "BridgeWrite list"
  sy_server :: server_phase
  sy_bridge :: bridge_phase
  sy_main :: main_phase
  sy_next :: nat
  sy_confirms :: "(nat \<times> (string + unit)) list"
  sy_bridge_replies :: "(nat \<times> (string + unit)) list"
  sy_answers :: "client_answer list"
  sy_handled :: "(nat \<times> WriteRequest \<times> 's) list"

record ('v, 'dt, 's, 'err) system_parts =
  sv_ua :: "('v, 'dt) ua"
  sv_crates :: crates
  sv_ops :: "('s, 'err) phased_ops"
  sv_handler :: RuntimeWriteHandler
  sv_sources :: "TagDataSource list"

section \<open>The steps\<close>

datatype 'v sys_event =
    ClientWrite TagDataSource "'v option" | ClientReply | ClientTimeout
  | BridgeTake | BridgeConfirm | BridgeTimeout | BridgeIdle | BridgeCheck | BridgeClosed
  | TaskEvent nat task_event
  | CtrlC | DriverStopped | ServerStops | BridgeJoined

definition sender_queue :: "DriverSender \<Rightarrow> nat" where
  "sender_queue sender = (case sender of FinsSender q \<Rightarrow> q | ModbusSender q \<Rightarrow> q)"

text \<open>Sending into a driver's queue of 256 places: there is room, or the send times out.\<close>

definition send_result :: "RuntimeWriteHandler \<Rightarrow> 's plc_task list \<Rightarrow> string \<Rightarrow> send_outcome" where
  "send_result h tasks tid =
     (case map_of (wh_routing h) tid of
        None \<Rightarrow> Enqueued
      | Some sender \<Rightarrow>
          (let k = sender_queue sender
           in if k < length tasks
              then if length (pt_queue (tasks ! k)) < 256 then Enqueued else EnqueueTimedOut
              else QueueClosed ''channel closed''))"

definition enqueue :: "nat \<Rightarrow> WriteRequest \<Rightarrow> 's plc_task list \<Rightarrow> 's plc_task list" where
  "enqueue k req tasks = tasks[k := (tasks ! k)\<lparr>pt_queue := pt_queue (tasks ! k) @ [req]\<rparr>]"

text \<open>\<open>main\<close> after the interrupt: it requests the next driver to stop, or the server.\<close>

definition stop_from :: "nat \<Rightarrow> 's bridge_system \<Rightarrow> 's bridge_system" where
  "stop_from k s =
     (if k < length (sy_tasks s)
      then s\<lparr>sy_main := StoppingDriver k,
             sy_tasks := (sy_tasks s)[k := (sy_tasks s ! k)\<lparr>pt_driver := rd_request_stop (pt_driver (sy_tasks s ! k))\<rparr>]\<rparr>
      else s\<lparr>sy_main := StoppingServer\<rparr>)"

definition client_write ::
  "('v, 'dt, 's, 'err) system_parts \<Rightarrow> TagDataSource \<Rightarrow> 'v option \<Rightarrow> 's bridge_system \<Rightarrow> 's bridge_system" where
  "client_write pts src written s =
     (case source_write (sv_ua pts) (sv_crates pts) (sy_registry s) src (sy_next s) (sy_bridge s \<noteq> BridgeEnded)
         RecvTimeout written of
        (res, None) \<Rightarrow> s\<lparr>sy_answers := sy_answers s @ [WriteRefused (src_tag_id src) res]\<rparr>
      | (res, Some bw) \<Rightarrow>
          (case bw_reply bw of
             None \<Rightarrow> s\<lparr>sy_channel := sy_channel s @ [bw], sy_answers := sy_answers s @ [WriteAnswer bw res]\<rparr>
           | Some _ \<Rightarrow> s\<lparr>sy_channel := sy_channel s @ [bw], sy_server := AwaitingReply bw, sy_next := Suc (sy_next s)\<rparr>))"

definition bridge_take :: "('v, 'dt, 's, 'err) system_parts \<Rightarrow> BridgeWrite \<Rightarrow> 's bridge_system \<Rightarrow> 's bridge_system" where
  "bridge_take pts bw s =
     (case rt_handle_write (sv_handler pts) (sy_registry s) (sy_next s)
         (send_result (sv_handler pts) (sy_tasks s) (bw_tag_id bw)) ConfirmTimedOut (bw_tag_id bw) (bw_value bw) of
        (res, None) \<Rightarrow> s\<lparr>sy_bridge_replies := sy_bridge_replies s @ bridge_answer bw res\<rparr>
      | (_, Some (sender, req)) \<Rightarrow>
          s\<lparr>sy_tasks := enqueue (sender_queue sender) req (sy_tasks s),
            sy_bridge := BridgeAwaiting bw (sy_next s), sy_next := Suc (sy_next s)\<rparr>)"

definition bridge_confirm :: "BridgeWrite \<Rightarrow> confirm_outcome \<Rightarrow> 's bridge_system \<Rightarrow> 's bridge_system" where
  "bridge_confirm bw confirm s =
     s\<lparr>sy_bridge := BridgeListening,
       sy_bridge_replies := sy_bridge_replies s @ bridge_answer bw (rt_await_confirm confirm)\<rparr>"

definition client_done :: "BridgeWrite \<Rightarrow> recv_outcome \<Rightarrow> 's bridge_system \<Rightarrow> 's bridge_system" where
  "client_done bw outcome s =
     s\<lparr>sy_server := ServerLoop, sy_answers := sy_answers s @ [WriteAnswer bw (source_await outcome)]\<rparr>"

text \<open>A task's event, with the replies that its driver sends.\<close>

definition step_task ::
  "('s, 'err) phased_ops \<Rightarrow> nat \<Rightarrow> task_event \<Rightarrow> 's bridge_system \<Rightarrow> 's bridge_system option" where
  "step_task ops k ev s =
     (if k < length (sy_tasks s) then
        (let t = with_registry ops (sy_registry s) (sy_tasks s ! k)
         in case task_step ops ev (sy_registry s) (sy_tasks s ! k) of
              None \<Rightarrow> None
            | Some (r, t') \<Rightarrow>
                Some (s\<lparr>sy_registry := r, sy_tasks := (sy_tasks s)[k := t'],
                  sy_confirms := sy_confirms s
                    @ drop (length (ph_replies ops (drv_of t))) (ph_replies ops (drv_of t')),
                  sy_handled := sy_handled s
                    @ (if ev = TaskWrite then [(k, hd (pt_queue t), drv_of t)] else [])\<rparr>))
      else None)"

text \<open>\<open>None\<close>: the event is not enabled.\<close>

fun sys_step ::
  "('v, 'dt, 's, 'err) system_parts \<Rightarrow> 'v sys_event \<Rightarrow> 's bridge_system \<Rightarrow> 's bridge_system option" where
  "sys_step pts (ClientWrite src written) s =
     (if sy_server s = ServerLoop \<and> src \<in> set (sv_sources pts) then Some (client_write pts src written s) else None)"
| "sys_step pts ClientReply s =
     (case sy_server s of
        AwaitingReply bw \<Rightarrow>
          (case Option.bind (bw_reply bw) (map_of (sy_bridge_replies s)) of
             Some r \<Rightarrow> Some (client_done bw (recv_outcome.Received r) s)
           | None \<Rightarrow> None)
      | _ \<Rightarrow> None)"
| "sys_step pts ClientTimeout s =
     (case sy_server s of AwaitingReply bw \<Rightarrow> Some (client_done bw RecvTimeout s) | _ \<Rightarrow> None)"
| "sys_step pts BridgeTake s =
     (case (sy_bridge s, sy_channel s) of
        (BridgeListening, bw # rest) \<Rightarrow> Some (bridge_take pts bw (s\<lparr>sy_channel := rest\<rparr>))
      | _ \<Rightarrow> None)"
| "sys_step pts BridgeConfirm s =
     (case sy_bridge s of
        BridgeAwaiting bw tx \<Rightarrow>
          (case map_of (sy_confirms s) tx of Some r \<Rightarrow> Some (bridge_confirm bw (Answered r) s) | None \<Rightarrow> None)
      | _ \<Rightarrow> None)"
| "sys_step pts BridgeTimeout s =
     (case sy_bridge s of BridgeAwaiting bw tx \<Rightarrow> Some (bridge_confirm bw ConfirmTimedOut s) | _ \<Rightarrow> None)"
| "sys_step pts BridgeIdle s =
     (if sy_bridge s = BridgeListening \<and> sy_channel s = [] then Some (s\<lparr>sy_bridge := BridgeChecking\<rparr>) else None)"
| "sys_step pts BridgeCheck s =
     (if sy_bridge s = BridgeChecking
      then Some (s\<lparr>sy_bridge := (if sy_server s = ServerStopped then BridgeEnded else BridgeListening)\<rparr>) else None)"
| "sys_step pts BridgeClosed s =
     (if sy_bridge s = BridgeListening \<and> sy_channel s = [] \<and> sy_server s = ServerStopped
      then Some (s\<lparr>sy_bridge := BridgeEnded\<rparr>) else None)"
| "sys_step pts (TaskEvent k ev) s = step_task (sv_ops pts) k ev s"
| "sys_step pts CtrlC s = (if sy_main s = Serving then Some (stop_from 0 s) else None)"
| "sys_step pts DriverStopped s =
     (case sy_main s of
        StoppingDriver k \<Rightarrow>
          (case rd_stop_returns (pt_driver (sy_tasks s ! k)) of
             Some rd \<Rightarrow> Some (stop_from (Suc k) (s\<lparr>sy_tasks := (sy_tasks s)[k := (sy_tasks s ! k)\<lparr>pt_driver := rd\<rparr>]\<rparr>))
           | None \<Rightarrow> None)
      | _ \<Rightarrow> None)"
| "sys_step pts ServerStops s =
     (if sy_main s = StoppingServer \<and> sy_server s = ServerLoop then Some (s\<lparr>sy_server := ServerStopped\<rparr>) else None)"
| "sys_step pts BridgeJoined s =
     (if sy_main s = StoppingServer \<and> sy_server s = ServerStopped \<and> sy_bridge s = BridgeEnded
      then Some (s\<lparr>sy_main := Finished\<rparr>) else None)"

inductive sys_reach ::
  "('v, 'dt, 's, 'err) system_parts \<Rightarrow> 's bridge_system \<Rightarrow> 's bridge_system \<Rightarrow> bool" for pts s0 where
  start: "sys_reach pts s0 s0"
| step: "sys_reach pts s0 s \<Longrightarrow> sys_step pts ev s = Some s' \<Longrightarrow> sys_reach pts s0 s'"

section \<open>The bridge that main has started\<close>

definition boot_driver :: "TagRegistry \<Rightarrow> 'e \<Rightarrow> plc_driver runtime_driver \<Rightarrow> 'e plc runtime_driver" where
  "boot_driver r e rd =
     \<lparr>rd_name = rd_name rd, rd_poll_ms = rd_poll_ms rd, rd_health_tx = rd_health_tx rd, rd_shutdown = rd_shutdown rd,
      rd_max_backoff_secs = rd_max_backoff_secs rd,
      rd_task = map_option (\<lambda>st. \<lparr>po_phase = po_phase st, po_backoff = po_backoff st,
        po_driver = boot r e (po_driver st), po_sent = po_sent st\<rparr>) (rd_task rd)\<rparr>"

text \<open>\<open>es k\<close> is the surroundings of driver \<open>k\<close> when it starts.\<close>

definition system_of :: "'n bridge \<Rightarrow> (nat \<Rightarrow> 'e) \<Rightarrow> 'e plc bridge_system" where
  "system_of br es =
     \<lparr>sy_registry = br_registry br,
      sy_tasks = map (\<lambda>(k, rd). \<lparr>pt_driver = boot_driver (br_registry br) (es k) rd, pt_at = None, pt_queue = []\<rparr>)
        (List.enumerate 0 (br_drivers br)),
      sy_channel = [], sy_server = ServerLoop, sy_bridge = BridgeListening, sy_main = Serving, sy_next = 0,
      sy_confirms = [], sy_bridge_replies = [], sy_answers = [], sy_handled = []\<rparr>"

definition parts_of ::
  "('v, 'dt) ua \<Rightarrow> 'e net \<Rightarrow> 'n bridge \<Rightarrow> ('v, 'dt, 'e plc, FinsError + DriverError) system_parts" where
  "parts_of ua net br =
     \<lparr>sv_ua = ua, sv_crates = nt_crates net, sv_ops = dyn_ops net, sv_handler = br_handler br,
      sv_sources = map (tag_source (oc_write_mode (br_opcua br))) (reg_all_definitions_sorted (br_registry br))\<rparr>"

section \<open>Invariants\<close>

text \<open>A request for driver \<open>k\<close>: its tag is routed there, defined, writable and of the value's type; it has a reply
  channel that has been given out.\<close>

definition request_ok :: "RuntimeWriteHandler \<Rightarrow> TagRegistry \<Rightarrow> nat \<Rightarrow> nat \<Rightarrow> WriteRequest \<Rightarrow> bool" where
  "request_ok h r n k req \<longleftrightarrow>
     (\<exists>sender. map_of (wh_routing h) (wr_tag_id req) = Some sender \<and> sender_queue sender = k)
     \<and> (\<exists>d. reg_def r (wr_tag_id req) = Some d \<and> td_writable d \<and> data_type (wr_value req) = td_data_type d)
     \<and> (\<exists>tx < n. wr_reply req = Some tx)"

definition task_ok ::
  "('s, 'err) phased_ops \<Rightarrow> RuntimeWriteHandler \<Rightarrow> TagRegistry \<Rightarrow> (nat \<Rightarrow> plc_driver) \<Rightarrow> nat \<Rightarrow> nat \<Rightarrow> 's plc_task \<Rightarrow> bool" where
  "task_ok ops h r C n k t \<longleftrightarrow>
     length (pt_queue t) \<le> 256 \<and> (\<forall>req \<in> set (pt_queue t). request_ok h r n k req)
     \<and> (\<forall>st. rd_task (pt_driver t) = Some st \<longrightarrow> ph_config ops (po_driver st) = C k)"

text \<open>Registry, queues and history: \<open>r\<close> is the registry at the start and \<open>C\<close> gives the configurations.\<close>

definition state_inv ::
  "('s, 'err) phased_ops \<Rightarrow> RuntimeWriteHandler \<Rightarrow> TagRegistry \<Rightarrow> (nat \<Rightarrow> plc_driver) \<Rightarrow> 's bridge_system \<Rightarrow> bool" where
  "state_inv ops h r C s \<longleftrightarrow>
     reg_step\<^sup>*\<^sup>* r (sy_registry s)
     \<and> (\<forall>k < length (sy_tasks s). task_ok ops h r C (sy_next s) k (sy_tasks s ! k))
     \<and> (\<forall>(k, req, x) \<in> set (sy_handled s). request_ok h r (sy_next s) k req \<and> ph_config ops x = C k)"

text \<open>A client's write was performed: a driver treated a request for its tag with its value, and the device
  accepted.\<close>

definition performed :: "('s \<Rightarrow> WriteRequest \<Rightarrow> bool) \<Rightarrow> 's bridge_system \<Rightarrow> BridgeWrite \<Rightarrow> bool" where
  "performed accepts s bw \<longleftrightarrow>
     (\<exists>(k, req, x) \<in> set (sy_handled s). wr_tag_id req = bw_tag_id bw \<and> wr_value req = bw_value bw \<and> accepts x req)"

abbreviation queues :: "'s bridge_system \<Rightarrow> WriteRequest list list" where
  "queues s \<equiv> map pt_queue (sy_tasks s)"

definition known_requests :: "'s bridge_system \<Rightarrow> WriteRequest set" where
  "known_requests s = \<Union> (set ` set (queues s)) \<union> (\<lambda>(k, req, x). req) ` set (sy_handled s)"

definition pending_writes :: "'s bridge_system \<Rightarrow> BridgeWrite set" where
  "pending_writes s = set (sy_channel s) \<union> (case sy_bridge s of BridgeAwaiting bw _ \<Rightarrow> {bw} | _ \<Rightarrow> {})"

text \<open>An \<open>Ok\<close> on a reply channel comes from a device, for the request that the channel was made for.\<close>

definition confirm_inv :: "('s \<Rightarrow> WriteRequest \<Rightarrow> bool) \<Rightarrow> 's bridge_system \<Rightarrow> bool" where
  "confirm_inv accepts s \<longleftrightarrow>
     (\<forall>tx. (tx, Inr ()) \<in> set (sy_confirms s) \<longrightarrow>
        (\<exists>(k, req, x) \<in> set (sy_handled s). wr_reply req = Some tx \<and> accepts x req))
     \<and> (\<forall>bw tx. sy_bridge s = BridgeAwaiting bw tx \<longrightarrow>
        (\<forall>req \<in> known_requests s. wr_reply req = Some tx \<longrightarrow> wr_tag_id req = bw_tag_id bw \<and> wr_value req = bw_value bw))"

definition channel_inv :: "('s \<Rightarrow> WriteRequest \<Rightarrow> bool) \<Rightarrow> 's bridge_system \<Rightarrow> bool" where
  "channel_inv accepts s \<longleftrightarrow>
     (\<forall>bw \<in> pending_writes s. \<forall>tx. bw_reply bw = Some tx \<longrightarrow> tx < sy_next s)
     \<and> (\<forall>(tx, res) \<in> set (sy_bridge_replies s). tx < sy_next s)
     \<and> (\<forall>bw. sy_server s = AwaitingReply bw \<longrightarrow>
        (\<forall>bw' \<in> pending_writes s. bw_reply bw' = bw_reply bw \<longrightarrow> bw' = bw)
        \<and> (\<forall>tx. bw_reply bw = Some tx \<and> (tx, Inr ()) \<in> set (sy_bridge_replies s) \<longrightarrow> performed accepts s bw))
     \<and> (\<forall>bw. WriteAnswer bw (Inr ()) \<in> set (sy_answers s) \<and> bw_reply bw \<noteq> None \<longrightarrow> performed accepts s bw)"

lemma request_ok_mono: "request_ok h r n k req \<Longrightarrow> n \<le> n' \<Longrightarrow> request_ok h r n' k req"
  unfolding request_ok_def using order_less_le_trans by blast

lemma task_ok_mono: "task_ok ops h r C n k t \<Longrightarrow> n \<le> n' \<Longrightarrow> task_ok ops h r C n' k t"
  unfolding task_ok_def by (meson request_ok_mono)

text \<open>Invariants look at the tasks through their queues and configurations, and at the history only as it grows.\<close>

lemma performed_mono: "performed accepts s bw \<Longrightarrow> set (sy_handled s) \<subseteq> set (sy_handled s') \<Longrightarrow> performed accepts s' bw"
  unfolding performed_def by blast

lemma known_requests_reply:
  assumes "state_inv ops h r C s" and "req \<in> known_requests s" and "wr_reply req = Some tx"
  shows "tx < sy_next s"
proof -
  have "\<exists>k. request_ok h r (sy_next s) k req"
    using assms(1,2) by (fastforce simp: state_inv_def known_requests_def task_ok_def in_set_conv_nth)
  then show ?thesis using assms(3) by (auto simp: request_ok_def)
qed

text \<open>What becomes of the tasks when one of them is changed.\<close>

lemma stop_from_sel [simp]:
  "sy_registry (stop_from k s) = sy_registry s" "sy_channel (stop_from k s) = sy_channel s"
  "sy_server (stop_from k s) = sy_server s" "sy_bridge (stop_from k s) = sy_bridge s" "sy_next (stop_from k s) = sy_next s"
  "sy_confirms (stop_from k s) = sy_confirms s" "sy_bridge_replies (stop_from k s) = sy_bridge_replies s"
  "sy_answers (stop_from k s) = sy_answers s" "sy_handled (stop_from k s) = sy_handled s"
  by (simp_all add: stop_from_def)

lemma queues_update:
  "map pt_queue (ts[k := t]) = (map pt_queue ts)[k := pt_queue t]"
  "map pt_queue (ts[k := (ts ! k)\<lparr>pt_driver := rd\<rparr>]) = map pt_queue ts"
proof -
  show u: "map pt_queue (ts[k := t]) = (map pt_queue ts)[k := pt_queue t]" for t by (rule map_update)
  show "map pt_queue (ts[k := (ts ! k)\<lparr>pt_driver := rd\<rparr>]) = map pt_queue ts"
    by (cases "k < length ts") (simp_all add: u list_update_same_conv list_update_beyond)
qed

lemma queues_stop [simp]: "queues (stop_from k s) = queues s"
  by (simp add: stop_from_def queues_update(2))

lemma known_requests_cong:
  "queues s' = queues s \<Longrightarrow> sy_handled s' = sy_handled s \<Longrightarrow> known_requests s' = known_requests s"
  by (simp add: known_requests_def)

lemma state_inv_tasks:
  assumes "state_inv ops h r C s" and "length ts = length (sy_tasks s)"
    and "\<And>k. k < length ts \<Longrightarrow> pt_queue (ts ! k) = pt_queue (sy_tasks s ! k)
      \<and> (rd_task (pt_driver (ts ! k)) = None \<or> rd_task (pt_driver (ts ! k)) = rd_task (pt_driver (sy_tasks s ! k)))"
  shows "state_inv ops h r C (s\<lparr>sy_tasks := ts\<rparr>)"
  using assms unfolding state_inv_def task_ok_def by (auto split: prod.splits) (metis option.distinct(1))+

section \<open>Every step keeps the invariants\<close>

lemma state_inv_frame:
  assumes "state_inv ops h r C s" and "sy_registry s' = sy_registry s" and "sy_tasks s' = sy_tasks s"
    and "sy_handled s' = sy_handled s" and "sy_next s \<le> sy_next s'"
  shows "state_inv ops h r C s'"
  using assms unfolding state_inv_def by (auto intro: task_ok_mono request_ok_mono)

text \<open>What a client's write does.\<close>

lemma client_write_cases:
  obtains (refused) res where "client_write pts src written s = s\<lparr>sy_answers := sy_answers s @ [WriteRefused (src_tag_id src) res]\<rparr>"
  | (queued) bw where "bw_reply bw = None" "client_write pts src written s =
      s\<lparr>sy_channel := sy_channel s @ [bw], sy_answers := sy_answers s @ [WriteAnswer bw (Inr ())]\<rparr>"
  | (waits) bw where "bw_reply bw = Some (sy_next s)" "client_write pts src written s =
      s\<lparr>sy_channel := sy_channel s @ [bw], sy_server := AwaitingReply bw, sy_next := Suc (sy_next s)\<rparr>"
proof (rule source_write_cases [of "sv_ua pts" "sv_crates pts" "sy_registry s" src "sy_next s"
      "sy_bridge s \<noteq> BridgeEnded" RecvTimeout written])
  assume "source_write (sv_ua pts) (sv_crates pts) (sy_registry s) src (sy_next s) (sy_bridge s \<noteq> BridgeEnded)
      RecvTimeout written = (Inl BADINTERNALERROR, None)"
  then show thesis by (intro refused) (simp add: client_write_def)
next
  fix var d v
  let ?bw = "\<lparr>bw_tag_id = src_tag_id src, bw_value = v,
    bw_reply = (if src_write_mode src = ConfirmedAck then Some (sy_next s) else None)\<rparr>"
  assume w: "source_write (sv_ua pts) (sv_crates pts) (sy_registry s) src (sy_next s) (sy_bridge s \<noteq> BridgeEnded)
      RecvTimeout written = (if src_write_mode src = QueuedAck then Inr () else source_await RecvTimeout, Some ?bw)"
  show thesis
  proof (cases "src_write_mode src")
    case QueuedAck
    with w show thesis by (intro queued [of ?bw]) (simp_all add: client_write_def)
  next
    case ConfirmedAck
    with w show thesis by (intro waits [of ?bw]) (simp_all add: client_write_def)
  qed
qed

text \<open>What the bridge thread does with a write that it takes.\<close>

lemma bridge_take_cases:
  obtains (failed) e where "bridge_take pts bw s = s\<lparr>sy_bridge_replies := sy_bridge_replies s @ bridge_answer bw (Inl e)\<rparr>"
  | (sent) sender req where "map_of (wh_routing (sv_handler pts)) (bw_tag_id bw) = Some sender"
      "sender_queue sender < length (sy_tasks s)" "length (queues s ! sender_queue sender) < 256"
      "rt_validate (sy_registry s) (bw_tag_id bw) (bw_value bw) = Inr ()"
      "req = \<lparr>wr_tag_id = bw_tag_id bw, wr_value = bw_value bw, wr_reply = Some (sy_next s)\<rparr>"
      "bridge_take pts bw s = s\<lparr>sy_tasks := enqueue (sender_queue sender) req (sy_tasks s),
        sy_bridge := BridgeAwaiting bw (sy_next s), sy_next := Suc (sy_next s)\<rparr>"
proof (rule rt_handle_write_cases [of "sv_handler pts" "sy_registry s" "sy_next s"
      "send_result (sv_handler pts) (sy_tasks s) (bw_tag_id bw)" ConfirmTimedOut "bw_tag_id bw" "bw_value bw"])
  fix e
  assume "rt_handle_write (sv_handler pts) (sy_registry s) (sy_next s) (send_result (sv_handler pts) (sy_tasks s) (bw_tag_id bw))
      ConfirmTimedOut (bw_tag_id bw) (bw_value bw) = (Inl e, None)"
  then show thesis by (intro failed) (simp add: bridge_take_def)
next
  fix q assume a: "rt_validate (sy_registry s) (bw_tag_id bw) (bw_value bw) = Inr ()"
      "map_of (wh_routing (sv_handler pts)) (bw_tag_id bw) = Some q"
      "send_result (sv_handler pts) (sy_tasks s) (bw_tag_id bw) = Enqueued"
      "rt_handle_write (sv_handler pts) (sy_registry s) (sy_next s) (send_result (sv_handler pts) (sy_tasks s) (bw_tag_id bw))
        ConfirmTimedOut (bw_tag_id bw) (bw_value bw) =
        (rt_await_confirm ConfirmTimedOut, Some (q, \<lparr>wr_tag_id = bw_tag_id bw, wr_value = bw_value bw, wr_reply = Some (sy_next s)\<rparr>))"
  have "sender_queue q < length (sy_tasks s)" "length (queues s ! sender_queue q) < 256"
    using a(2,3) by (auto simp: send_result_def Let_def split: if_splits)
  with a show thesis by (intro sent) (simp_all add: bridge_take_def)
qed

lemma queues_enqueue:
  "k < length ts \<Longrightarrow> map pt_queue (enqueue k req ts) = (map pt_queue ts)[k := map pt_queue ts ! k @ [req]]"
  by (simp add: enqueue_def queues_update(1))

lemma reg_def_steps: "reg_step\<^sup>*\<^sup>* r r' \<Longrightarrow> reg_wf r \<Longrightarrow> reg_def r' = reg_def r"
  using reg_steps_wf [of r r'] by (auto simp: reg_def_def)

lemma state_inv_bridge_take:
  assumes "state_inv ops (sv_handler pts) r C s" and "reg_wf r"
  shows "state_inv ops (sv_handler pts) r C (bridge_take pts bw s)"
proof (cases rule: bridge_take_cases [of pts bw s])
  case (failed e)
  then show ?thesis by (simp add: state_inv_frame [OF assms(1)])
next
  case (sent sender req)
  let ?k = "sender_queue sender" and ?ts = "enqueue (sender_queue sender) req (sy_tasks s)"
  have reg: "reg_step\<^sup>*\<^sup>* r (sy_registry s)" using assms(1) by (simp add: state_inv_def)
  then have "reg_wf (sy_registry s)" using reg_steps_wf assms(2) by blast
  from rt_validate_wf [OF this] sent(4) reg_def_steps [OF reg assms(2)]
  have "request_ok (sv_handler pts) r (Suc (sy_next s)) ?k req"
    using sent(1,5) by (simp add: request_ok_def)
  then have "task_ok ops (sv_handler pts) r C (Suc (sy_next s)) k (?ts ! k)" if "k < length (sy_tasks s)" for k
    using assms(1) sent(2,3) that task_ok_mono [of ops "sv_handler pts" r C "sy_next s" k "sy_tasks s ! k" "Suc (sy_next s)"]
    by (auto simp: state_inv_def enqueue_def nth_list_update task_ok_def)
  moreover have "length ?ts = length (sy_tasks s)" by (simp add: enqueue_def)
  ultimately show ?thesis
    using assms(1) unfolding sent(6) state_inv_def by (auto intro: request_ok_mono)
qed

lemma state_inv_stop:
  assumes "state_inv ops h r C s"
  shows "state_inv ops h r C (stop_from k s)"
proof (cases "k < length (sy_tasks s)")
  case True
  have "state_inv ops h r C (s\<lparr>sy_tasks := (sy_tasks s)[k := (sy_tasks s ! k)\<lparr>pt_driver := rd_request_stop (pt_driver (sy_tasks s ! k))\<rparr>]\<rparr>)"
    using True by (intro state_inv_tasks [OF assms]) (simp_all add: nth_list_update rd_request_stop_def)
  from state_inv_frame [OF this] True show ?thesis by (simp add: stop_from_def)
qed (simp add: stop_from_def state_inv_frame [OF assms])

lemma state_inv_driver_stopped:
  assumes "state_inv ops h r C s" and "rd_stop_returns (pt_driver (sy_tasks s ! k)) = Some rd"
  shows "state_inv ops h r C (s\<lparr>sy_tasks := (sy_tasks s)[k := (sy_tasks s ! k)\<lparr>pt_driver := rd\<rparr>]\<rparr>)"
proof -
  have "rd_task rd = None" using assms(2) by (auto simp: rd_stop_returns_def split: option.splits if_splits)
  then show ?thesis
    by (intro state_inv_tasks [OF assms(1)])
      (cases "k < length (sy_tasks s)"; simp add: nth_list_update list_update_beyond)+
qed

lemma set_task_sel [simp]: "rd_task (pt_driver (set_task st at t)) = Some st" "pt_queue (set_task st at t) = pt_queue t"
  by (simp_all add: set_task_def)

lemma task_move_task:
  assumes "task_move ops ev t = Some t'"
  shows "rd_task (pt_driver t) \<noteq> None" and "rd_task (pt_driver t') \<noteq> None"
proof -
  obtain st where st: "rd_task (pt_driver t) = Some st" and m: "poll_move ops ev t st = Some t'"
    using assms by (auto simp: task_move_def split: option.splits)
  have "rd_task (pt_driver (task_stmt ops t st c p)) \<noteq> None" for t c p
    by (cases c) (simp_all add: task_stmt_def)
  with m show "rd_task (pt_driver t') \<noteq> None"
    by (cases ev) (auto simp: Let_def split: if_splits option.splits progress.splits list.splits)
qed (use assms in \<open>auto simp: task_move_def split: option.splits\<close>)

context task_driver
begin

lemma with_registry_sel:
  assumes "rd_task (pt_driver t) = Some st"
  shows "drv_of (with_registry ops r t) = op_put_registry (ph_ops ops) r (po_driver st)"
    and "pt_queue (with_registry ops r t) = pt_queue t"
  using assms by (simp_all add: with_registry_def)

text \<open>An event of task \<open>k\<close>: \<open>cs\<close> are the replies it sends and \<open>hs\<close> is what it adds to the history.\<close>

lemma step_task_cases:
  assumes "step_task ops k ev s = Some s'"
  obtains st st' t' r' cs hs where "k < length (sy_tasks s)"
    and "rd_task (pt_driver (sy_tasks s ! k)) = Some st" and "rd_task (pt_driver t') = Some st'"
    and "s' = s\<lparr>sy_registry := r', sy_tasks := (sy_tasks s)[k := t'], sy_confirms := sy_confirms s @ cs,
      sy_handled := sy_handled s @ hs\<rparr>"
    and "reg_step\<^sup>*\<^sup>* (sy_registry s) r'" and "ph_config ops (po_driver st') = ph_config ops (po_driver st)"
    and "cs = [] \<and> hs = [] \<and> pt_queue t' = pt_queue (sy_tasks s ! k)
      \<or> (\<exists>req x. pt_queue (sy_tasks s ! k) = req # pt_queue t' \<and> hs = [(k, req, x)]
          \<and> ph_config ops x = ph_config ops (po_driver st)
          \<and> (\<forall>tx. (tx, Inr ()) \<in> set cs \<longrightarrow> wr_reply req = Some tx \<and> accepts x req))"
proof -
  let ?t = "with_registry ops (sy_registry s) (sy_tasks s ! k)"
  obtain t' where k: "k < length (sy_tasks s)" and m: "task_move ops ev ?t = Some t'"
    using assms by (auto simp: step_task_def task_step_def Let_def split: if_splits option.splits)
  obtain st' where st': "rd_task (pt_driver t') = Some st'" using task_move_task(2) [OF m] by auto
  obtain st where st: "rd_task (pt_driver (sy_tasks s ! k)) = Some st"
    using task_move_task(1) [OF m] by (auto simp: with_registry_def)
  note sel = with_registry_sel [OF st, of "sy_registry s"]
  let ?x = "drv_of ?t" and ?r' = "op_registry (ph_ops ops) (po_driver st')"
  let ?cs = "drop (length (ph_replies ops ?x)) (ph_replies ops (po_driver st'))"
  let ?hs = "if ev = TaskWrite then [(k, hd (pt_queue ?t), ?x)] else []"
  have x: "op_registry (ph_ops ops) ?x = sy_registry s" "ph_config ops ?x = ph_config ops (po_driver st)"
    by (simp_all only: sel put put_silent)
  have s': "s' = s\<lparr>sy_registry := ?r', sy_tasks := (sy_tasks s)[k := t'], sy_confirms := sy_confirms s @ ?cs,
      sy_handled := sy_handled s @ ?hs\<rparr>"
    using assms k m st' by (simp add: step_task_def task_step_def Let_def task_registry_def)
  show thesis
  proof (rule that [OF k st st' s'])
    show "reg_step\<^sup>*\<^sup>* (sy_registry s) ?r'" "ph_config ops (po_driver st') = ph_config ops (po_driver st)"
      using x st' by (cases rule: task_move_cases [OF m]; auto simp: silent_step_def answer_step_def)+
    show "?cs = [] \<and> ?hs = [] \<and> pt_queue t' = pt_queue (sy_tasks s ! k)
      \<or> (\<exists>req y. pt_queue (sy_tasks s ! k) = req # pt_queue t' \<and> ?hs = [(k, req, y)]
          \<and> ph_config ops y = ph_config ops (po_driver st)
          \<and> (\<forall>tx. (tx, Inr ()) \<in> set ?cs \<longrightarrow> wr_reply req = Some tx \<and> accepts y req))"
      using m
    proof (cases rule: task_move_cases)
      case silent
      then show ?thesis using st' sel(2) by (simp add: silent_step_def)
    next
      case (answers req)
      then obtain ans where "?cs = reply_to req ans" "ans = Inr () \<longrightarrow> accepts ?x req"
        using st' by (auto simp: answer_step_def)
      then show ?thesis using answers(1,2) sel(2) x(2)
        by (intro disjI2 exI [of _ req] exI [of _ ?x]) (auto simp: reply_to_def split: option.splits)
    next
      case (stuck req)
      then show ?thesis using st' sel(2) x(2) by (intro disjI2 exI [of _ req] exI [of _ ?x]) simp
    qed
  qed
qed

lemma state_inv_task:
  assumes "state_inv ops h r C s" and "step_task ops k ev s = Some s'"
  shows "state_inv ops h r C s'"
proof (rule step_task_cases [OF assms(2)])
  fix st st' t' r' cs hs
  assume a: "k < length (sy_tasks s)" "rd_task (pt_driver (sy_tasks s ! k)) = Some st" "rd_task (pt_driver t') = Some st'"
      "s' = s\<lparr>sy_registry := r', sy_tasks := (sy_tasks s)[k := t'], sy_confirms := sy_confirms s @ cs,
        sy_handled := sy_handled s @ hs\<rparr>"
      "reg_step\<^sup>*\<^sup>* (sy_registry s) r'" "ph_config ops (po_driver st') = ph_config ops (po_driver st)"
    and q: "cs = [] \<and> hs = [] \<and> pt_queue t' = pt_queue (sy_tasks s ! k)
      \<or> (\<exists>req x. pt_queue (sy_tasks s ! k) = req # pt_queue t' \<and> hs = [(k, req, x)]
          \<and> ph_config ops x = ph_config ops (po_driver st)
          \<and> (\<forall>tx. (tx, Inr ()) \<in> set cs \<longrightarrow> wr_reply req = Some tx \<and> accepts x req))"
  have ok: "task_ok ops h r C (sy_next s) k (sy_tasks s ! k)" using assms(1) a(1) by (simp add: state_inv_def)
  then have "task_ok ops h r C (sy_next s) k t'" using a(2,3,6) q by (auto simp: task_ok_def)
  then have "task_ok ops h r C (sy_next s) j ((sy_tasks s)[k := t'] ! j)" if "j < length (sy_tasks s)" for j
    using assms(1) that a(1) by (auto simp: state_inv_def nth_list_update)
  moreover have "\<forall>(j, req, x) \<in> set hs. request_ok h r (sy_next s) j req \<and> ph_config ops x = C j"
    using ok q a(2) by (auto simp: task_ok_def)
  ultimately show ?thesis using assms(1) a(4,5) by (auto simp: state_inv_def intro: rtranclp_trans)
qed

lemma state_inv_step:
  assumes "state_inv ops (sv_handler pts) r C s" and "reg_wf r" and "sv_ops pts = ops" and "sys_step pts ev s = Some s'"
  shows "state_inv ops (sv_handler pts) r C s'"
proof (cases ev)
  case (ClientWrite src written)
  then have "s' = client_write pts src written s" using assms(4) by (simp split: if_splits)
  then show ?thesis
    by (cases rule: client_write_cases [of pts src written s]) (simp_all add: state_inv_frame [OF assms(1)])
next
  case BridgeTake
  then obtain bw rest where "s' = bridge_take pts bw (s\<lparr>sy_channel := rest\<rparr>)"
    using assms(4) by (auto split: bridge_phase.splits list.splits)
  then show ?thesis
    using state_inv_bridge_take [OF state_inv_frame [OF assms(1), of "s\<lparr>sy_channel := rest\<rparr>"] assms(2)] by simp
next
  case (TaskEvent k e)
  with assms show ?thesis using state_inv_task [OF assms(1)] by simp
next
  case CtrlC
  then show ?thesis using assms(1,4) by (auto simp: state_inv_stop split: if_splits)
next
  case DriverStopped
  then show ?thesis using assms(1,4)
    by (auto simp: state_inv_stop state_inv_driver_stopped split: main_phase.splits option.splits)
qed (use assms(1,4) in \<open>auto simp: client_done_def bridge_confirm_def state_inv_frame split: if_splits server_phase.splits
    bridge_phase.splits option.splits\<close>)

end

section \<open>Confirmations are true\<close>

lemma confirm_inv_frame:
  assumes "confirm_inv accepts s" and "sy_confirms s' = sy_confirms s" and "sy_handled s' = sy_handled s"
    and "queues s' = queues s" and "\<And>bw tx. sy_bridge s' = BridgeAwaiting bw tx \<Longrightarrow> sy_bridge s = BridgeAwaiting bw tx"
  shows "confirm_inv accepts s'"
  using assms(1,2,3,5) known_requests_cong [OF assms(4,3)] unfolding confirm_inv_def by simp

lemma channel_invD:
  assumes "channel_inv accepts s"
  shows "bw \<in> pending_writes s \<Longrightarrow> bw_reply bw = Some tx \<Longrightarrow> tx < sy_next s"
    and "(tx, res) \<in> set (sy_bridge_replies s) \<Longrightarrow> tx < sy_next s"
    and "sy_server s = AwaitingReply bw \<Longrightarrow> bw' \<in> pending_writes s \<Longrightarrow> bw_reply bw' = bw_reply bw \<Longrightarrow> bw' = bw"
    and "sy_server s = AwaitingReply bw \<Longrightarrow> bw_reply bw = Some tx \<Longrightarrow> (tx, Inr ()) \<in> set (sy_bridge_replies s)
      \<Longrightarrow> performed accepts s bw"
    and "WriteAnswer bw (Inr ()) \<in> set (sy_answers s) \<Longrightarrow> bw_reply bw \<noteq> None \<Longrightarrow> performed accepts s bw"
  using assms unfolding channel_inv_def by blast+

lemma channel_invI:
  assumes "\<And>bw tx. bw \<in> pending_writes s \<Longrightarrow> bw_reply bw = Some tx \<Longrightarrow> tx < sy_next s"
    and "\<And>tx res. (tx, res) \<in> set (sy_bridge_replies s) \<Longrightarrow> tx < sy_next s"
    and "\<And>bw bw'. sy_server s = AwaitingReply bw \<Longrightarrow> bw' \<in> pending_writes s \<Longrightarrow> bw_reply bw' = bw_reply bw \<Longrightarrow> bw' = bw"
    and "\<And>bw tx. sy_server s = AwaitingReply bw \<Longrightarrow> bw_reply bw = Some tx \<Longrightarrow> (tx, Inr ()) \<in> set (sy_bridge_replies s)
      \<Longrightarrow> performed accepts s bw"
    and "\<And>bw. WriteAnswer bw (Inr ()) \<in> set (sy_answers s) \<Longrightarrow> bw_reply bw \<noteq> None \<Longrightarrow> performed accepts s bw"
  shows "channel_inv accepts s"
  using assms unfolding channel_inv_def by blast

lemma channel_inv_frame:
  assumes "channel_inv accepts s" and "pending_writes s' \<subseteq> pending_writes s" and "sy_next s \<le> sy_next s'"
    and "sy_bridge_replies s' = sy_bridge_replies s" and "\<And>bw. sy_server s' = AwaitingReply bw \<Longrightarrow> sy_server s = AwaitingReply bw"
    and "\<And>bw. WriteAnswer bw (Inr ()) \<in> set (sy_answers s') \<Longrightarrow> bw_reply bw \<noteq> None
      \<Longrightarrow> WriteAnswer bw (Inr ()) \<in> set (sy_answers s) \<or> performed accepts s bw"
    and "set (sy_handled s) \<subseteq> set (sy_handled s')"
  shows "channel_inv accepts s'"
proof -
  note inv = channel_invD [OF assms(1)]
  have p: "performed accepts s bw \<Longrightarrow> performed accepts s' bw" for bw using assms(7) by (rule performed_mono [rotated])
  show ?thesis
  proof (rule channel_invI)
    fix bw tx assume "bw \<in> pending_writes s'" "bw_reply bw = Some tx"
    then show "tx < sy_next s'" using inv(1) assms(2,3) by (blast intro: order_less_le_trans)
  next
    fix tx res assume "(tx, res) \<in> set (sy_bridge_replies s')"
    then show "tx < sy_next s'" using inv(2) assms(3,4) by (metis order_less_le_trans)
  next
    fix bw bw' assume "sy_server s' = AwaitingReply bw" "bw' \<in> pending_writes s'" "bw_reply bw' = bw_reply bw"
    then show "bw' = bw" using inv(3) assms(2,5) by blast
  next
    fix bw tx assume "sy_server s' = AwaitingReply bw" "bw_reply bw = Some tx" "(tx, Inr ()) \<in> set (sy_bridge_replies s')"
    then show "performed accepts s' bw" using inv(4) assms(4,5) p by metis
  next
    fix bw assume "WriteAnswer bw (Inr ()) \<in> set (sy_answers s')" "bw_reply bw \<noteq> None"
    then show "performed accepts s' bw" using inv(5) assms(6) p by blast
  qed
qed

lemma client_write_inv:
  assumes "channel_inv accepts s" and "sy_server s = ServerLoop"
  shows "channel_inv accepts (client_write pts src written s)"
proof (cases rule: client_write_cases [of pts src written s])
  case (refused res)
  then show ?thesis by (intro channel_inv_frame [OF assms(1)]) (auto simp: pending_writes_def)
next
  case (queued bw)
  then show ?thesis using channel_invD [OF assms(1)] assms(2)
    by (intro channel_invI) (auto simp: pending_writes_def performed_def)
next
  case (waits bw)
  note inv = channel_invD [OF assms(1)]
  let ?s = "s\<lparr>sy_channel := sy_channel s @ [bw], sy_server := AwaitingReply bw, sy_next := Suc (sy_next s)\<rparr>"
  have pend: "bw' \<in> pending_writes ?s \<Longrightarrow> bw' = bw \<or> bw' \<in> pending_writes s" for bw' by (auto simp: pending_writes_def)
  have "channel_inv accepts ?s"
  proof (rule channel_invI)
    fix bw' tx assume "bw' \<in> pending_writes ?s" "bw_reply bw' = Some tx"
    then show "tx < sy_next ?s" using pend inv(1) waits(1) less_SucI by fastforce
  next
    fix bw0 bw' assume "sy_server ?s = AwaitingReply bw0" "bw' \<in> pending_writes ?s" "bw_reply bw' = bw_reply bw0"
    then show "bw' = bw0" using pend [of bw'] inv(1) [of bw' "sy_next s"] waits(1) by auto
  next
    fix bw0 tx assume "sy_server ?s = AwaitingReply bw0" "bw_reply bw0 = Some tx" "(tx, Inr ()) \<in> set (sy_bridge_replies ?s)"
    then show "performed accepts ?s bw0" using inv(2) [of tx "Inr ()"] waits(1) by auto
  next
    fix bw0 assume "WriteAnswer bw0 (Inr ()) \<in> set (sy_answers ?s)" "bw_reply bw0 \<noteq> None"
    then show "performed accepts ?s bw0" using inv(5) [of bw0] by (simp add: performed_def)
  qed (use inv(2) less_SucI in fastforce)
  with waits(2) show ?thesis by simp
qed

text \<open>The bridge answers: an \<open>Ok\<close> is for a write that was performed.\<close>

lemma bridge_reply_inv:
  assumes "channel_inv accepts s" and "bw \<in> pending_writes s" and "res = Inr () \<Longrightarrow> performed accepts s bw"
    and "pending_writes s' \<subseteq> pending_writes s" and "sy_next s' = sy_next s" and "sy_server s' = sy_server s"
    and "sy_bridge_replies s' = sy_bridge_replies s @ bridge_answer bw res" and "sy_answers s' = sy_answers s"
    and "sy_handled s' = sy_handled s"
  shows "channel_inv accepts s'"
proof -
  note inv = channel_invD [OF assms(1)]
  have p: "performed accepts s' = performed accepts s" using assms(9) by (simp add: performed_def fun_eq_iff)
  have fresh: "bw_reply bw = Some tx \<and> (r = Inr () \<longrightarrow> res = Inr ())" if "(tx, r) \<in> set (bridge_answer bw res)" for tx r
    using that by (auto simp: bridge_answer_def split: option.splits sum.splits)
  show ?thesis
  proof (rule channel_invI)
    fix bw' tx assume "bw' \<in> pending_writes s'" "bw_reply bw' = Some tx"
    then show "tx < sy_next s'" using inv(1) assms(4,5) by auto
  next
    fix tx r assume "(tx, r) \<in> set (sy_bridge_replies s')"
    then show "tx < sy_next s'" using inv(1) [OF assms(2)] inv(2) [of tx r] fresh [of tx r] assms(5,7) by auto
  next
    fix bw0 bw' assume "sy_server s' = AwaitingReply bw0" "bw' \<in> pending_writes s'" "bw_reply bw' = bw_reply bw0"
    then show "bw' = bw0" using inv(3) assms(4,6) by auto
  next
    fix bw0 tx assume a: "sy_server s' = AwaitingReply bw0" "bw_reply bw0 = Some tx" "(tx, Inr ()) \<in> set (sy_bridge_replies s')"
    show "performed accepts s' bw0"
    proof (cases "(tx, Inr ()) \<in> set (sy_bridge_replies s)")
      case True
      then show ?thesis using inv(4) a assms(6) p by simp
    next
      case False
      then have "(tx, Inr ()) \<in> set (bridge_answer bw res)" using a(3) assms(7) by simp
      from fresh [OF this] have "bw_reply bw = Some tx" "res = Inr ()" by simp_all
      moreover from this a assms(2,6) have "bw = bw0" using inv(3) by simp
      ultimately show ?thesis using assms(3) p by simp
    qed
  next
    fix bw0 assume "WriteAnswer bw0 (Inr ()) \<in> set (sy_answers s')" "bw_reply bw0 \<noteq> None"
    then show "performed accepts s' bw0" using inv(5) assms(8) p by simp
  qed
qed

lemma Union_set_update: "\<Union> (set ` set (qs[k := q])) \<subseteq> set q \<union> \<Union> (set ` set qs)"
  using set_update_subset_insert [of qs k q] by fastforce

lemma nth_Union_set: "k < length qs \<Longrightarrow> set (qs ! k) \<subseteq> \<Union> (set ` set qs)"
  using nth_mem by blast

lemma confirm_invD:
  assumes "confirm_inv accepts s"
  shows "(tx, Inr ()) \<in> set (sy_confirms s) \<Longrightarrow>
      \<exists>k req x. (k, req, x) \<in> set (sy_handled s) \<and> wr_reply req = Some tx \<and> accepts x req"
    and "sy_bridge s = BridgeAwaiting bw tx \<Longrightarrow> req \<in> known_requests s \<Longrightarrow> wr_reply req = Some tx \<Longrightarrow>
      wr_tag_id req = bw_tag_id bw \<and> wr_value req = bw_value bw"
  using assms unfolding confirm_inv_def by blast+

lemma confirm_inv_bridge_take:
  assumes "state_inv ops h r C s" and "confirm_inv accepts s" and "sy_bridge s = BridgeListening"
  shows "confirm_inv accepts (bridge_take pts bw s)"
proof (cases rule: bridge_take_cases [of pts bw s])
  case (failed e)
  then show ?thesis by (auto intro!: confirm_inv_frame [OF assms(2)])
next
  case (sent sender req)
  let ?s = "s\<lparr>sy_tasks := enqueue (sender_queue sender) req (sy_tasks s),
    sy_bridge := BridgeAwaiting bw (sy_next s), sy_next := Suc (sy_next s)\<rparr>"
  have "queues ?s = (queues s)[sender_queue sender := queues s ! sender_queue sender @ [req]]"
    using queues_enqueue [OF sent(2)] by simp
  then have "\<Union> (set ` set (queues ?s)) \<subseteq> insert req (\<Union> (set ` set (queues s)))"
    using Union_set_update [of "queues s" "sender_queue sender" "queues s ! sender_queue sender @ [req]"]
      nth_Union_set [of "sender_queue sender" "queues s"] sent(2) by auto
  from Un_mono [OF this order_refl, of "(\<lambda>(k, req, x). req) ` set (sy_handled s)"]
  have "known_requests ?s \<subseteq> insert req (known_requests s)" by (simp add: known_requests_def)
  then have "wr_tag_id req' = bw_tag_id bw \<and> wr_value req' = bw_value bw"
    if "req' \<in> known_requests ?s" "wr_reply req' = Some (sy_next s)" for req'
    using that sent(5) known_requests_reply [OF assms(1), of req' "sy_next s"] by auto
  moreover have "\<exists>(k, req, x) \<in> set (sy_handled ?s). wr_reply req = Some tx \<and> accepts x req"
    if "(tx, Inr ()) \<in> set (sy_confirms ?s)" for tx
    using confirm_invD(1) [OF assms(2), of tx] that by fastforce
  ultimately show ?thesis unfolding sent(6) confirm_inv_def by simp
qed

lemma channel_inv_bridge_take:
  assumes "channel_inv accepts s" and "sy_bridge s = BridgeListening" and "sy_channel s = bw # rest"
  shows "channel_inv accepts (bridge_take pts bw (s\<lparr>sy_channel := rest\<rparr>))"
proof (cases rule: bridge_take_cases [of pts bw "s\<lparr>sy_channel := rest\<rparr>"])
  case (failed e)
  have "bw \<in> pending_writes s" using assms(3) by (simp add: pending_writes_def)
  then show ?thesis unfolding failed using assms(2,3)
    by (intro bridge_reply_inv [OF assms(1), of bw "Inl e"]) (auto simp: pending_writes_def)
next
  case (sent sender req)
  then show ?thesis using assms(2,3) by (intro channel_inv_frame [OF assms(1)]) (auto simp: pending_writes_def)
qed

lemma bridge_confirm_inv:
  assumes "confirm_inv accepts s" and "channel_inv accepts s" and "sy_bridge s = BridgeAwaiting bw tx"
    and "confirm = Answered (Inr ()) \<Longrightarrow> (tx, Inr ()) \<in> set (sy_confirms s)"
  shows "confirm_inv accepts (bridge_confirm bw confirm s)" and "channel_inv accepts (bridge_confirm bw confirm s)"
proof -
  show "confirm_inv accepts (bridge_confirm bw confirm s)"
    by (rule confirm_inv_frame [OF assms(1)]) (simp_all add: bridge_confirm_def)
  have "performed accepts s bw" if "rt_await_confirm confirm = Inr ()"
  proof -
    have "(tx, Inr ()) \<in> set (sy_confirms s)" using that assms(4) by (simp add: rt_await_confirm_iff)
    from confirm_invD(1) [OF assms(1) this] obtain k req x where
      h: "(k, req, x) \<in> set (sy_handled s)" "wr_reply req = Some tx" "accepts x req" by blast
    then have "req \<in> known_requests s" by (force simp: known_requests_def)
    from confirm_invD(2) [OF assms(1,3) this h(2)] h show ?thesis by (auto simp: performed_def)
  qed
  then show "channel_inv accepts (bridge_confirm bw confirm s)"
    by (rule bridge_reply_inv [OF assms(2), of bw "rt_await_confirm confirm", rotated])
      (auto simp: bridge_confirm_def pending_writes_def assms(3))
qed

context task_driver
begin

lemma reply_inv_task:
  assumes "confirm_inv accepts s" and "channel_inv accepts s" and "step_task ops k ev s = Some s'"
  shows "confirm_inv accepts s'" and "channel_inv accepts s'"
proof -
  obtain st st' t' r' cs hs where k: "k < length (sy_tasks s)"
    and "rd_task (pt_driver (sy_tasks s ! k)) = Some st" "rd_task (pt_driver t') = Some st'"
    and s': "s' = s\<lparr>sy_registry := r', sy_tasks := (sy_tasks s)[k := t'], sy_confirms := sy_confirms s @ cs,
      sy_handled := sy_handled s @ hs\<rparr>"
    and "reg_step\<^sup>*\<^sup>* (sy_registry s) r'" "ph_config ops (po_driver st') = ph_config ops (po_driver st)"
    and q: "cs = [] \<and> hs = [] \<and> pt_queue t' = pt_queue (sy_tasks s ! k)
      \<or> (\<exists>req x. pt_queue (sy_tasks s ! k) = req # pt_queue t' \<and> hs = [(k, req, x)]
          \<and> ph_config ops x = ph_config ops (po_driver st)
          \<and> (\<forall>tx. (tx, Inr ()) \<in> set cs \<longrightarrow> wr_reply req = Some tx \<and> accepts x req))"
    using assms(3) by (rule step_task_cases)
  have sub: "set (pt_queue t') \<subseteq> set (pt_queue (sy_tasks s ! k))" using q by auto
  have "(\<lambda>(k, req, x). req) ` set hs \<subseteq> set (pt_queue (sy_tasks s ! k))" using q by auto
  moreover have qk: "set (pt_queue (sy_tasks s ! k)) \<subseteq> \<Union> (set ` set (queues s))"
    using nth_Union_set [of k "queues s"] k by simp
  moreover have "\<Union> (set ` set (queues s')) \<subseteq> set (pt_queue t') \<union> \<Union> (set ` set (queues s))"
    using Union_set_update [of "queues s" k "pt_queue t'"] unfolding s' by (simp add: queues_update(1))
  ultimately have "\<Union> (set ` set (queues s')) \<subseteq> \<Union> (set ` set (queues s))"
    and "(\<lambda>(k, req, x). req) ` set hs \<subseteq> \<Union> (set ` set (queues s))"
    using sub by (meson Un_least order_refl order_trans)+
  from Un_mono [OF Un_mono [OF this] order_refl, of "(\<lambda>(k, req, x). req) ` set (sy_handled s)"]
  have known: "known_requests s' \<subseteq> known_requests s"
    unfolding known_requests_def by (simp add: s' image_Un Un_ac)
  have "\<exists>(k, req, x) \<in> set (sy_handled s'). wr_reply req = Some tx \<and> accepts x req"
    if "(tx, Inr ()) \<in> set (sy_confirms s')" for tx
    using that confirm_invD(1) [OF assms(1), of tx] q by (fastforce simp: s')
  moreover have "wr_tag_id req = bw_tag_id bw \<and> wr_value req = bw_value bw"
    if "sy_bridge s' = BridgeAwaiting bw tx" "req \<in> known_requests s'" "wr_reply req = Some tx" for bw tx req
    using confirm_invD(2) [OF assms(1), of bw tx req] that known by (auto simp: s')
  ultimately show "confirm_inv accepts s'" unfolding confirm_inv_def by blast
  show "channel_inv accepts s'"
    by (rule channel_inv_frame [OF assms(2)]) (auto simp: s' pending_writes_def)
qed

lemma reply_inv_step:
  assumes "state_inv ops h r C s" and "confirm_inv accepts s" and "channel_inv accepts s"
    and "sv_ops pts = ops" and "sys_step pts ev s = Some s'"
  shows "confirm_inv accepts s' \<and> channel_inv accepts s'"
proof (cases ev)
  case (ClientWrite src written)
  then have c: "s' = client_write pts src written s" "sy_server s = ServerLoop" using assms(5) by (auto split: if_splits)
  have "confirm_inv accepts s'" unfolding c
    by (cases rule: client_write_cases [of pts src written s]) (auto intro!: confirm_inv_frame [OF assms(2)])
  then show ?thesis using client_write_inv [OF assms(3) c(2)] c(1) by simp
next
  case ClientReply
  then obtain bw tx r where c: "sy_server s = AwaitingReply bw" "bw_reply bw = Some tx"
      "map_of (sy_bridge_replies s) tx = Some r" "s' = client_done bw (recv_outcome.Received r) s"
    using assms(5) by (auto split: server_phase.splits option.splits bind_splits)
  have "r = Inr () \<Longrightarrow> performed accepts s bw"
    using channel_invD(4) [OF assms(3) c(1,2)] map_of_SomeD [OF c(3)] by simp
  then have "channel_inv accepts s'" unfolding c
    by (intro channel_inv_frame [OF assms(3)]) (auto simp: client_done_def pending_writes_def source_await_def split: sum.splits)
  then show ?thesis unfolding c by (auto simp: client_done_def intro!: confirm_inv_frame [OF assms(2)])
next
  case ClientTimeout
  then obtain bw where c: "s' = client_done bw RecvTimeout s" using assms(5) by (auto split: server_phase.splits)
  have "channel_inv accepts s'" unfolding c
    by (rule channel_inv_frame [OF assms(3)]) (auto simp: client_done_def pending_writes_def source_await_def)
  then show ?thesis unfolding c by (auto simp: client_done_def intro!: confirm_inv_frame [OF assms(2)])
next
  case BridgeTake
  then obtain bw rest where b: "sy_bridge s = BridgeListening" "sy_channel s = bw # rest"
      "s' = bridge_take pts bw (s\<lparr>sy_channel := rest\<rparr>)"
    using assms(5) by (auto split: bridge_phase.splits list.splits)
  let ?s = "s\<lparr>sy_channel := rest\<rparr>"
  have "state_inv ops h r C ?s" "confirm_inv accepts ?s"
    using b by (auto intro!: state_inv_frame [OF assms(1)] confirm_inv_frame [OF assms(2)])
  from confirm_inv_bridge_take [OF this, of pts bw] channel_inv_bridge_take [OF assms(3) b(1,2), of pts] b show ?thesis by simp
next
  case BridgeConfirm
  then obtain bw tx c where b: "sy_bridge s = BridgeAwaiting bw tx" "map_of (sy_confirms s) tx = Some c"
      "s' = bridge_confirm bw (Answered c) s"
    using assms(5) by (auto split: bridge_phase.splits option.splits)
  have "Answered c = Answered (Inr ()) \<Longrightarrow> (tx, Inr ()) \<in> set (sy_confirms s)" using map_of_SomeD [OF b(2)] by simp
  then show ?thesis unfolding b(3) by (intro conjI bridge_confirm_inv [OF assms(2,3) b(1)])
next
  case BridgeTimeout
  then show ?thesis using assms(5) bridge_confirm_inv [OF assms(2,3)] by (auto split: bridge_phase.splits)
next
  case (TaskEvent k e)
  then show ?thesis using assms(4,5) reply_inv_task [OF assms(2,3)] by simp
next
  case DriverStopped
  then obtain k rd where "s' = stop_from (Suc k) (s\<lparr>sy_tasks := (sy_tasks s)[k := (sy_tasks s ! k)\<lparr>pt_driver := rd\<rparr>]\<rparr>)"
    using assms(5) by (auto split: main_phase.splits option.splits)
  then show ?thesis
    using confirm_inv_frame [OF assms(2), of s'] channel_inv_frame [OF assms(3), of s']
    by (simp add: queues_update(2) pending_writes_def)
qed (use assms(5) in \<open>auto simp: pending_writes_def split: if_splits intro!: confirm_inv_frame [OF assms(2)]
    channel_inv_frame [OF assms(3)]\<close>)

end

context task_driver
begin

lemma reach_inv:
  assumes "sys_reach pts s0 s" and "sv_ops pts = ops" and "reg_wf r" and "state_inv ops (sv_handler pts) r C s0"
    and "confirm_inv accepts s0" and "channel_inv accepts s0"
  shows "state_inv ops (sv_handler pts) r C s \<and> confirm_inv accepts s \<and> channel_inv accepts s"
  using assms(1)
proof (induction rule: sys_reach.induct)
  case (step s ev s')
  then show ?case
    using state_inv_step [OF _ assms(3,2)] reply_inv_step [OF _ _ _ assms(2)] by blast
qed (use assms in simp)

end

end
