(* ===== verification/Bridge_Run.thy ===== *)
theory Bridge_Run
  imports Bridge_System
begin

text \<open>
  The running bridge from its start to its end: what holds in every state that a bridge started by \<open>main\<close>
  can reach, and how its shutdown goes.
\<close>

section \<open>The bridge from its start\<close>

lemma dyn_config_boot [simp]: "dyn_config (boot r e drv) = drv"
  by (cases drv) (simp_all add: boot_def dyn_config_def)

lemma system_of_sel [simp]:
  "length (sy_tasks (system_of br es)) = length (br_drivers br)"
  "k < length (br_drivers br) \<Longrightarrow> sy_tasks (system_of br es) ! k =
     \<lparr>pt_driver = boot_driver (br_registry br) (es k) (br_drivers br ! k), pt_at = None, pt_queue = []\<rparr>"
  by (simp_all add: system_of_def nth_enumerate_eq)

lemma system_of_inv:
  "state_inv (dyn_ops net) h (br_registry br) (\<lambda>k. driver_of (br_drivers br ! k)) (system_of br es)"
  "confirm_inv accepts (system_of br es)" "channel_inv accepts (system_of br es)"
proof -
  show "state_inv (dyn_ops net) h (br_registry br) (\<lambda>k. driver_of (br_drivers br ! k)) (system_of br es)"
    by (auto simp: state_inv_def task_ok_def boot_driver_def driver_of_def) (simp_all add: system_of_def)
qed (simp_all add: confirm_inv_def channel_inv_def pending_writes_def system_of_def)

lemma parts_of_sel [simp]:
  "sv_ops (parts_of ua net br) = dyn_ops net" "sv_handler (parts_of ua net br) = br_handler br"
  "sv_ua (parts_of ua net br) = ua" "sv_crates (parts_of ua net br) = nt_crates net"
  by (simp_all add: parts_of_def)

lemma running_inv:
  assumes "main_run env be clk cfg e = Value (Inr br)" and "sys_reach (parts_of ua net br) (system_of br es) s"
  shows "state_inv (dyn_ops net) (br_handler br) (br_registry br) (\<lambda>k. driver_of (br_drivers br ! k)) s"
    and "channel_inv (plc_accepts net) s"
  using dyn.reach_inv [OF assms(2) _ main_run_setup(1) [OF assms(1)]] system_of_inv by fastforce+

section \<open>Shutdown\<close>

text \<open>\<open>main\<close> stops the drivers before the server: when it has come to the server, no task is left; and the bridge
  thread ends after the server loop.\<close>

definition stopped_inv :: "'s bridge_system \<Rightarrow> bool" where
  "stopped_inv s \<longleftrightarrow>
     (\<forall>k. sy_main s = StoppingDriver k \<longrightarrow> (\<forall>j < k. rd_task (pt_driver (sy_tasks s ! j)) = None) \<and> k < length (sy_tasks s))
     \<and> (sy_main s = StoppingServer \<or> sy_main s = Finished \<longrightarrow>
          (\<forall>j < length (sy_tasks s). rd_task (pt_driver (sy_tasks s ! j)) = None))
     \<and> (sy_bridge s = BridgeEnded \<longrightarrow> sy_server s = ServerStopped)"

lemma stopped_inv_frame:
  assumes "stopped_inv s" and "sy_main s' = sy_main s" and "length (sy_tasks s') = length (sy_tasks s)"
    and "\<And>j. j < length (sy_tasks s) \<Longrightarrow> rd_task (pt_driver (sy_tasks s ! j)) = None \<Longrightarrow> rd_task (pt_driver (sy_tasks s' ! j)) = None"
    and "sy_bridge s' = BridgeEnded \<Longrightarrow> sy_server s' = ServerStopped"
  shows "stopped_inv s'"
proof -
  have "rd_task (pt_driver (sy_tasks s' ! j)) = None" if "sy_main s = StoppingDriver k" "j < k" for j k
    using assms(1,4) that unfolding stopped_inv_def by auto
  moreover have "rd_task (pt_driver (sy_tasks s' ! j)) = None"
    if "sy_main s = StoppingServer \<or> sy_main s = Finished" "j < length (sy_tasks s)" for j
    using assms(1,4) that unfolding stopped_inv_def by auto
  ultimately show ?thesis using assms(1-3,5) unfolding stopped_inv_def by simp
qed

lemma stopped_inv_stop:
  assumes "\<forall>j < k. rd_task (pt_driver (sy_tasks s ! j)) = None" and "k \<le> length (sy_tasks s)"
    and "sy_bridge s = BridgeEnded \<longrightarrow> sy_server s = ServerStopped"
  shows "stopped_inv (stop_from k s)"
  using assms unfolding stopped_inv_def stop_from_def by (auto simp: nth_list_update)

context task_driver
begin

lemma stopped_inv_step:
  assumes "stopped_inv s" and "sv_ops pts = ops" and "sys_step pts ev s = Some s'"
  shows "stopped_inv s'"
proof (cases ev)
  case (ClientWrite src written)
  then have c: "s' = client_write pts src written s" "sy_server s = ServerLoop" using assms(3) by (auto split: if_splits)
  have "sy_bridge s \<noteq> BridgeEnded" using c(2) assms(1) by (auto simp: stopped_inv_def)
  then show ?thesis unfolding c(1)
    by (cases rule: client_write_cases [of pts src written s]) (auto intro!: stopped_inv_frame [OF assms(1)])
next
  case BridgeTake
  then obtain bw rest where b: "sy_bridge s = BridgeListening" "s' = bridge_take pts bw (s\<lparr>sy_channel := rest\<rparr>)"
    using assms(3) by (auto split: bridge_phase.splits list.splits)
  show ?thesis unfolding b(2)
  proof (cases rule: bridge_take_cases [of pts bw "s\<lparr>sy_channel := rest\<rparr>"])
    case (sent sender req)
    then show "stopped_inv (bridge_take pts bw (s\<lparr>sy_channel := rest\<rparr>))"
      by (auto simp: enqueue_def nth_list_update intro!: stopped_inv_frame [OF assms(1)])
  qed (use b(1) in \<open>auto intro!: stopped_inv_frame [OF assms(1)]\<close>)
next
  case (TaskEvent k e)
  then have t: "step_task ops k e s = Some s'" using assms(2,3) by simp
  then obtain st st' t' r' cs hs where "k < length (sy_tasks s)"
      "rd_task (pt_driver (sy_tasks s ! k)) = Some st" "rd_task (pt_driver t') = Some st'"
      "s' = s\<lparr>sy_registry := r', sy_tasks := (sy_tasks s)[k := t'], sy_confirms := sy_confirms s @ cs,
        sy_handled := sy_handled s @ hs\<rparr>"
    by (rule step_task_cases)
  then show ?thesis using assms(1)
    by (intro stopped_inv_frame [OF assms(1)]) (auto simp: nth_list_update stopped_inv_def)
next
  case CtrlC
  then show ?thesis using assms(1,3) stopped_inv_stop [of 0 s] by (auto simp: stopped_inv_def split: if_splits)
next
  case DriverStopped
  then obtain k rd where k: "sy_main s = StoppingDriver k" "rd_stop_returns (pt_driver (sy_tasks s ! k)) = Some rd"
      "s' = stop_from (Suc k) (s\<lparr>sy_tasks := (sy_tasks s)[k := (sy_tasks s ! k)\<lparr>pt_driver := rd\<rparr>]\<rparr>)"
    using assms(3) by (auto split: main_phase.splits option.splits)
  have "rd_task rd = None" using k(2) by (auto simp: rd_stop_returns_def split: option.splits if_splits)
  moreover have "k < length (sy_tasks s)" "\<forall>j < k. rd_task (pt_driver (sy_tasks s ! j)) = None"
    "sy_bridge s = BridgeEnded \<longrightarrow> sy_server s = ServerStopped"
    using assms(1) k(1) by (auto simp: stopped_inv_def)
  ultimately show ?thesis unfolding k(3) by (intro stopped_inv_stop) (auto simp: nth_list_update less_Suc_eq)
qed (use assms(1,3) in \<open>auto simp: client_done_def bridge_confirm_def stopped_inv_def split: if_splits server_phase.splits
    bridge_phase.splits option.splits\<close>)

lemma stopped_inv_reach: "sys_reach pts s0 s \<Longrightarrow> sv_ops pts = ops \<Longrightarrow> stopped_inv s0 \<Longrightarrow> stopped_inv s"
  by (induction rule: sys_reach.induct) (auto intro: stopped_inv_step)

text \<open>With no task left, nothing is written and nothing is read any more.\<close>

lemma tasks_gone_step:
  assumes "stopped_inv s" and "sy_main s = StoppingServer \<or> sy_main s = Finished" and "sv_ops pts = ops"
    and "sys_step pts ev s = Some s'"
  shows "sy_handled s' = sy_handled s \<and> sy_registry s' = sy_registry s \<and> (sy_main s' = StoppingServer \<or> sy_main s' = Finished)"
proof -
  have none: "step_task ops k e s = None" for k e
  proof (rule ccontr)
    assume "step_task ops k e s \<noteq> None"
    then obtain s1 where "step_task ops k e s = Some s1" by blast
    then show False using assms(1,2) by (auto simp: stopped_inv_def elim!: step_task_cases)
  qed
  show ?thesis
  proof (cases ev)
    case (ClientWrite src written)
    then have "s' = client_write pts src written s" using assms(4) by (auto split: if_splits)
    then show ?thesis using assms(2) by (cases rule: client_write_cases [of pts src written s]) auto
  next
    case BridgeTake
    then obtain bw rest where "s' = bridge_take pts bw (s\<lparr>sy_channel := rest\<rparr>)"
      using assms(4) by (auto split: bridge_phase.splits list.splits)
    then show ?thesis using assms(2) by (cases rule: bridge_take_cases [of pts bw "s\<lparr>sy_channel := rest\<rparr>"]) auto
  qed (use assms none in \<open>auto simp: client_done_def bridge_confirm_def split: if_splits server_phase.splits
      bridge_phase.splits option.splits main_phase.splits\<close>)
qed

lemma tasks_gone_reach:
  assumes "sys_reach pts s s'" and "stopped_inv s" and "sy_main s = StoppingServer \<or> sy_main s = Finished" and "sv_ops pts = ops"
  shows "sy_handled s' = sy_handled s \<and> sy_registry s' = sy_registry s \<and> (sy_main s' = StoppingServer \<or> sy_main s' = Finished)"
  using assms(1)
proof (induction rule: sys_reach.induct)
  case (step s1 ev s2)
  then show ?case using tasks_gone_step [OF stopped_inv_reach [OF step(1) assms(4,2)]] assms(4) by metis
qed (use assms(3) in simp)

end

text \<open>The steps that are left when the server loop has stopped: two for every write in the bridge channel, unless the
  bridge thread is past looking at it, and those of the bridge thread and of \<open>main\<close>.\<close>

definition shutdown_work :: "'s bridge_system \<Rightarrow> nat" where
  "shutdown_work s =
     (case sy_bridge s of
        BridgeListening \<Rightarrow> 2 * length (sy_channel s) + 2
      | BridgeAwaiting _ _ \<Rightarrow> 2 * length (sy_channel s) + 3
      | BridgeChecking \<Rightarrow> 1
      | BridgeEnded \<Rightarrow> 0)
     + (if sy_main s = Finished then 0 else 1)"

definition winding_down :: "'s bridge_system \<Rightarrow> bool" where
  "winding_down s \<longleftrightarrow>
     stopped_inv s \<and> sy_server s = ServerStopped \<and> (sy_main s = StoppingServer \<or> sy_main s = Finished)
     \<and> (sy_main s = Finished \<longrightarrow> sy_bridge s = BridgeEnded)"

text \<open>The writes that the bridge thread has not taken when it leaves its loop.\<close>

definition left_behind :: "'s bridge_system \<Rightarrow> BridgeWrite list" where
  "left_behind s = (if sy_bridge s = BridgeChecking \<or> sy_bridge s = BridgeEnded then sy_channel s else [])"

fun run_system ::
  "('v, 'dt, 's, 'err) system_parts \<Rightarrow> 'v sys_event list \<Rightarrow> 's bridge_system \<Rightarrow> 's bridge_system option" where
  "run_system pts [] s = Some s"
| "run_system pts (ev # evs) s = Option.bind (sys_step pts ev s) (run_system pts evs)"

lemma run_system_append: "run_system pts (evs @ evs') s = Option.bind (run_system pts evs s) (run_system pts evs')"
  by (induction evs arbitrary: s) (simp_all split: bind_split)

lemma run_system_reach: "sys_reach pts s0 s \<Longrightarrow> run_system pts evs s = Some s' \<Longrightarrow> sys_reach pts s0 s'"
proof (induction evs arbitrary: s)
  case (Cons ev evs)
  then show ?case by (auto split: bind_splits intro: sys_reach.step)
qed simp

context task_driver
begin

lemma winding_down_step:
  assumes "winding_down s" and "sv_ops pts = ops" and "sys_step pts ev s = Some s'"
  shows "winding_down s' \<and> shutdown_work s' < shutdown_work s \<and> left_behind s' = left_behind s"
proof -
  have w: "stopped_inv s" "sy_server s = ServerStopped" "sy_main s = StoppingServer \<or> sy_main s = Finished"
    using assms(1) by (auto simp: winding_down_def)
  note gone = tasks_gone_step [OF w(1,3) assms(2,3)] and inv = stopped_inv_step [OF w(1) assms(2,3)]
  show ?thesis
  proof (cases ev)
    case BridgeTake
    then obtain bw rest where b: "sy_bridge s = BridgeListening" "sy_channel s = bw # rest"
        "s' = bridge_take pts bw (s\<lparr>sy_channel := rest\<rparr>)"
      using assms(3) by (auto split: bridge_phase.splits list.splits)
    then show ?thesis using assms(1) inv
      by (cases rule: bridge_take_cases [of pts bw "s\<lparr>sy_channel := rest\<rparr>"]) (auto simp: winding_down_def shutdown_work_def left_behind_def)
  next
    case (TaskEvent k e)
    then have "step_task ops k e s = Some s'" using assms(2,3) by simp
    then show ?thesis using w(1,3) by (auto simp: stopped_inv_def elim!: step_task_cases)
  qed (use assms(1,3) inv in \<open>auto simp: winding_down_def shutdown_work_def left_behind_def bridge_confirm_def
      split: if_splits server_phase.splits bridge_phase.splits option.splits main_phase.splits\<close>)
qed

lemma winding_down_progress:
  assumes "winding_down s" and "sy_main s \<noteq> Finished"
  shows "\<exists>ev s'. sys_step pts ev s = Some s'"
proof (cases "sy_bridge s")
  case BridgeListening
  then have "sys_step pts BridgeTake s \<noteq> None \<or> sys_step pts BridgeIdle s \<noteq> None"
    using assms by (cases "sy_channel s") (auto simp: winding_down_def)
  then show ?thesis by blast
next
  case (BridgeAwaiting bw tx)
  then have "sys_step pts BridgeTimeout s \<noteq> None" by simp
  then show ?thesis by blast
next
  case BridgeChecking
  then have "sys_step pts BridgeCheck s \<noteq> None" by simp
  then show ?thesis by blast
next
  case BridgeEnded
  then have "sys_step pts BridgeJoined s \<noteq> None" using assms by (auto simp: winding_down_def)
  then show ?thesis by blast
qed

lemma winding_down_run:
  assumes "winding_down s" and "sv_ops pts = ops" and "run_system pts evs s = Some s'"
  shows "winding_down s' \<and> length evs + shutdown_work s' \<le> shutdown_work s \<and> left_behind s' = left_behind s"
  using assms(1,3)
proof (induction evs arbitrary: s)
  case (Cons ev evs)
  then obtain s1 where s1: "sys_step pts ev s = Some s1" "run_system pts evs s1 = Some s'" by (auto split: bind_splits)
  from winding_down_step [OF Cons.prems(1) assms(2) s1(1)] Cons.IH [OF _ s1(2)] show ?case by auto
qed simp

lemma finished_is_final:
  assumes "winding_down s" and "sy_main s = Finished" and "sv_ops pts = ops"
  shows "sys_step pts ev s = None"
proof (rule ccontr)
  assume "sys_step pts ev s \<noteq> None"
  then obtain s' where "sys_step pts ev s = Some s'" by blast
  moreover have "shutdown_work s = 0" using assms(1,2) by (simp add: winding_down_def shutdown_work_def stopped_inv_def)
  ultimately show False using winding_down_step [OF assms(1,3)] by fastforce
qed

end

lemma system_of_stopped: "stopped_inv (system_of br es)"
  by (simp add: stopped_inv_def) (simp add: system_of_def)

section \<open>An example\<close>

abbreviation example_value :: TagValue where
  "example_value \<equiv> VFloat 0x3F800000"

abbreviation example_bridge_write :: BridgeWrite where
  "example_bridge_write \<equiv> \<lparr>bw_tag_id = ''t'', bw_value = example_value, bw_reply = Some 0\<rparr>"

abbreviation example_request :: WriteRequest where
  "example_request \<equiv> \<lparr>wr_tag_id = ''t'', wr_value = example_value, wr_reply = Some (Suc 0)\<rparr>"

abbreviation example_modbus_config :: ModbusConfig where
  "example_modbus_config \<equiv> modbus_config_of example_plc ''10.0.0.1:502''
     [ModbusMapping_new ''t'' 10 2 HoldingRegisters TFloat 0 True CDAB]"

lemma example_registers: "tagvalue_to_registers example_crates example_value = Inr [0x3F80, 0]"
  by code_simp

lemma example_handle:
  "\<exists>s'. handle_write (example_io (\<lambda>n. of_nat n)) example_crates example_modbus_config
      (drv_set_health_sender (ModbusDriver_new r e)) example_request = Next s' \<and> replies s' = [(Suc 0, Inr ())]"
proof -
  let ?s = "\<lparr>ds_registry = r, ds_conn = True, ds_health = True, ds_env = e, ds_out = []\<rparr>"
  have "handle_write (example_io (\<lambda>n. of_nat n)) example_crates example_modbus_config
      (drv_set_health_sender (ModbusDriver_new r e)) example_request
      = after_write (example_io (\<lambda>n. of_nat n)) example_modbus_config ?s example_request
          (ModbusMapping_new ''t'' 10 2 HoldingRegisters TFloat 0 True CDAB) (Resp ())"
    by (simp add: handle_write_def modbus_config_of_def ModbusMapping_new_def example_registers write_holding_def Let_def
        drv_set_health_sender_def ModbusDriver_new_def connect_with_backoff_def) (simp add: connect_loop.simps example_io_def)
  then show ?thesis
    by (simp add: after_write_def reply_simps) (simp add: replies_def reply_to_def List.map_filter_simps)
qed

text \<open>The task of the driver, with one request in its queue, treats it.\<close>

lemma example_task_writes:
  assumes "sy_tasks s = [t\<lparr>pt_queue := [example_request]\<rparr>]" and "sy_registry s = r" and "sy_confirms s = []"
    and "rd_task (pt_driver t) = Some \<lparr>po_phase = Idle, po_backoff = 0,
      po_driver = ModbusRun example_modbus_config (drv_set_health_sender (ModbusDriver_new r e)), po_sent = []\<rparr>"
  shows "\<exists>s'. run_system (parts_of ua example_net br) [TaskEvent 0 TaskTick, TaskEvent 0 TaskWrite] s = Some s'
    \<and> sy_confirms s' = [(Suc 0, Inr ())] \<and> sy_bridge s' = sy_bridge s \<and> sy_server s' = sy_server s
    \<and> sy_bridge_replies s' = sy_bridge_replies s \<and> sy_answers s' = sy_answers s"
proof -
  let ?cfg = example_modbus_config
  define x where "x = drv_set_health_sender (ModbusDriver_new r e)"
  have x: "x\<lparr>ds_registry := r\<rparr> = x" "ds_registry x = r" "replies x = []"
    by (simp_all add: x_def drv_set_health_sender_def ModbusDriver_new_def replies_def map_filter_simps)
  obtain x' where h: "handle_write (example_io (\<lambda>n. of_nat n)) example_crates ?cfg x example_request = Next x'"
      "replies x' = [(Suc 0, Inr ())]"
    using example_handle unfolding x_def by blast
  let ?st = "\<lambda>y. \<lparr>po_phase = InCycle, po_backoff = 0, po_driver = ModbusRun ?cfg y, po_sent = []\<rparr>"
  define t1 where "t1 = set_task (?st x) (Some (Draining 0)) (t\<lparr>pt_queue := [example_request]\<rparr>)"
  define t2 where "t2 = set_task (?st x') (Some (Draining 1)) (t\<lparr>pt_queue := []\<rparr>)"
  have w: "with_registry (dyn_ops example_net) r (t\<lparr>pt_queue := [example_request]\<rparr>) = t\<lparr>pt_queue := [example_request]\<rparr>"
    "with_registry (dyn_ops example_net) r t1 = t1"
    using assms(4) x(1) by (simp_all add: with_registry_def t1_def set_task_def dyn_put_registry_def flip: x_def)
  have 1: "sys_step (parts_of ua example_net br) (TaskEvent 0 TaskTick) s = Some (s\<lparr>sy_tasks := [t1]\<rparr>)"
    using assms x(2)
    by (simp add: step_task_def Let_def task_step_def w task_move_def dyn_begin_def task_stmt_def t1_def
        task_registry_def dyn_registry_def dyn_replies_def flip: x_def)
  have 2: "sys_step (parts_of ua example_net br) (TaskEvent 0 TaskWrite) (s\<lparr>sy_tasks := [t1]\<rparr>) =
      Some (s\<lparr>sy_registry := ds_registry x', sy_tasks := [t2], sy_confirms := [(1, Inr ())],
        sy_handled := sy_handled s @ [(0, example_request, ModbusRun ?cfg x)]\<rparr>)"
    using x h assms(2,3) w(2)
    by (simp add: step_task_def Let_def task_step_def task_move_def)
      (simp add: dyn_handle_def task_stmt_def t1_def t2_def task_registry_def dyn_registry_def dyn_replies_def
        example_net_def set_task_def)
  show ?thesis using 1 2 by (simp del: sys_step.simps)
qed

lemma example_task:
  assumes "br_drivers br = [started_driver example_plc example_modbus_plc]"
  shows "sy_tasks (system_of br es) = [\<lparr>pt_driver = boot_driver (br_registry br) (es 0) (started_driver example_plc example_modbus_plc),
    pt_at = None, pt_queue = []\<rparr>]"
  using assms by (simp add: system_of_def)

text \<open>A client's write, from the data source to the device and back.\<close>

lemma example_write:
  assumes "main_run env be clk cfg e = Value (Inr br)" and "br_opcua br = default_local"
    and "br_drivers br = [started_driver example_plc example_modbus_plc]"
    and "map_of (wh_routing (br_handler br)) = [''t'' \<mapsto> ModbusSender 0]"
    and "reg_def (br_registry br) ''t'' = Some d" and "td_writable d" and "td_data_type d = TFloat"
  shows "\<exists>evs s. run_system (parts_of example_ua example_net br) evs (system_of br es) = Some s
    \<and> WriteAnswer example_bridge_write (Inr ()) \<in> set (sy_answers s)"
proof -
  let ?pts = "parts_of example_ua example_net br" and ?r = "br_registry br" and ?init = "system_of br es"
  let ?asks = "ClientWrite (tag_source ConfirmedAck d) (Some (XFloat 0x3F800000))"
  note wf = main_run_setup(1) [OF assms(1)]
  have d: "td_id d = ''t''" "d \<in> set (reg_all_definitions_sorted ?r)"
    using definitions_listed [OF wf] assms(5) by blast+
  have src: "tag_source ConfirmedAck d \<in> set (sv_sources ?pts)"
    using d(2) assms(2) by (simp add: parts_of_def default_local_def)
  have s0: "sy_registry ?init = ?r" "sy_channel ?init = []" "sy_server ?init = ServerLoop" "sy_bridge ?init = BridgeListening"
    "sy_next ?init = 0" "sy_confirms ?init = []" "sy_bridge_replies ?init = []" "sy_answers ?init = []"
    by (simp_all add: system_of_def)
  have v: "variant_to_tagvalue example_ua example_crates (XFloat 0x3F800000) TFloat = Inr example_value"
    by (simp add: variant_to_tagvalue_def variant_scalar_def example_ua_def)
  define s1 where "s1 = ?init\<lparr>sy_channel := [example_bridge_write], sy_server := AwaitingReply example_bridge_write, sy_next := 1\<rparr>"
  have 1: "sys_step ?pts ?asks ?init = Some s1"
    using src s0 v assms(5,7) d(1)
    by (simp add: s1_def client_write_def source_write_def tag_source_def TagDataSource_new_def get_definition_def_map
        example_net_def)
  define t where "t = sy_tasks ?init ! 0"
  have t: "sy_tasks ?init = [t]" "pt_queue t = []" using example_task [OF assms(3), of es] by (simp_all add: t_def)
  have val: "rt_validate ?r ''t'' example_value = Inr ()" using assms(5-7) by (simp add: rt_validate_wf [OF wf])
  define s2 where "s2 = s1\<lparr>sy_channel := [], sy_tasks := [t\<lparr>pt_queue := [example_request]\<rparr>],
    sy_bridge := BridgeAwaiting example_bridge_write 1, sy_next := 2\<rparr>"
  have 2: "sys_step ?pts BridgeTake s1 = Some s2"
    using t s0 val assms(4)
    by (simp add: s1_def s2_def bridge_take_def send_result_def sender_queue_def rt_handle_write_def enqueue_def)
  have "rd_task (pt_driver t) = Some \<lparr>po_phase = Idle, po_backoff = 0,
      po_driver = ModbusRun example_modbus_config (drv_set_health_sender (ModbusDriver_new ?r (es 0))), po_sent = []\<rparr>"
    using assms(3) by (simp add: t_def boot_driver_def started_driver_def rd_start_def rd_set_health_sender_def
        RuntimeDriver_new_def boot_def)
  from example_task_writes [OF _ _ _ this, of s2 example_ua br] s0 obtain s3 where
    3: "run_system ?pts [TaskEvent 0 TaskTick, TaskEvent 0 TaskWrite] s2 = Some s3" "sy_confirms s3 = [(Suc 0, Inr ())]"
      "sy_bridge s3 = BridgeAwaiting example_bridge_write 1" "sy_server s3 = AwaitingReply example_bridge_write"
      "sy_bridge_replies s3 = []"
    by (auto simp: s2_def s1_def)
  have 4: "run_system ?pts [BridgeConfirm, ClientReply] s3 = Some (client_done example_bridge_write
      (recv_outcome.Received (Inr ())) (bridge_confirm example_bridge_write (Answered (Inr ())) s3))"
    using 3(2-5) by (simp add: bridge_confirm_def bridge_answer_def rt_await_confirm_def)
  have "run_system ?pts [?asks, BridgeTake, TaskEvent 0 TaskTick, TaskEvent 0 TaskWrite, BridgeConfirm, ClientReply] ?init
    = Some (client_done example_bridge_write (recv_outcome.Received (Inr ()))
        (bridge_confirm example_bridge_write (Answered (Inr ())) s3))"
    using 1 2 3(1) 4 by (auto simp del: sys_step.simps split: bind_splits)
  moreover have "WriteAnswer example_bridge_write (Inr ()) \<in> set (sy_answers (client_done example_bridge_write
      (recv_outcome.Received (Inr ())) (bridge_confirm example_bridge_write (Answered (Inr ())) s3)))"
    by (simp add: client_done_def source_await_def)
  ultimately show ?thesis by blast
qed

lemma example_shutdown:
  assumes "br_drivers br = [started_driver example_plc example_modbus_plc]"
  shows "\<exists>s. run_system (parts_of ua net br) [CtrlC, TaskEvent 0 TaskShutdown, DriverStopped] (system_of br es) = Some s
    \<and> sy_main s = StoppingServer \<and> sy_server s = ServerLoop \<and> sy_bridge s = BridgeListening \<and> sy_channel s = []"
  using example_task [OF assms, of es]
  by (simp add: stop_from_def step_task_def task_step_def task_move_def with_registry_def boot_driver_def
      started_driver_def rd_start_def rd_set_health_sender_def RuntimeDriver_new_def rd_request_stop_def Let_def
      rd_stop_returns_def set_task_def) (simp add: system_of_def)

lemma example_confirmed_bridge:
  obtains br d where "main_run example_env permissive_backend (\<lambda>_. 1) example_runtime_config 0 = Value (Inr br)"
    "br_opcua br = default_local" "br_drivers br = [started_driver example_plc example_modbus_plc]"
    "map_of (wh_routing (br_handler br)) = [''t'' \<mapsto> ModbusSender 0]"
    "reg_def (br_registry br) ''t'' = Some d" "td_writable d" "td_data_type d = TFloat"
proof -
  have "oc_security_mode default_local = SecNone" by (simp add: default_local_def)
  moreover have "example_runtime_config\<lparr>rc_opcua := example_rt_opcua\<rparr> = example_runtime_config"
    by (simp add: example_runtime_config_def)
  ultimately show thesis using example_bridge [OF example_opcua_config] that by metis
qed

text \<open>The same bridge in the queued mode.\<close>

definition queued_rt_opcua :: RtOpcUaConfig where
  "queued_rt_opcua = example_rt_opcua\<lparr>ro_write_mode := ''QueuedAck''\<rparr>"

lemma queued_opcua_config: "opcua_config_of queued_rt_opcua = Inr (default_local\<lparr>oc_write_mode := QueuedAck\<rparr>)"
proof -
  have "build_opcua_config queued_rt_opcua QueuedAck SecNone PolicyNone = default_local\<lparr>oc_write_mode := QueuedAck\<rparr>"
    by (simp add: build_opcua_config_def queued_rt_opcua_def example_rt_opcua_def default_local_def
        CertificateConfig_default_def default_min_key_length_def unwrap_or_def)
  moreover have "parse_write_mode (ro_write_mode queued_rt_opcua) = Inr QueuedAck"
    "parse_security_mode (ro_security_mode queued_rt_opcua) = Inr SecNone"
    "parse_security_policy (ro_security_policy queued_rt_opcua) = Inr PolicyNone"
    by (simp_all add: queued_rt_opcua_def example_rt_opcua_def parse_write_mode_def parse_security_mode_def
        parse_security_policy_def)
  moreover have "validate_opcua_config (default_local\<lparr>oc_write_mode := QueuedAck\<rparr>) = validate_opcua_config default_local"
    by (simp add: validate_opcua_config_def bind_socket_addr_def)
  ultimately show ?thesis by (simp add: opcua_config_of_def default_local_valid)
qed

section \<open>Properties\<close>

text \<open>C4: In every state that a started bridge can reach, in whatever order its threads act, the registry has the
  configured tags and every tag has a value of its configured type; the queue of a driver has at most 256
  requests, each for a writable tag whose route leads to this driver, with a value of the tag's type and
  a reply channel.\<close>

theorem running_bridge_stays_consistent:
  assumes "main_run env be clk cfg e = Value (Inr br)" and "sys_reach (parts_of ua net br) (system_of br es) s"
  shows "reg_wf (sy_registry s) \<and> reg_def (sy_registry s) = reg_def (br_registry br)
    \<and> (\<forall>tid d. reg_def (br_registry br) tid = Some d \<longrightarrow>
        (\<exists>t. reg_map (sy_registry s) tid = Some t \<and> data_type (tag_value t) = td_data_type d))
    \<and> (\<forall>k < length (sy_tasks s). length (pt_queue (sy_tasks s ! k)) \<le> 256
        \<and> (\<forall>req \<in> set (pt_queue (sy_tasks s ! k)). \<exists>sender d.
            map_of (wh_routing (br_handler br)) (wr_tag_id req) = Some sender \<and> sender_queue sender = k
            \<and> reg_def (br_registry br) (wr_tag_id req) = Some d \<and> td_writable d
            \<and> data_type (wr_value req) = td_data_type d \<and> wr_reply req \<noteq> None))"
proof -
  note inv = running_inv(1) [OF assms] and wf0 = main_run_setup(1) [OF assms(1)]
  then have steps: "reg_step\<^sup>*\<^sup>* (br_registry br) (sy_registry s)" by (simp add: state_inv_def)
  then have wf: "reg_wf (sy_registry s)" and defs: "reg_def (sy_registry s) = reg_def (br_registry br)"
    using reg_steps_wf wf0 reg_def_steps by blast+
  have "\<exists>t. reg_map (sy_registry s) tid = Some t \<and> data_type (tag_value t) = td_data_type d"
    if "reg_def (br_registry br) tid = Some d" for tid d
    using reg_wf_tag_type [OF wf, of tid d] that defs by auto
  moreover have "length (pt_queue (sy_tasks s ! k)) \<le> 256
        \<and> (\<forall>req \<in> set (pt_queue (sy_tasks s ! k)). request_ok (br_handler br) (br_registry br) (sy_next s) k req)"
    if "k < length (sy_tasks s)" for k
    using inv that by (simp add: state_inv_def task_ok_def)
  ultimately show ?thesis using wf defs unfolding request_ok_def by (metis option.distinct(1))
qed

theorem running_bridge_stays_consistent_witness:
  "\<exists>br evs s. main_run example_env permissive_backend (\<lambda>_. 1) example_runtime_config 0 = Value (Inr br)
    \<and> run_system (parts_of example_ua example_net br) evs (system_of br (\<lambda>_. 0)) = Some s \<and> sy_answers s \<noteq> []
    \<and> reg_wf (sy_registry s) \<and> (\<exists>t. reg_map (sy_registry s) ''t'' = Some t \<and> data_type (tag_value t) = TFloat)"
proof -
  obtain br d where br: "main_run example_env permissive_backend (\<lambda>_. 1) example_runtime_config 0 = Value (Inr br)"
    "br_opcua br = default_local" "br_drivers br = [started_driver example_plc example_modbus_plc]"
    "map_of (wh_routing (br_handler br)) = [''t'' \<mapsto> ModbusSender 0]"
    "reg_def (br_registry br) ''t'' = Some d" "td_writable d" "td_data_type d = TFloat"
    by (rule example_confirmed_bridge)
  obtain evs s where s: "run_system (parts_of example_ua example_net br) evs (system_of br (\<lambda>_. 0)) = Some s"
      "WriteAnswer example_bridge_write (Inr ()) \<in> set (sy_answers s)"
    using example_write [OF br] by blast
  have "reg_wf (sy_registry s) \<and> (\<exists>t. reg_map (sy_registry s) ''t'' = Some t \<and> data_type (tag_value t) = TFloat)"
    using running_bridge_stays_consistent [OF br(1) run_system_reach [OF sys_reach.start s(1)]] br(5,7) by metis
  with br(1) s show ?thesis by fastforce
qed

text \<open>C3: A client that is told \<open>Ok\<close> for a write in the confirmed mode is told the truth: whatever timeouts, late
  replies and other writes there were, the driver on the tag's route, with its configured mappings, has
  treated a request for this tag with this value, and the device has accepted it.\<close>

theorem confirmed_writes_were_performed:
  assumes "main_run env be clk cfg e = Value (Inr br)" and "sys_reach (parts_of ua net br) (system_of br es) s"
    and "WriteAnswer bw (Inr ()) \<in> set (sy_answers s)" and "bw_reply bw \<noteq> None"
  shows "\<exists>k req x sender. (k, req, x) \<in> set (sy_handled s)
    \<and> wr_tag_id req = bw_tag_id bw \<and> wr_value req = bw_value bw \<and> plc_accepts net x req
    \<and> map_of (wh_routing (br_handler br)) (bw_tag_id bw) = Some sender \<and> sender_queue sender = k
    \<and> dyn_config x = driver_of (br_drivers br ! k)"
proof -
  obtain k req x where h: "(k, req, x) \<in> set (sy_handled s)" "wr_tag_id req = bw_tag_id bw"
      "wr_value req = bw_value bw" "plc_accepts net x req"
    using channel_invD(5) [OF running_inv(2) [OF assms(1,2)] assms(3,4)] by (auto simp: performed_def)
  then have "request_ok (br_handler br) (br_registry br) (sy_next s) k req" "dyn_config x = driver_of (br_drivers br ! k)"
    using running_inv(1) [OF assms(1,2)] by (auto simp: state_inv_def)
  with h show ?thesis unfolding request_ok_def by metis
qed

theorem confirmed_writes_were_performed_witness:
  "\<exists>br evs s k x. main_run example_env permissive_backend (\<lambda>_. 1) example_runtime_config 0 = Value (Inr br)
    \<and> run_system (parts_of example_ua example_net br) evs (system_of br (\<lambda>_. 0)) = Some s
    \<and> WriteAnswer example_bridge_write (Inr ()) \<in> set (sy_answers s)
    \<and> (\<exists>req. (k, req, x) \<in> set (sy_handled s) \<and> wr_value req = example_value \<and> plc_accepts example_net x req)"
proof -
  obtain br d where br: "main_run example_env permissive_backend (\<lambda>_. 1) example_runtime_config 0 = Value (Inr br)"
    "br_opcua br = default_local" "br_drivers br = [started_driver example_plc example_modbus_plc]"
    "map_of (wh_routing (br_handler br)) = [''t'' \<mapsto> ModbusSender 0]"
    "reg_def (br_registry br) ''t'' = Some d" "td_writable d" "td_data_type d = TFloat"
    by (rule example_confirmed_bridge)
  obtain evs s where s: "run_system (parts_of example_ua example_net br) evs (system_of br (\<lambda>_. 0)) = Some s"
      "WriteAnswer example_bridge_write (Inr ()) \<in> set (sy_answers s)"
    using example_write [OF br] by blast
  from confirmed_writes_were_performed [OF br(1) run_system_reach [OF sys_reach.start s(1)] s(2)] br s
  show ?thesis by fastforce
qed

text \<open>C10: Shutdown stops the drivers before the server, so the server goes on accepting writes that nobody will
  perform: in the queued mode the client is told \<open>Ok\<close>, and no device is written from then on.\<close>

theorem writes_during_shutdown_are_lost:
  assumes "main_run env be clk cfg e = Value (Inr br)" and "sys_reach (parts_of ua net br) (system_of br es) s"
    and "sy_main s = StoppingServer" and "sy_server s = ServerLoop" and "oc_write_mode (br_opcua br) = QueuedAck"
    and "reg_def (br_registry br) tid = Some d" and "variant_to_tagvalue ua (nt_crates net) var (td_data_type d) = Inr v"
  shows "\<exists>src s'. src_tag_id src = tid \<and> sys_step (parts_of ua net br) (ClientWrite src (Some var)) s = Some s'
    \<and> sy_answers s' = sy_answers s @ [WriteAnswer \<lparr>bw_tag_id = tid, bw_value = v, bw_reply = None\<rparr> (Inr ())]
    \<and> (\<forall>s''. sys_reach (parts_of ua net br) s' s'' \<longrightarrow> sy_handled s'' = sy_handled s \<and> sy_registry s'' = sy_registry s)"
proof -
  let ?pts = "parts_of ua net br" and ?src = "tag_source QueuedAck d"
  let ?s' = "s\<lparr>sy_channel := sy_channel s @ [\<lparr>bw_tag_id = tid, bw_value = v, bw_reply = None\<rparr>],
    sy_answers := sy_answers s @ [WriteAnswer \<lparr>bw_tag_id = tid, bw_value = v, bw_reply = None\<rparr> (Inr ())]\<rparr>"
  note wf = main_run_setup(1) [OF assms(1)]
  have d: "td_id d = tid" "d \<in> set (reg_all_definitions_sorted (br_registry br))"
    using definitions_listed [OF wf] assms(6) by blast+
  have inv: "stopped_inv s" using dyn.stopped_inv_reach [OF assms(2) _ system_of_stopped] by simp
  then have alive: "sy_bridge s \<noteq> BridgeEnded" using assms(4) by (auto simp: stopped_inv_def)
  have "reg_step\<^sup>*\<^sup>* (br_registry br) (sy_registry s)" using running_inv(1) [OF assms(1,2)] by (simp add: state_inv_def)
  from reg_def_steps [OF this wf] assms(6) have "reg_def (sy_registry s) tid = Some d" by simp
  then have "client_write ?pts ?src (Some var) s = ?s'"
    using alive assms(7) d(1)
    by (simp add: client_write_def source_write_def tag_source_def TagDataSource_new_def get_definition_def_map)
  moreover have "?src \<in> set (sv_sources ?pts)" using d(2) assms(5) by (simp add: parts_of_def)
  ultimately have step: "sys_step ?pts (ClientWrite ?src (Some var)) s = Some ?s'" using assms(4) by simp
  have "sy_handled s'' = sy_handled s \<and> sy_registry s'' = sy_registry s" if "sys_reach ?pts ?s' s''" for s''
    using dyn.tasks_gone_reach [OF that dyn.stopped_inv_step [OF inv _ step]] assms(3) by simp
  with step d(1) show ?thesis
    by (intro exI [of _ ?src] exI [of _ ?s']) (simp add: tag_source_def TagDataSource_new_def)
qed

theorem writes_during_shutdown_are_lost_witness:
  "\<exists>br s src s'. main_run example_env permissive_backend (\<lambda>_. 1) (example_runtime_config\<lparr>rc_opcua := queued_rt_opcua\<rparr>) 0
      = Value (Inr br)
    \<and> run_system (parts_of example_ua example_net br) [CtrlC, TaskEvent 0 TaskShutdown, DriverStopped]
        (system_of br (\<lambda>_. 0)) = Some s
    \<and> sys_step (parts_of example_ua example_net br) (ClientWrite src (Some (XFloat 1))) s = Some s'
    \<and> WriteAnswer \<lparr>bw_tag_id = ''t'', bw_value = VFloat 1, bw_reply = None\<rparr> (Inr ()) \<in> set (sy_answers s')
    \<and> (\<forall>s''. sys_reach (parts_of example_ua example_net br) s' s'' \<longrightarrow> sy_handled s'' = sy_handled s)"
proof -
  have "oc_security_mode (default_local\<lparr>oc_write_mode := QueuedAck\<rparr>) = SecNone" by (simp add: default_local_def)
  from example_bridge [OF queued_opcua_config this] obtain br d where
    br: "main_run example_env permissive_backend (\<lambda>_. 1) (example_runtime_config\<lparr>rc_opcua := queued_rt_opcua\<rparr>) 0 = Value (Inr br)"
      "br_opcua br = default_local\<lparr>oc_write_mode := QueuedAck\<rparr>" "br_drivers br = [started_driver example_plc example_modbus_plc]"
      "reg_def (br_registry br) ''t'' = Some d" "td_data_type d = TFloat"
    by metis
  obtain s where s: "run_system (parts_of example_ua example_net br) [CtrlC, TaskEvent 0 TaskShutdown, DriverStopped]
        (system_of br (\<lambda>_. 0)) = Some s" "sy_main s = StoppingServer" "sy_server s = ServerLoop"
    using example_shutdown [OF br(3)] by blast
  have v: "variant_to_tagvalue example_ua (nt_crates example_net) (XFloat 1) (td_data_type d) = Inr (VFloat 1)"
    by (simp add: br(5) variant_to_tagvalue_def variant_scalar_def example_ua_def)
  have "oc_write_mode (br_opcua br) = QueuedAck" using br(2) by simp
  from writes_during_shutdown_are_lost [OF br(1) run_system_reach [OF sys_reach.start s(1)] s(2,3) this br(4) v] br(1) s(1)
  show ?thesis by fastforce
qed

text \<open>C9: Once the drivers are stopped and the server loop has ended, the rest of the shutdown ends: every sequence of
  events has at most \<open>shutdown_work\<close> of them, and the program is finished exactly when nothing can happen any
  more.  The bridge thread has then taken every write of its channel, except when it had already found
  the channel empty and was about to read the flag: the writes that came after that stay in the channel.\<close>

theorem shutdown_ends:
  assumes "sys_reach (parts_of ua net br) (system_of br es) s"
    and "sy_main s = StoppingServer" and "sy_server s = ServerStopped"
    and "run_system (parts_of ua net br) evs s = Some s'"
  shows "length evs \<le> shutdown_work s
    \<and> ((\<forall>ev. sys_step (parts_of ua net br) ev s' = None) \<longleftrightarrow> sy_main s' = Finished)
    \<and> (sy_main s' = Finished \<longrightarrow> sy_bridge s' = BridgeEnded \<and> sy_channel s' = left_behind s)"
proof -
  let ?pts = "parts_of ua net br"
  have "stopped_inv s" using dyn.stopped_inv_reach [OF assms(1) _ system_of_stopped] by simp
  then have "winding_down s" using assms(2,3) by (simp add: winding_down_def)
  from dyn.winding_down_run [OF this parts_of_sel(1) assms(4)]
  have w: "winding_down s'" "length evs \<le> shutdown_work s" "left_behind s' = left_behind s" by simp_all
  moreover have "(\<forall>ev. sys_step ?pts ev s' = None) \<longleftrightarrow> sy_main s' = Finished"
    using dyn.winding_down_progress [OF w(1), of ?pts] dyn.finished_is_final [OF w(1) _ parts_of_sel(1)]
    by (metis option.distinct(1))
  ultimately show ?thesis by (auto simp: winding_down_def left_behind_def)
qed

theorem shutdown_ends_witness:
  "\<exists>br s s'. main_run example_env permissive_backend (\<lambda>_. 1) example_runtime_config 0 = Value (Inr br)
    \<and> run_system (parts_of example_ua example_net br) [CtrlC, TaskEvent 0 TaskShutdown, DriverStopped, ServerStops]
        (system_of br (\<lambda>_. 0)) = Some s
    \<and> run_system (parts_of example_ua example_net br) [BridgeIdle, BridgeCheck, BridgeJoined] s = Some s'
    \<and> length [BridgeIdle :: example_variant sys_event, BridgeCheck, BridgeJoined] \<le> shutdown_work s
    \<and> sy_main s' = Finished \<and> (\<forall>ev. sys_step (parts_of example_ua example_net br) ev s' = None)"
proof -
  obtain br where br: "main_run example_env permissive_backend (\<lambda>_. 1) example_runtime_config 0 = Value (Inr br)"
      "br_drivers br = [started_driver example_plc example_modbus_plc]"
    using example_confirmed_bridge by metis
  let ?pts = "parts_of example_ua example_net br" and ?init = "system_of br (\<lambda>_. 0)"
  obtain s1 where s1: "run_system ?pts [CtrlC, TaskEvent 0 TaskShutdown, DriverStopped] ?init = Some s1"
      "sy_main s1 = StoppingServer" "sy_server s1 = ServerLoop" "sy_bridge s1 = BridgeListening" "sy_channel s1 = []"
    using example_shutdown [OF br(2)] by blast
  let ?s = "s1\<lparr>sy_server := ServerStopped\<rparr>" and ?s' = "s1\<lparr>sy_server := ServerStopped, sy_bridge := BridgeEnded, sy_main := Finished\<rparr>"
  have stop: "run_system ?pts [ServerStops] s1 = Some ?s" using s1(2,3) by simp
  have s: "run_system ?pts [CtrlC, TaskEvent 0 TaskShutdown, DriverStopped, ServerStops] ?init = Some ?s"
    using run_system_append [of ?pts "[CtrlC, TaskEvent 0 TaskShutdown, DriverStopped]" "[ServerStops]" ?init] s1(1) stop
    by (simp only: append.simps option.simps bind.simps)
  have s': "run_system ?pts [BridgeIdle, BridgeCheck, BridgeJoined] ?s = Some ?s'" using s1 by simp
  have "sy_main ?s = StoppingServer" "sy_server ?s = ServerStopped" "sy_main ?s' = Finished" using s1 by simp_all
  with shutdown_ends [OF run_system_reach [OF sys_reach.start s] _ _ s'] s s' br(1) show ?thesis by blast
qed

end
