(* ===== verification/Spec2Isabelle.thy ===== *)
theory Spec2Isabelle
  imports Modbus_Read Fins_Read Runtime_Config Runtime_Poll Runtime_Write Opcua_Server Startup Write_Path Bridge_Run
begin

text \<open>
  A verification development of the OPC UA to PLC bridge in \<open>src/\<close>.

  \<^bold>\<open>The program.\<close>  The bridge polls PLCs over Modbus/TCP (\<open>src/driver/modbus\<close>) and Omron FINS/TCP
  (\<open>src/driver/fins\<close>), keeps the values in a registry of typed tags (\<open>src/core-model\<close>), and offers them
  through an OPC UA server (\<open>src/opcua-server\<close>).  The runtime (\<open>src/runtime\<close>) loads the configuration,
  builds the registry, the drivers and the write routes, and runs one polling task for each PLC.  A
  client's write goes from the data source of the node through a bridge thread to the runtime's write
  handler, from there into the queue of the tag's driver, and is sent to the device in the next cycle;
  the confirmation comes back through reply channels.

  \<^bold>\<open>The theories, in the order of the imports.\<close>
  \<^item> \<open>Prelude\<close>, \<open>Control\<close>, \<open>Ranges\<close>: collections of simplification rules, lemmas on words, lists and maps;
    statements that fall through, break, return an error, panic or never end, with loops over lists; and
    the interface \<open>neighbour_check\<close> (scanning sorted ranges for overlaps) with the slice of a response
    that belongs to a mapping.
  \<^item> \<open>Rust_Std\<close>, \<open>Crates\<close>: what the sources use of the standard library (UTF-8, trimming, number parsing and
    printing, binary search, bounded channels), and the third-party crates as a record \<open>crates\<close> of
    functions with their documented behaviour as named laws.
  \<^item> \<open>Tag_Value\<close>, \<open>Tag_Definition\<close>, \<open>Tag_Store\<close>, \<open>Registry\<close>: \<open>src/core-model\<close>.  Values, types, qualities and
    byte orders with the in-place loops; definitions and their store; the runtime store with its index,
    its cache of sorted ids and its subscribers; the registry.  The store refines a finite map, the
    loops equal a reference reordering, and a well-formed registry keeps every tag at its defined type.
  \<^item> \<open>Modbus_Codec\<close>, \<open>Modbus_Plan\<close>, \<open>Modbus_Cycle\<close>, \<open>Modbus_Read\<close>: \<open>src/driver/modbus\<close>.  Conversions between
    values, bytes and registers; \<open>validate\<close>, the grouping of mappings and the chunking of requests; the
    whole of \<open>run_read_cycle_impl\<close> with queue draining, writes, reconnection, reads and every error
    branch; and what a cycle publishes.
  \<^item> \<open>Fins_Codec\<close>, \<open>Fins_Plan\<close>, \<open>Fins_Cycle\<close>, \<open>Fins_Read\<close>: \<open>src/driver/fins\<close>, in the same way: frames and
    conversions; \<open>validate\<close> and the read groups of \<open>FinsDriver::new\<close>; the cycle over the TCP stream; what it
    publishes.
  \<^item> \<open>Driver_State\<close>, \<open>Protocol\<close>: what the two drivers share: the state of a driver, its replies and events, the
    reconnect loop, draining of the queue; and the interfaces \<open>write_handler\<close> and \<open>protocol_driver\<close>, which
    both drivers interpret.
  \<^item> \<open>Opcua_Config\<close>, \<open>Opcua_Source\<close>, \<open>Opcua_Server\<close>: \<open>src/opcua-server\<close>.  Configuration and its validation;
    the conversions between values and variants with the read and write callbacks; the start of the
    server, its address space, the write bridge thread (over the interface \<open>bridge_handler\<close>, which the
    runtime's handler interprets) and the server task.
  \<^item> \<open>Runtime_Config\<close>, \<open>Runtime_Driver\<close>, \<open>Runtime_Poll\<close>, \<open>Runtime_Write\<close>, \<open>Startup\<close>: \<open>src/runtime\<close>.  Configuration
    and conversion of tags; the polling task as a state machine with the interface \<open>polled_driver\<close>, which
    both drivers interpret; the write handler; and \<open>main\<close> up to a running bridge.
  \<^item> \<open>Write_Path\<close>: the components composed: the runtime's handler behind the bridge thread, and a client's
    write through all of them.
  \<^item> \<open>Bridge_Tasks\<close>, \<open>Bridge_System\<close>, \<open>Bridge_Run\<close>: the running bridge.  The polling tasks statement by statement, over
    either driver behind the trait object (the interface \<open>task_driver\<close>, interpreted as \<open>dyn\<close>); the threads
    and tasks that \<open>main\<close> starts with the channels between them, as a transition system \<open>sys_step\<close> with its
    reachable states \<open>sys_reach\<close>; and what holds from the start of a bridge to the end of its shutdown.

  \<^bold>\<open>How state and effects are modelled.\<close>  A struct is a record and an enum a datatype with the source's
  constructors; integers are words of their width, with the arithmetic of the build profile where the
  source uses checked operators (a debug build panics on overflow, a release build wraps); floats are
  their bits; strings are their UTF-8 bytes.  A \<open>HashMap\<close> is an association list, and where its
  iteration order matters it is an argument.  State is passed explicitly.  The network, the clock and
  the OPC UA stack are records of functions over an environment state; the outcome of a channel
  operation (received, closed, timed out) is an input of the step that performs it.  In the theories of
  the single components the shared registry is part of the state of the component that is looked at;
  \<open>reg_step\<close> is the relation of what others may do to it, and invariants hold along it.

  \<^bold>\<open>How concurrency is modelled.\<close>  The running bridge (\<open>Bridge_System\<close>) has one registry, a bounded queue for
  every driver, the bridge channel and the reply channels, and the places of its threads: the server
  loop, which runs one callback at a time and waits in it for a confirmation; the bridge thread, which
  waits for a driver; every polling task; and \<open>main\<close> in its shutdown.  An event is one step of one of them,
  and the theorems quantify over all sequences of events.  What one step does is atomic: the treatment
  of one write request, the reading of one FINS group, the read phase of the Modbus driver, one callback
  up to its wait.  Finer interleavings only change at which of the tag updates another thread
  looks at the registry, and every update is one locked operation.  That the statements of a task put
  together are the cycle as the driver theories model it is \<open>uninterrupted\<close>, a lemma of \<open>task_driver\<close>.
  A timeout may fire at any time while its thread waits.  The list \<open>sy_handled\<close> is a history that no step
  reads.

  \<^bold>\<open>What the properties show.\<close>
  \<^item> End to end: a confirmed client write reaches the device and the next read of the node shows it, with
    both drivers; a started bridge is consistent.
  \<^item> The running bridge, in every interleaving: a client that is told \<open>Ok\<close> in the confirmed mode had its value
    accepted by the right device, whatever timed out or came late before; every tag keeps its type, the
    queues stay within their bounds and hold valid writes only; an uninterrupted cycle is the driver's
    cycle; the shutdown ends once the drivers and the server loop have stopped, and what the writes that
    arrive during it come to.
  \<^item> Reading: a cycle against an answering device publishes for every mapping the value of its own registers
    or words; the requests cover every mapped register exactly once within the limits of the protocol;
    validation accepts exactly the mappings that do not share a register.
  \<^item> Types and replies: no sequence of cycles, polls and updates changes the type of a tag; every write taken
    from a queue is answered exactly once, in order, by the drivers and by the bridge.
  \<^item> Conversions: what is written decodes to the same value, through every byte order and through OPC UA
    variants; FINS frames can be parsed back.
  \<^item> Timing and life cycle: reconnection ends when the device accepts, with growing delays; the polling
    periods; the stale check.
  \<^item> Behaviour that the code should not have is stated as it is: split mappings, packed coils, groups not
    marked, a shutdown that waits for an unreachable device, writes acknowledged and lost during the
    shutdown, colliding node ids, options without effect, a request maximum of zero.
  Lemmas of the components that the properties do not repeat: the poller's backoff sequence, the validation
  of the server configuration, the FINS cycle that swallows errors, the types kept by a single poller.

  \<^bold>\<open>Bounds and fuel.\<close>  Loops over data are structural.  \<open>read_words\<close> uses the length of its buffer as fuel,
  which is enough because a read consumes two bytes.  The loops that may not end are partial functions:
  the reconnect loop (it ends as soon as a connection is accepted), and the chunk loops (they end when the
  maximum is positive; with a FINS maximum of zero the loop provably does not end).  A cycle that never
  ends leaves its task in the cycle; \<open>shutdown_work\<close> bounds the events left when the server loop has ended.

  \<^bold>\<open>Not modelled.\<close>  Logging; the command line declaration (\<open>cli.rs\<close>); the serde attributes, whose work is the
  parsers', and the serde helper for shared strings; module roots; the timeouts themselves and the
  initial jitter of a poller, since only the order of events is modelled; preemption inside a registry
  operation, which the source makes atomic with a lock or an atomic swap, and inside the statements named
  above; reads of nodes as events of the running bridge, which change nothing; the inner work of the OPC UA
  stack, of TCP and of the Modbus protocol library.
\<close>

end
